(* ===== verification/Prelude.thy ===== *)
theory Prelude
  imports "HOL-Library.Word" "HOL-Library.Sublist"
begin

text \<open>
  Shared ground of the development: machine words, the outcomes a kernel
  function can have, sequencing of such functions, the C \<open>for\<close> loop over a
  table, and the generic facts on lists and words that the components use.

  A kernel function takes the state and returns \<open>kerr + ('r \<times> state)\<close>:
  \<open>Inr\<close> when it returns to its caller, \<open>Inl\<close> when it does not.  The ways of
  not returning are told apart because the source tells them apart.
\<close>

unbundle bit_operations_syntax

section \<open>Machine integers\<close>

type_synonym u8 = "8 word"
type_synonym u16 = "16 word"
type_synonym u32 = "32 word"
type_synonym u64 = "64 word"

text \<open>Physical memory, by byte address.\<close>

type_synonym memory = "u64 \<Rightarrow> u8"

section \<open>Locks, sleep channels and outcomes\<close>

text \<open>
  Every spin lock of the kernel has an identity: the lock of process slot
  \<open>i\<close>, of container slot \<open>i\<close>, of the page allocator, and so on.  A sleep
  lock is protected by a spin lock of its own.
\<close>

datatype sleepid = SlBuf nat | SlInode nat

datatype lockid =
    LKmem | LPid | LCid | LProc nat | LCont nat | LTicks | LFtable | LIcache
  | LBcache | LLog | LVdisk | LPipe u64 | LCons nat | LSleep sleepid

text \<open>The addresses processes sleep on.  Distinct objects have distinct addresses.\<close>

datatype chan =
    ChProc nat | ChTicks | ChLog | ChSleeplock sleepid | ChPipeRead u64
  | ChPipeWrite u64 | ChCons nat | ChDiskFree | ChBuf nat

text \<open>
  Why a call does not return: a kernel panic with its message; an access
  through a null or out-of-range pointer; a loop or lock acquisition that
  spins; going to sleep on a channel; or the calling process exiting.
\<close>

datatype kerr = Panic string | Fault | Spins | Sleeps chan | Exits int

type_synonym 'a kres = "kerr + 'a"

section \<open>Sequencing\<close>

named_theorems kernel_simps \<open>unfolding of kernel calls under their preconditions\<close>

definition bindE :: "'e + 'a \<Rightarrow> ('a \<Rightarrow> 'e + 'b) \<Rightarrow> 'e + 'b" where
  "bindE m f = (case m of Inl e \<Rightarrow> Inl e | Inr x \<Rightarrow> f x)"

lemma bindE_Inl [simp]: "bindE (Inl e) f = Inl e"
  by (simp add: bindE_def)

lemma bindE_Inr [simp]: "bindE (Inr x) f = f x"
  by (simp add: bindE_def)

lemma bindE_eq_Inr: "bindE m f = Inr y \<longleftrightarrow> (\<exists>x. m = Inr x \<and> f x = Inr y)"
  by (cases m) auto

lemma bindE_eq_Inl: "bindE m f = Inl e \<longleftrightarrow> m = Inl e \<or> (\<exists>x. m = Inr x \<and> f x = Inl e)"
  by (cases m) auto

lemma bindE_assoc: "bindE (bindE m f) g = bindE m (\<lambda>x. bindE (f x) g)"
  by (cases m) auto

lemma bindE_cong [fundef_cong]:
  "m = m' \<Longrightarrow> (\<And>x. m' = Inr x \<Longrightarrow> f x = g x) \<Longrightarrow> bindE m f = bindE m' g"
  by (cases m') auto

lemma bindE_split:
  "P (bindE m f) \<longleftrightarrow> (\<forall>e. m = Inl e \<longrightarrow> P (Inl e)) \<and> (\<forall>x. m = Inr x \<longrightarrow> P (f x))"
  by (cases m) auto

text \<open>
  The C loop \<open>for (i = ...)\<close> over the indices of a table, with \<open>return\<close>
  inside the body: the body gives \<open>Some r\<close> to return \<open>r\<close> from the enclosing
  function and \<open>None\<close> to go on.
\<close>

fun foreach :: "nat list \<Rightarrow> (nat \<Rightarrow> 's \<Rightarrow> kerr + ('r option \<times> 's)) \<Rightarrow> 's \<Rightarrow> kerr + ('r option \<times> 's)" where
  "foreach [] body s = Inr (None, s)"
| "foreach (i # is) body s =
     bindE (body i s) (\<lambda>(r, s'). case r of Some x \<Rightarrow> Inr (Some x, s') | None \<Rightarrow> foreach is body s')"

lemma foreach_append:
  "foreach (is @ js) body s =
     bindE (foreach is body s)
       (\<lambda>(r, s'). case r of Some x \<Rightarrow> Inr (Some x, s') | None \<Rightarrow> foreach js body s')"
  by (induction "is" arbitrary: s) (auto simp: bindE_def split: sum.splits option.splits)

text \<open>An invariant of the body is an invariant of the loop.\<close>

lemma foreach_invariant:
  assumes "\<And>i s r s'. i \<in> set is \<Longrightarrow> I s \<Longrightarrow> body i s = Inr (r, s') \<Longrightarrow> I s'"
    and "foreach is body s = Inr (r, s')" and "I s"
  shows "I s'"
  using assms
proof (induction "is" arbitrary: s)
  case Nil
  then show ?case by simp
next
  case (Cons i "is")
  from Cons.prems(2) obtain r1 s1 where b: "body i s = Inr (r1, s1)"
    and rest: "(case r1 of Some x \<Rightarrow> Inr (Some x, s1) | None \<Rightarrow> foreach is body s1) = Inr (r, s')"
    by (auto simp: bindE_eq_Inr)
  from Cons.prems(1) [of i s r1 s1] Cons.prems(3) b have I1: "I s1" by simp
  show ?case
  proof (cases r1)
    case None
    with rest have "foreach is body s1 = Inr (r, s')" by simp
    with Cons.IH [of s1] Cons.prems(1) I1 show ?thesis by (meson list.set_intros(2))
  next
    case (Some x)
    with rest I1 show ?thesis by simp
  qed
qed

text \<open>A loop whose first bad iteration stops it with an error.\<close>

lemma foreach_stops:
  assumes "i < n" and "I s"
    and "\<And>j t. j < i \<Longrightarrow> I t \<Longrightarrow> \<exists>t'. body j t = Inr (None, t') \<and> I t'"
    and "\<And>t. I t \<Longrightarrow> body i t = Inl e"
  shows "foreach [0..<n] body s = Inl e"
proof -
  have "\<exists>t. foreach [0..<m] body s = Inr (None, t) \<and> I t" if "m \<le> i" for m
    using that
  proof (induction m)
    case 0
    with assms(2) show ?case by simp
  next
    case (Suc m)
    then obtain t where "foreach [0..<m] body s = Inr (None, t)" "I t" by auto
    moreover from this assms(3) [of m t] Suc.prems obtain t' where "body m t = Inr (None, t')" "I t'"
      by auto
    ultimately show ?case by (simp add: foreach_append)
  qed
  from this [of i] obtain t where t: "foreach [0..<i] body s = Inr (None, t)" "I t" by auto
  have "[0..<n] = [0..<i] @ i # [Suc i..<n]"
    using assms(1) by (metis upt_add_eq_append upt_conv_Cons le_add1 less_imp_add_positive less_imp_le_nat zero_le)
  with t assms(4) show ?thesis by (simp add: foreach_append)
qed

section \<open>Lists\<close>

lemma nth_map_upd:
  "i < length xs \<Longrightarrow> (map f (take i xs) @ drop i xs)[i := f (xs ! i)] = map f (take (Suc i) xs) @ drop (Suc i) xs"
  by (simp add: list_update_append take_Suc_conv_app_nth Cons_nth_drop_Suc [symmetric]
      del: Cons_nth_drop_Suc)

text \<open>Scanning a table from the front finds the first index that qualifies.\<close>

definition first_index :: "('a \<Rightarrow> bool) \<Rightarrow> 'a list \<Rightarrow> nat option" where
  "first_index P xs = List.find (\<lambda>i. P (xs ! i)) [0..<length xs]"

lemma find_upt_Some:
  "List.find P [0..<n] = Some i \<longleftrightarrow> i < n \<and> P i \<and> (\<forall>j<i. \<not> P j)"
  by (auto simp: find_Some_iff)

lemma find_upt_None: "List.find P [0..<n] = None \<longleftrightarrow> (\<forall>i<n. \<not> P i)"
  by (auto simp: find_None_iff)

lemma first_index_Some:
  "first_index P xs = Some i \<longleftrightarrow> i < length xs \<and> P (xs ! i) \<and> (\<forall>j<i. \<not> P (xs ! j))"
  by (simp add: first_index_def find_upt_Some)

lemma first_index_None: "first_index P xs = None \<longleftrightarrow> (\<forall>x \<in> set xs. \<not> P x)"
  by (simp add: first_index_def find_upt_None) (metis in_set_conv_nth)

section \<open>Word arithmetic\<close>

lemma unat_less_2p64: "unat (x :: u64) < 2 ^ 64"
  using unsigned_less [of x, where 'a = nat] by simp

lemma unat_less_2p32: "unat (x :: u32) < 2 ^ 32"
  using unsigned_less [of x, where 'a = nat] by simp

lemma unat_of_nat_u64: "n < 2 ^ 64 \<Longrightarrow> unat (of_nat n :: u64) = n"
  by (simp add: unsigned_of_nat take_bit_nat_eq_self)

lemma unat_of_nat_u32: "n < 2 ^ 32 \<Longrightarrow> unat (of_nat n :: u32) = n"
  by (simp add: unsigned_of_nat take_bit_nat_eq_self)

lemma unat_add_u64: "unat (a :: u64) + unat b < 2 ^ 64 \<Longrightarrow> unat (a + b) = unat a + unat b"
  by (simp add: unat_word_ariths)

lemma unat_add_u32: "unat (a :: u32) + unat b < 2 ^ 32 \<Longrightarrow> unat (a + b) = unat a + unat b"
  by (simp add: unat_word_ariths)

lemma unat_diff_u64: "b \<le> a \<Longrightarrow> unat (a - b :: u64) = unat a - unat b"
  by (rule unat_sub)

lemma unat_diff_wrap_u64: "(a :: u64) < b \<Longrightarrow> unat (a - b) = 2 ^ 64 - (unat b - unat a)"
  using unat_less_2p64 [of b] by (simp add: unat_sub_if' word_less_nat_alt)

lemma unat_minus_one_u64: "unat (- 1 :: u64) = 2 ^ 64 - 1"
  using unat_diff_wrap_u64 [of 0 1] by simp

lemma unat_diff_Suc_u64:
  fixes a d :: u64
  assumes "a \<noteq> d"
  shows "unat (a - d) = Suc (unat (a - (d + 1)))"
proof -
  from assms have "a - d \<noteq> 0" by simp
  then have "unat (a - d - 1) = unat (a - d) - 1" and "0 < unat (a - d)"
    by (rule unat_minus_one) (use assms in \<open>simp add: unat_gt_0\<close>)
  then show ?thesis by (simp add: algebra_simps)
qed

section \<open>Updated tables\<close>

lemma ball_list_update:
  "(\<forall>x \<in> set xs. P x) \<Longrightarrow> (i < length xs \<Longrightarrow> P y) \<Longrightarrow> \<forall>x \<in> set (xs[i := y]). P x"
  by (cases "i < length xs") (auto dest!: set_update_subset_insert [THEN subsetD] simp: list_update_beyond)

lemma list_update_upd: "xs[i := f (xs ! i)] ! j = (if i = j \<and> j < length xs then f (xs ! j) else xs ! j)"
  by (metis linorder_not_less list_update_beyond nth_list_update_eq nth_list_update_neq)

text \<open>\<open>(int) x\<close> of a small \<open>uint64\<close> is its value.\<close>

lemma sint_ucast_small:
  assumes a: "unat (x :: u64) < 2147483648"
  shows "sint (ucast x :: u32) = int (unat x)"
proof -
  have n: "uint x = int (unat x)" by simp
  have b: "uint x < 2147483648" "0 \<le> uint x"
    unfolding n using a by linarith+
  have u: "uint (ucast x :: u32) = uint x"
    unfolding unsigned_ucast_eq by (rule take_bit_int_eq_self) (use b in simp_all)
  have s: "signed_take_bit 31 (uint x) = uint x"
    using b by (intro signed_take_bit_int_eq_self) (auto intro: order_trans [of _ 0])
  show ?thesis
    unfolding sint_uint u n [symmetric] using s by simp
qed

lemma sint_ucast_not_neg: "unat (x :: u64) < 2147483648 \<Longrightarrow> \<not> sint (ucast x :: u32) < 0"
  unfolding sint_ucast_small by (simp only: of_nat_0_le_iff not_less)

end
