(* ===== verification/CString.thy ===== *)
theory CString
  imports Prelude
begin

text \<open>
  The byte and string routines of \<open>kernel/string.c\<close>.

  A pointer into a character buffer is the list of bytes from the pointer to
  the end of the buffer; reading or writing past the end is a \<^const>\<open>Fault\<close>.
  \<open>memset\<close> and \<open>memmove\<close> work on physical memory, where the regions may
  overlap.
\<close>

section \<open>Memory routines\<close>

text \<open>\<open>for (i = 0; i < n; i++) cdst[i] = c\<close>\<close>

fun memset :: "memory \<Rightarrow> u64 \<Rightarrow> u8 \<Rightarrow> nat \<Rightarrow> memory" where
  "memset m dst c 0 = m"
| "memset m dst c (Suc n) = memset (m(dst := c)) (dst + 1) c n"

fun memcmp :: "u8 list \<Rightarrow> u8 list \<Rightarrow> nat \<Rightarrow> int kres" where
  "memcmp s1 s2 0 = Inr 0"
| "memcmp (a # s1) (b # s2) (Suc n) =
     (if a \<noteq> b then Inr (uint a - uint b) else memcmp s1 s2 n)"
| "memcmp s1 s2 (Suc n) = Inl Fault"

text \<open>The two loops of \<open>memmove\<close>: upwards, and downwards from the end.\<close>

fun memmove_up :: "memory \<Rightarrow> u64 \<Rightarrow> u64 \<Rightarrow> nat \<Rightarrow> memory" where
  "memmove_up m d s 0 = m"
| "memmove_up m d s (Suc n) = memmove_up (m(d := m s)) (d + 1) (s + 1) n"

fun memmove_down :: "memory \<Rightarrow> u64 \<Rightarrow> u64 \<Rightarrow> nat \<Rightarrow> memory" where
  "memmove_down m d s 0 = m"
| "memmove_down m d s (Suc n) = memmove_down (m(d - 1 := m (s - 1))) (d - 1) (s - 1) n"

definition memmove :: "memory \<Rightarrow> u64 \<Rightarrow> u64 \<Rightarrow> nat \<Rightarrow> memory" where
  "memmove m dst src n =
     (if src < dst \<and> src + of_nat n > dst
      then memmove_down m (dst + of_nat n) (src + of_nat n) n
      else memmove_up m dst src n)"

definition memcpy :: "memory \<Rightarrow> u64 \<Rightarrow> u64 \<Rightarrow> nat \<Rightarrow> memory" where
  "memcpy m dst src n = memmove m dst src n"

section \<open>String routines\<close>

fun strncmp :: "u8 list \<Rightarrow> u8 list \<Rightarrow> nat \<Rightarrow> int kres" where
  "strncmp p q 0 = Inr 0"
| "strncmp (a # p) (b # q) (Suc n) =
     (if a \<noteq> 0 \<and> a = b then strncmp p q n else Inr (uint a - uint b))"
| "strncmp p q (Suc n) = Inl Fault"

text \<open>\<open>while (n-- > 0) *s++ = 0\<close>, the padding loop of \<open>strncpy\<close>.\<close>

fun strncpy_pad :: "u8 list \<Rightarrow> nat \<Rightarrow> u8 list kres" where
  "strncpy_pad s 0 = Inr s"
| "strncpy_pad (x # s) (Suc n) = bindE (strncpy_pad s n) (\<lambda>s'. Inr (0 # s'))"
| "strncpy_pad [] (Suc n) = Inl Fault"

fun strncpy :: "u8 list \<Rightarrow> u8 list \<Rightarrow> nat \<Rightarrow> u8 list kres" where
  "strncpy s t 0 = Inr s"
| "strncpy (x # s) (c # t) (Suc n) =
     bindE (if c = 0 then strncpy_pad s n else strncpy s t n) (\<lambda>s'. Inr (c # s'))"
| "strncpy s t (Suc n) = Inl Fault"

text \<open>
  \<open>safestrcpy\<close> leaves the loop with \<open>s\<close> one past the last byte copied and
  stores a NUL there, also when that last byte was a NUL already.
\<close>

fun safestrcpy :: "u8 list \<Rightarrow> u8 list \<Rightarrow> nat \<Rightarrow> u8 list kres" where
  "safestrcpy s t 0 = Inr s"
| "safestrcpy s t (Suc 0) = (case s of [] \<Rightarrow> Inl Fault | x # s' \<Rightarrow> Inr (0 # s'))"
| "safestrcpy (x # s) (c # t) (Suc (Suc n)) =
     (if c = 0 then (case s of [] \<Rightarrow> Inl Fault | y # s' \<Rightarrow> Inr (0 # 0 # s'))
      else bindE (safestrcpy s t (Suc n)) (\<lambda>s'. Inr (c # s')))"
| "safestrcpy s t (Suc (Suc n)) = Inl Fault"

fun strlen :: "u8 list \<Rightarrow> nat kres" where
  "strlen [] = Inl Fault"
| "strlen (c # s) = (if c = 0 then Inr 0 else bindE (strlen s) (\<lambda>n. Inr (Suc n)))"

text \<open>The text of a buffer: the bytes before the first NUL.\<close>

definition cstr :: "u8 list \<Rightarrow> u8 list" where
  "cstr s = takeWhile (\<lambda>c. c \<noteq> 0) s"

text \<open>A string literal as the array the compiler lays out.\<close>

definition lit :: "string \<Rightarrow> u8 list" where
  "lit s = map of_char s @ [0]"

section \<open>Facts\<close>

subsection \<open>Strings\<close>

lemma cstr_Nil [simp]: "cstr [] = []"
  by (simp add: cstr_def)

lemma cstr_Cons [simp]: "cstr (c # s) = (if c = 0 then [] else c # cstr s)"
  by (simp add: cstr_def)

lemma cstr_no_nul: "0 \<notin> set (cstr s)"
  by (auto simp: cstr_def dest: set_takeWhileD)

lemma cstr_cstr_append: "0 \<notin> set s \<Longrightarrow> cstr (s @ 0 # t) = s"
  by (induction s) auto

lemma strlen_eq: "strlen s = (if 0 \<in> set s then Inr (length (cstr s)) else Inl Fault)"
  by (induction s) auto

lemma strlen_Inr: "strlen s = Inr n \<longleftrightarrow> 0 \<in> set s \<and> n = length (cstr s)"
  by (auto simp: strlen_eq)

text \<open>
  \<open>strncmp\<close> within the bounds of both buffers: zero exactly when the texts
  agree on their first \<open>n\<close> bytes.
\<close>

lemma strncmp_Inr:
  assumes "n \<le> length p \<or> 0 \<in> set p" and "n \<le> length q \<or> 0 \<in> set q"
  shows "\<exists>r. strncmp p q n = Inr r"
  using assms by (induction p q n rule: strncmp.induct) auto

lemma strncmp_zero:
  "strncmp p q n = Inr r \<Longrightarrow> r = 0 \<longleftrightarrow> take n (cstr p) = take n (cstr q)"
proof (induction p q n rule: strncmp.induct)
  case (2 a p b q n)
  show ?case
  proof (cases "a \<noteq> 0 \<and> a = b")
    case True
    with "2.prems" "2.IH" show ?thesis by auto
  next
    case False
    with "2.prems" have "r = uint a - uint b" by simp
    then have "r = 0 \<longleftrightarrow> a = b" by (metis diff_self eq_iff_diff_eq_0 word_uint_eqI)
    with False show ?thesis by auto
  qed
qed auto

text \<open>With \<open>n\<close> the length of the first string, \<open>strncmp\<close> tests for a prefix.\<close>

lemma strncmp_strlen_prefix:
  assumes "strlen p = Inr n" and "strncmp p q n = Inr r"
  shows "r = 0 \<longleftrightarrow> prefix (cstr p) (cstr q)"
proof -
  from assms(1) have n: "n = length (cstr p)" by (simp add: strlen_Inr)
  from strncmp_zero [OF assms(2)] n have "r = 0 \<longleftrightarrow> cstr p = take (length (cstr p)) (cstr q)"
    by simp
  then show ?thesis
    by (metis append_eq_conv_conj prefix_def take_is_prefix)
qed

lemma strncpy_pad_eq: "n \<le> length s \<Longrightarrow> strncpy_pad s n = Inr (replicate n 0 @ drop n s)"
  by (induction s n rule: strncpy_pad.induct) auto

text \<open>
  \<open>strncpy\<close> fills exactly \<open>n\<close> bytes: the text of \<open>t\<close>, cut at \<open>n\<close>, then NULs.
  There is no terminator when the text has \<open>n\<close> bytes or more.
\<close>

lemma strncpy_eq:
  assumes "n \<le> length s" and "0 \<in> set t \<or> n \<le> length t"
  shows "strncpy s t n =
    Inr (take n (cstr t) @ replicate (n - length (cstr t)) 0 @ drop n s)"
  using assms by (induction s t n rule: strncpy.induct) (auto simp: strncpy_pad_eq)

lemma strncpy_length: "strncpy s t n = Inr s' \<Longrightarrow> length s' = length s"
proof (induction s t n arbitrary: s' rule: strncpy.induct)
  case (2 x s c t n)
  have "strncpy_pad s n = Inr r \<Longrightarrow> length r = length s" for r
    by (induction s n arbitrary: r rule: strncpy_pad.induct) (auto simp: bindE_eq_Inr)
  with 2 show ?case by (auto simp: bindE_eq_Inr split: if_splits)
qed auto

text \<open>\<open>safestrcpy\<close> always leaves a terminated string, cut at \<open>n - 1\<close> bytes.\<close>

lemma safestrcpy_eq:
  assumes "0 < n" and "n \<le> length s" and "0 \<in> set t \<or> n \<le> length t"
  shows "\<exists>s'. safestrcpy s t n = Inr s' \<and> cstr s' = take (n - 1) (cstr t)
    \<and> length s' = length s \<and> 0 \<in> set (take n s')"
  using assms
proof (induction s t n rule: safestrcpy.induct)
  case (2 s t)
  then show ?case by (cases s) auto
next
  case (3 x s c t n)
  show ?case
  proof (cases "c = 0")
    case True
    with 3 show ?thesis by (cases s) auto
  next
    case False
    with 3 obtain s' where "safestrcpy s t (Suc n) = Inr s'" "cstr s' = take n (cstr t)"
      "length s' = length s" "0 \<in> set (take (Suc n) s')" by auto
    with False show ?thesis by simp
  qed
qed auto

subsection \<open>Overlapping copies\<close>

lemma memset_apply: "n \<le> 2 ^ 64 \<Longrightarrow> memset m d c n a = (if unat (a - d) < n then c else m a)"
proof (induction n arbitrary: m d)
  case (Suc n)
  show ?case
  proof (cases "a = d")
    case True
    have "\<not> unat (d - (d + 1)) < n" using Suc.prems unat_minus_one_u64 by simp
    with True Suc show ?thesis by simp
  next
    case False
    with Suc unat_diff_Suc_u64 [OF False] show ?thesis by simp
  qed
qed simp

lemma memmove_up_apply:
  assumes "n \<le> 2 ^ 64" and "d = s \<or> n \<le> unat (d - s)"
  shows "memmove_up m d s n a = (if unat (a - d) < n then m (s + (a - d)) else m a)"
  using assms
proof (induction n arbitrary: m d s)
  case (Suc n)
  let ?m = "m(d := m s)"
  from Suc.prems have "d + 1 = s + 1 \<or> n \<le> unat (d + 1 - (s + 1))" by auto
  with Suc have IH: "memmove_up m d s (Suc n) a =
      (if unat (a - (d + 1)) < n then ?m (s + 1 + (a - (d + 1))) else ?m a)" by simp
  show ?case
  proof (cases "a = d")
    case True
    have "\<not> unat (d - (d + 1)) < n" using Suc.prems unat_minus_one_u64 by simp
    with True IH show ?thesis by simp
  next
    case False
    have "?m (s + 1 + (a - (d + 1))) = m (s + (a - d))" if lt: "unat (a - (d + 1)) < n"
    proof -
      have "s + (a - d) \<noteq> d" if "d \<noteq> s"
      proof
        assume "s + (a - d) = d"
        then have "a - d = d - s" by (simp add: algebra_simps)
        with unat_diff_Suc_u64 [OF False] lt have "unat (d - s) \<le> n" by simp
        with Suc.prems(2) that show False by simp
      qed
      moreover have "s + (a - d) \<noteq> d" if "d = s" using False that by simp
      ultimately show ?thesis by (auto simp: algebra_simps)
    qed
    with False IH unat_diff_Suc_u64 [OF False] show ?thesis by simp
  qed
qed simp

lemma memmove_down_apply:
  assumes "n < 2 ^ 64" and "d = s \<or> n \<le> unat (s - d)"
  shows "memmove_down m (d + of_nat n) (s + of_nat n) n a =
    (if unat (a - d) < n then m (s + (a - d)) else m a)"
  using assms
proof (induction n arbitrary: m)
  case (Suc n)
  let ?k = "of_nat n :: u64"
  let ?m = "m(d + ?k := m (s + ?k))"
  have k: "unat ?k = n" using Suc.prems(1) by (simp add: unat_of_nat_u64)
  have IH: "memmove_down m (d + of_nat (Suc n)) (s + of_nat (Suc n)) (Suc n) a =
      (if unat (a - d) < n then ?m (s + (a - d)) else ?m a)"
    using Suc by (auto simp: algebra_simps)
  show ?case
  proof (cases "a = d + ?k")
    case True
    with IH k show ?thesis by simp
  next
    case False
    have "unat (a - d) \<noteq> n" using False k by (metis add_diff_cancel_left' diff_add_cancel add.commute word_unat_eq_iff)
    moreover have "?m (s + (a - d)) = m (s + (a - d))" if lt: "unat (a - d) < n"
    proof -
      have "s + (a - d) \<noteq> d + ?k"
      proof
        assume eq: "s + (a - d) = d + ?k"
        show False
        proof (cases "d = s")
          case True
          with eq False show False by simp
        next
          case ne: False
          from eq have "s - d = ?k - (a - d)" by (simp add: algebra_simps)
          moreover have "unat (?k - (a - d)) \<le> n"
            using lt k unat_diff_u64 [of "a - d" ?k] by (simp add: word_le_nat_alt)
          ultimately have "unat (s - d) \<le> n" by argo
          with Suc.prems(2) ne show False by linarith
        qed
      qed
      then show ?thesis by simp
    qed
    ultimately show ?thesis using IH False by (auto simp: less_Suc_eq)
  qed
qed simp

text \<open>
  \<open>memmove\<close> copies \<open>n\<close> bytes as if through a temporary buffer, whichever way
  the two regions overlap, and touches nothing else.
\<close>

lemma memmove_apply:
  assumes s: "unat src + n \<le> 2 ^ 64" and d: "unat dst + n \<le> 2 ^ 64" and n: "n < 2 ^ 64"
  shows "memmove m dst src n a = (if unat (a - dst) < n then m (src + (a - dst)) else m a)"
proof (cases "src < dst \<and> src + of_nat n > dst")
  case True
  then have "n \<le> unat (src - dst)"
    using d unat_diff_wrap_u64 [of src dst] by (simp add: word_less_nat_alt)
  with True n show ?thesis by (simp add: memmove_def memmove_down_apply)
next
  case False
  have "dst = src \<or> n \<le> unat (dst - src)"
  proof (cases "src < dst")
    case lt: True
    then have ds: "unat (dst - src) = unat dst - unat src" by (simp add: unat_diff_u64)
    have "unat src + n < 2 ^ 64 \<Longrightarrow> unat (src + of_nat n) = unat src + n"
      using n by (simp add: unat_add_u64 unat_of_nat_u64)
    with False lt ds d n s show ?thesis
      by (cases "unat src + n = 2 ^ 64") (auto simp: word_less_nat_alt)
  next
    case ge: False
    show ?thesis
    proof (cases "dst = src")
      case False
      with ge have "dst < src" by simp
      with s unat_diff_wrap_u64 [of dst src] show ?thesis by linarith
    qed simp
  qed
  with False n show ?thesis by (auto simp: memmove_def memmove_up_apply)
qed

end
