(* ===== verification/Kstate.thy ===== *)
theory Kstate
  imports CString
begin

text \<open>
  The kernel's process and container tables (\<open>kernel/proc.h\<close>,
  \<open>kernel/param.h\<close>, \<open>kernel/spinlock.h\<close>), the part of the kernel state that
  nearly every other part reads or writes, and the spin locks as the code
  running on one CPU sees them.

  The state is a record that later theories extend with their own fields
  (physical memory, buffer cache, log, files), so that a function defined here
  runs unchanged on the larger states.  Pointers into a table are indices;
  a null pointer is \<^const>\<open>None\<close>.
\<close>

section \<open>Parameters\<close>

definition NPROC :: nat where "NPROC = 64"
definition NCONT :: nat where "NCONT = 8"
definition NOFILE :: nat where "NOFILE = 16"
definition ROOTCONT :: nat where "ROOTCONT = 0"
definition MAX_CDISK :: u64 where "MAX_CDISK = of_nat NPROC * 40 * 1024"
definition MAX_CMEM :: u64 where "MAX_CMEM = of_nat NPROC * 100 * 4096"
definition PGSIZE :: u64 where "PGSIZE = 4096"
definition BSIZE :: nat where "BSIZE = 1024"

section \<open>Processes\<close>

datatype procstate = UNUSED | SLEEPING | RUNNABLE | RUNNING | ZOMBIE | SUSPENDED

text \<open>Saved registers for a context switch: \<open>ra\<close>, \<open>sp\<close> and \<open>s0\<close> to \<open>s11\<close>.\<close>

record ctxt =
  ctx_ra :: u64
  ctx_sp :: u64
  ctx_s :: "u64 list"

record proc =
  p_state :: procstate
  p_parent :: "nat option"
  p_chan :: "chan option"
  p_killed :: int
  p_xstate :: int
  p_pid :: int
  p_local_pid :: int
  p_kstack :: u64
  p_sz :: u64
  p_pagetable :: u64
  p_tf :: u64
  p_context :: ctxt
  p_ofile :: "nat option list"
  p_cwd :: "nat option"
  p_name :: "u8 list"
  p_tracing :: int
  p_cont :: "nat option"
  p_ticks :: int

section \<open>Containers\<close>

datatype contstate = CUNUSED | CINITED | CRUNNABLE | CPAUSED | CSTOPPED

record container =
  c_state :: contstate
  c_nextlocalpid :: int
  c_cid :: int
  c_nextproctorun :: "nat option"
  c_used_proc :: int
  c_used_mem :: u64
  c_used_dsk :: u64
  c_name :: "u8 list"
  c_max_proc :: int
  c_max_sz :: u64
  c_max_dsk :: u64
  c_rootdir :: "nat option"
  c_vc_name :: "u8 list"
  c_isroot :: int
  c_ticks :: int

section \<open>The tables\<close>

text \<open>
  \<open>held\<close> lists the spin locks this CPU holds, most recent first, so its
  length is the CPU's \<open>noff\<close>; \<open>curproc\<close> is what \<open>myproc()\<close> returns.
\<close>

record ktab =
  held :: "lockid list"
  procs :: "proc list"
  conts :: "container list"
  nextpid :: int
  curproc :: "nat option"
  initproc :: "nat option"
  ticks :: u32

text \<open>The tables are static arrays, so they start out zeroed.\<close>

definition ctxt0 :: ctxt where
  "ctxt0 = \<lparr>ctx_ra = 0, ctx_sp = 0, ctx_s = replicate 12 0\<rparr>"

definition proc0 :: proc where
  "proc0 = \<lparr>p_state = UNUSED, p_parent = None, p_chan = None, p_killed = 0, p_xstate = 0,
     p_pid = 0, p_local_pid = 0, p_kstack = 0, p_sz = 0, p_pagetable = 0, p_tf = 0,
     p_context = ctxt0, p_ofile = replicate NOFILE None, p_cwd = None,
     p_name = replicate 16 0, p_tracing = 0, p_cont = None, p_ticks = 0\<rparr>"

definition cont0 :: container where
  "cont0 = \<lparr>c_state = CUNUSED, c_nextlocalpid = 0, c_cid = 0, c_nextproctorun = None,
     c_used_proc = 0, c_used_mem = 0, c_used_dsk = 0, c_name = replicate 16 0, c_max_proc = 0,
     c_max_sz = 0, c_max_dsk = 0, c_rootdir = None, c_vc_name = replicate 16 0, c_isroot = 0,
     c_ticks = 0\<rparr>"

definition upd_proc :: "nat \<Rightarrow> (proc \<Rightarrow> proc) \<Rightarrow> 'a ktab_scheme \<Rightarrow> 'a ktab_scheme" where
  "upd_proc i f s = s\<lparr>procs := (procs s)[i := f (procs s ! i)]\<rparr>"

definition upd_cont :: "nat \<Rightarrow> (container \<Rightarrow> container) \<Rightarrow> 'a ktab_scheme \<Rightarrow> 'a ktab_scheme" where
  "upd_cont i f s = s\<lparr>conts := (conts s)[i := f (conts s ! i)]\<rparr>"

text \<open>Both tables have their full length, and names their 16 bytes.\<close>

definition tables_ok :: "'a ktab_scheme \<Rightarrow> bool" where
  "tables_ok s \<longleftrightarrow> length (procs s) = NPROC \<and> length (conts s) = NCONT"

section \<open>Spin locks on one CPU\<close>

text \<open>
  \<open>acquire\<close> panics when this CPU holds the lock already, \<open>release\<close> when it
  does not hold it.  No other CPU contends; \<open>Spinlock\<close> models the lock word
  and the interleaving of CPUs.
\<close>

definition holding :: "lockid \<Rightarrow> 'a ktab_scheme \<Rightarrow> bool" where
  "holding l s \<longleftrightarrow> l \<in> set (held s)"

definition acquire :: "lockid \<Rightarrow> 'a ktab_scheme \<Rightarrow> 'a ktab_scheme kres" where
  "acquire l s = (if holding l s then Inl (Panic ''acquire'') else Inr (s\<lparr>held := l # held s\<rparr>))"

definition release :: "lockid \<Rightarrow> 'a ktab_scheme \<Rightarrow> 'a ktab_scheme kres" where
  "release l s =
     (if \<not> holding l s then Inl (Panic ''release'') else Inr (s\<lparr>held := remove1 l (held s)\<rparr>))"

lemma acquire_free [simp]: "l \<notin> set (held s) \<Longrightarrow> acquire l s = Inr (s\<lparr>held := l # held s\<rparr>)"
  by (simp add: acquire_def holding_def)

lemma acquire_held [simp]: "l \<in> set (held s) \<Longrightarrow> acquire l s = Inl (Panic ''acquire'')"
  by (simp add: acquire_def holding_def)

lemma release_held [simp]: "l \<in> set (held s) \<Longrightarrow> release l s = Inr (s\<lparr>held := remove1 l (held s)\<rparr>)"
  by (simp add: release_def holding_def)

lemma upd_proc_simps [simp]:
  "held (upd_proc i f s) = held s" "conts (upd_proc i f s) = conts s"
  "procs (upd_proc i f s) = (procs s)[i := f (procs s ! i)]"
  "nextpid (upd_proc i f s) = nextpid s" "curproc (upd_proc i f s) = curproc s"
  "initproc (upd_proc i f s) = initproc s" "ticks (upd_proc i f s) = ticks s"
  "ktab.more (upd_proc i f s) = ktab.more s"
  by (simp_all add: upd_proc_def)

lemma upd_cont_simps [simp]:
  "held (upd_cont i f s) = held s" "procs (upd_cont i f s) = procs s"
  "conts (upd_cont i f s) = (conts s)[i := f (conts s ! i)]"
  "nextpid (upd_cont i f s) = nextpid s" "curproc (upd_cont i f s) = curproc s"
  "initproc (upd_cont i f s) = initproc s" "ticks (upd_cont i f s) = ticks s"
  "ktab.more (upd_cont i f s) = ktab.more s"
  by (simp_all add: upd_cont_def)

section \<open>Loops over the process table\<close>

text \<open>
  A loop that takes each slot's lock, updates the slot by a function of the
  slot alone and drops the lock, is a map over the table, provided no process
  lock is held on entry.
\<close>

definition no_proc_lock :: "'a ktab_scheme \<Rightarrow> bool" where
  "no_proc_lock s \<longleftrightarrow> (\<forall>i. LProc i \<notin> set (held s))"

lemma no_proc_lockD [simp]: "no_proc_lock s \<Longrightarrow> LProc i \<notin> set (held s)"
  by (simp add: no_proc_lock_def)

lemma foreach_procs_prefix:
  assumes body: "\<And>i t. i < n \<Longrightarrow> held t = held s \<Longrightarrow> length (procs t) = length (procs s) \<Longrightarrow>
      conts t = conts s \<Longrightarrow> curproc t = curproc s \<Longrightarrow> initproc t = initproc s \<Longrightarrow>
      procs s ! i = procs t ! i \<Longrightarrow>
      body i t = Inr (None, t\<lparr>procs := (procs t)[i := f (procs t ! i)]\<rparr>)"
    and n: "n \<le> length (procs s)"
  shows "foreach [0..<n] body s =
     Inr (None, s\<lparr>procs := map f (take n (procs s)) @ drop n (procs s)\<rparr>)"
  using assms
proof (induction n)
  case 0
  then show ?case by simp
next
  case (Suc n)
  let ?t = "s\<lparr>procs := map f (take n (procs s)) @ drop n (procs s)\<rparr>"
  have IH: "foreach [0..<n] body s = Inr (None, ?t)"
    using Suc.IH Suc.prems by simp
  have nth: "procs ?t ! n = procs s ! n" using Suc.prems(2) by (simp add: nth_append)
  then have b: "body n ?t = Inr (None, ?t\<lparr>procs := (procs ?t)[n := f (procs ?t ! n)]\<rparr>)"
    using Suc.prems(2) by (intro Suc.prems(1)) simp_all
  have "(procs ?t)[n := f (procs s ! n)] = map f (take (Suc n) (procs s)) @ drop (Suc n) (procs s)"
    using Suc.prems(2) nth_map_upd [of n "procs s" f] by simp
  with b nth have "body n ?t = Inr (None, s\<lparr>procs := map f (take (Suc n) (procs s)) @ drop (Suc n) (procs s)\<rparr>)"
    by simp
  with IH show ?case by (simp add: foreach_append)
qed

lemma foreach_procs_map:
  assumes "\<And>i t. i < NPROC \<Longrightarrow> held t = held s \<Longrightarrow> length (procs t) = NPROC \<Longrightarrow>
      conts t = conts s \<Longrightarrow> curproc t = curproc s \<Longrightarrow> initproc t = initproc s \<Longrightarrow>
      procs s ! i = procs t ! i \<Longrightarrow>
      body i t = Inr (None, t\<lparr>procs := (procs t)[i := f (procs t ! i)]\<rparr>)"
    and "length (procs s) = NPROC"
  shows "foreach [0..<NPROC] body s = Inr (None, s\<lparr>procs := map f (procs s)\<rparr>)"
  using foreach_procs_prefix [of NPROC s body f] assms by simp

text \<open>A search that changes nothing on the slots it passes over stops at the first match.\<close>

lemma foreach_skip:
  assumes "\<And>i. i \<in> set is \<Longrightarrow> body i s = Inr (None, s)"
  shows "foreach is body s = Inr (None, s)"
  using assms by (induction "is") auto

lemma foreach_find:
  assumes "\<And>i. i < n \<Longrightarrow> \<not> P i \<Longrightarrow> body i s = Inr (None, s)"
    and "\<And>i. i < n \<Longrightarrow> P i \<Longrightarrow> body i s = Inr (Some (r i), t i)"
  shows "foreach [0..<n] body s =
    (case List.find P [0..<n] of None \<Rightarrow> Inr (None, s) | Some i \<Rightarrow> Inr (Some (r i), t i))"
proof -
  have "foreach is body s =
    (case List.find P is of None \<Rightarrow> Inr (None, s) | Some i \<Rightarrow> Inr (Some (r i), t i))"
    if "set is \<subseteq> {0..<n}" for "is"
    using that assms by (induction "is") auto
  then show ?thesis by simp
qed

text \<open>The same when a match may also end the loop with an error.\<close>

lemma foreach_search:
  assumes "\<And>i. i < n \<Longrightarrow> \<not> P i \<Longrightarrow> body i s = Inr (None, s)"
    and "\<And>i. i < n \<Longrightarrow> P i \<Longrightarrow> body i s = map_sum id (map_prod Some id) (R i)"
  shows "foreach [0..<n] body s =
    (case List.find P [0..<n] of None \<Rightarrow> Inr (None, s) | Some i \<Rightarrow> map_sum id (map_prod Some id) (R i))"
proof -
  have "foreach is body s =
    (case List.find P is of None \<Rightarrow> Inr (None, s) | Some i \<Rightarrow> map_sum id (map_prod Some id) (R i))"
    if "set is \<subseteq> {0..<n}" for "is"
    using that
  proof (induction "is")
    case (Cons i "is")
    then show ?case
      using assms [of i] by (cases "R i") (auto split: prod.split)
  qed simp
  then show ?thesis by simp
qed

end
