(* ===== verification/Spinlock.thy ===== *)
theory Spinlock
  imports Kstate
begin

text \<open>
  Spin locks on several CPUs (\<open>kernel/spinlock.c\<close>).

  The lock word, the recorded owner and the per-CPU interrupt bookkeeping are
  explicit, and \<open>acquire\<close> and \<open>release\<close> are cut into the steps that other
  CPUs can observe: each read of \<open>locked\<close> or \<open>cpu\<close>, the atomic swap, each
  store.  Memory is sequentially consistent: the fences of the source order
  the accesses as written.  A ghost list per CPU records the locks it has won
  and not given back; it is what \<open>Kstate\<close> calls \<open>held\<close>.
\<close>

section \<open>Interrupt bookkeeping of one CPU\<close>

record hart =
  noff :: int
  intena :: bool
  sie :: bool

definition push_off :: "'a hart_scheme \<Rightarrow> 'a hart_scheme" where
  "push_off h =
     (let old = sie h;
          h = h\<lparr>sie := False\<rparr>;
          h = (if noff h = 0 then h\<lparr>intena := old\<rparr> else h)
      in h\<lparr>noff := noff h + 1\<rparr>)"

definition pop_off :: "'a hart_scheme \<Rightarrow> 'a hart_scheme kres" where
  "pop_off h =
     (if sie h then Inl (Panic ''pop_off - interruptible'')
      else let h = h\<lparr>noff := noff h - 1\<rparr> in
        if noff h < 0 then Inl (Panic ''pop_off'')
        else Inr (if noff h = 0 \<and> intena h then h\<lparr>sie := True\<rparr> else h))"

section \<open>Locks and CPUs\<close>

record spinlock =
  locked :: u32
  lk_cpu :: "nat option"

definition initlock :: "spinlock \<Rightarrow> spinlock" where
  "initlock lk = lk\<lparr>locked := 0, lk_cpu := None\<rparr>"

text \<open>
  Where a CPU is: outside the lock code; in \<open>acquire\<close> before \<open>holding\<close> reads
  the word, before it reads the owner, in the swap loop, before the owner is
  recorded; in \<open>release\<close> at the same two reads, before the owner is cleared,
  before the word is cleared, before \<open>pop_off\<close>; or stopped by a panic.
\<close>

datatype lockpc =
    Run | AChk lockid | AChkCpu lockid | ASpin lockid | AGot lockid
  | RChk lockid | RChkCpu lockid | RClr lockid | RUnl lockid | RPop lockid
  | Stopped string

record cpu = hart +
  pc :: lockpc
  own :: "lockid list"

record system =
  lks :: "lockid \<Rightarrow> spinlock"
  cpus :: "nat \<Rightarrow> cpu"

definition upd_cpu :: "nat \<Rightarrow> (cpu \<Rightarrow> cpu) \<Rightarrow> system \<Rightarrow> system" where
  "upd_cpu c f s = s\<lparr>cpus := (cpus s)(c := f (cpus s c))\<rparr>"

definition upd_lk :: "lockid \<Rightarrow> (spinlock \<Rightarrow> spinlock) \<Rightarrow> system \<Rightarrow> system" where
  "upd_lk l f s = s\<lparr>lks := (lks s)(l := f (lks s l))\<rparr>"

definition goto :: "nat \<Rightarrow> lockpc \<Rightarrow> system \<Rightarrow> system" where
  "goto c p = upd_cpu c (\<lambda>h. h\<lparr>pc := p\<rparr>)"

text \<open>\<open>pop_off\<close> and then go on at \<open>p\<close>, or stop if it panics.\<close>

definition pop_goto :: "nat \<Rightarrow> lockpc \<Rightarrow> system \<Rightarrow> system" where
  "pop_goto c p s = (case pop_off (cpus s c) of
       Inl e \<Rightarrow> goto c (Stopped (case e of Panic m \<Rightarrow> m | _ \<Rightarrow> '''')) s
     | Inr h \<Rightarrow> goto c p (upd_cpu c (\<lambda>_. h) s))"

text \<open>
  One step of CPU \<open>c\<close>.  \<open>holding\<close> brackets its two reads with \<open>push_off\<close>
  and \<open>pop_off\<close>; reading an unlocked word ends it at once.  Outside locks
  (\<open>noff = 0\<close>) the kernel and the hardware may turn interrupts on and off.
\<close>

inductive cpu_step :: "nat \<Rightarrow> system \<Rightarrow> system \<Rightarrow> bool" for c where
  acquire_call: "pc (cpus s c) = Run \<Longrightarrow>
    cpu_step c s (goto c (AChk l) (upd_cpu c push_off s))"
| acquire_unlocked: "pc (cpus s c) = AChk l \<Longrightarrow> locked (lks s l) = 0 \<Longrightarrow>
    cpu_step c s (pop_goto c (ASpin l) (upd_cpu c push_off s))"
| acquire_locked: "pc (cpus s c) = AChk l \<Longrightarrow> locked (lks s l) \<noteq> 0 \<Longrightarrow>
    cpu_step c s (goto c (AChkCpu l) (upd_cpu c push_off s))"
| acquire_held: "pc (cpus s c) = AChkCpu l \<Longrightarrow> lk_cpu (lks s l) = Some c \<Longrightarrow>
    cpu_step c s (pop_goto c (Stopped ''acquire'') s)"
| acquire_not_held: "pc (cpus s c) = AChkCpu l \<Longrightarrow> lk_cpu (lks s l) \<noteq> Some c \<Longrightarrow>
    cpu_step c s (pop_goto c (ASpin l) s)"
| swap_busy: "pc (cpus s c) = ASpin l \<Longrightarrow> locked (lks s l) \<noteq> 0 \<Longrightarrow>
    cpu_step c s (upd_lk l (\<lambda>k. k\<lparr>locked := 1\<rparr>) s)"
| swap_won: "pc (cpus s c) = ASpin l \<Longrightarrow> locked (lks s l) = 0 \<Longrightarrow>
    cpu_step c s (goto c (AGot l) (upd_cpu c (\<lambda>h. h\<lparr>own := l # own h\<rparr>)
      (upd_lk l (\<lambda>k. k\<lparr>locked := 1\<rparr>) s)))"
| record_cpu: "pc (cpus s c) = AGot l \<Longrightarrow>
    cpu_step c s (goto c Run (upd_lk l (\<lambda>k. k\<lparr>lk_cpu := Some c\<rparr>) s))"
| release_call: "pc (cpus s c) = Run \<Longrightarrow> cpu_step c s (goto c (RChk l) s)"
| release_unlocked: "pc (cpus s c) = RChk l \<Longrightarrow> locked (lks s l) = 0 \<Longrightarrow>
    cpu_step c s (pop_goto c (Stopped ''release'') (upd_cpu c push_off s))"
| release_locked: "pc (cpus s c) = RChk l \<Longrightarrow> locked (lks s l) \<noteq> 0 \<Longrightarrow>
    cpu_step c s (goto c (RChkCpu l) (upd_cpu c push_off s))"
| release_not_held: "pc (cpus s c) = RChkCpu l \<Longrightarrow> lk_cpu (lks s l) \<noteq> Some c \<Longrightarrow>
    cpu_step c s (pop_goto c (Stopped ''release'') s)"
| release_held: "pc (cpus s c) = RChkCpu l \<Longrightarrow> lk_cpu (lks s l) = Some c \<Longrightarrow>
    cpu_step c s (pop_goto c (RClr l) s)"
| clear_cpu: "pc (cpus s c) = RClr l \<Longrightarrow>
    cpu_step c s (goto c (RUnl l) (upd_lk l (\<lambda>k. k\<lparr>lk_cpu := None\<rparr>) s))"
| unlock: "pc (cpus s c) = RUnl l \<Longrightarrow>
    cpu_step c s (goto c (RPop l) (upd_cpu c (\<lambda>h. h\<lparr>own := remove1 l (own h)\<rparr>)
      (upd_lk l (\<lambda>k. k\<lparr>locked := 0\<rparr>) s)))"
| release_return: "pc (cpus s c) = RPop l \<Longrightarrow> cpu_step c s (pop_goto c Run s)"
| interrupts: "pc (cpus s c) = Run \<Longrightarrow> noff (cpus s c) = 0 \<Longrightarrow>
    cpu_step c s (upd_cpu c (\<lambda>h. h\<lparr>sie := b\<rparr>) s)"

inductive_cases cpu_step_E: "cpu_step c s t"

definition sys_step :: "system \<Rightarrow> system \<Rightarrow> bool" where
  "sys_step s t \<longleftrightarrow> (\<exists>c. cpu_step c s t)"

text \<open>All locks initialised, all CPUs outside lock code with \<open>noff = 0\<close>.\<close>

definition init_sys :: "system \<Rightarrow> bool" where
  "init_sys s \<longleftrightarrow> (\<forall>l. lks s l = initlock (lks s l)) \<and>
     (\<forall>c. pc (cpus s c) = Run \<and> noff (cpus s c) = 0 \<and> own (cpus s c) = [])"

definition reachable :: "system \<Rightarrow> bool" where
  "reachable s \<longleftrightarrow> (\<exists>s0. init_sys s0 \<and> sys_step\<^sup>*\<^sup>* s0 s)"

section \<open>The invariant\<close>

text \<open>\<open>push_off\<close>s in force beyond one per lock held.\<close>

fun pending :: "lockpc \<Rightarrow> int" where
  "pending (AChk l) = 1"
| "pending (AChkCpu l) = 2"
| "pending (ASpin l) = 1"
| "pending (RChkCpu l) = 1"
| "pending (RPop l) = 1"
| "pending p = 0"

text \<open>A CPU stopped by a panic has not undone the \<open>push_off\<close> of its \<open>acquire\<close>.\<close>

definition noff_ok :: "cpu \<Rightarrow> bool" where
  "noff_ok h \<longleftrightarrow> (case pc h of
       Stopped m \<Rightarrow> m = ''acquire'' \<and> noff h = int (length (own h)) + 1
         \<or> m = ''release'' \<and> noff h = int (length (own h))
     | p \<Rightarrow> noff h = int (length (own h)) + pending p) \<and>
     (noff h > 0 \<longrightarrow> \<not> sie h)"

text \<open>What the position of a CPU says about the lock it is working on.\<close>

fun pc_ok :: "nat \<Rightarrow> system \<Rightarrow> lockpc \<Rightarrow> bool" where
  "pc_ok c s (ASpin l) \<longleftrightarrow> l \<notin> set (own (cpus s c))"
| "pc_ok c s (AGot l) \<longleftrightarrow> l \<in> set (own (cpus s c)) \<and> lk_cpu (lks s l) = None"
| "pc_ok c s (RClr l) \<longleftrightarrow> l \<in> set (own (cpus s c)) \<and> lk_cpu (lks s l) = Some c"
| "pc_ok c s (RUnl l) \<longleftrightarrow> l \<in> set (own (cpus s c)) \<and> lk_cpu (lks s l) = None"
| "pc_ok c s p \<longleftrightarrow> True"

definition own_ok :: "system \<Rightarrow> bool" where
  "own_ok s \<longleftrightarrow>
     (\<forall>l c. l \<in> set (own (cpus s c)) \<longrightarrow> locked (lks s l) \<noteq> 0) \<and>
     (\<forall>l c d. l \<in> set (own (cpus s c)) \<longrightarrow> l \<in> set (own (cpus s d)) \<longrightarrow> c = d) \<and>
     (\<forall>c. distinct (own (cpus s c))) \<and>
     (\<forall>l c. lk_cpu (lks s l) = Some c \<longrightarrow> l \<in> set (own (cpus s c))) \<and>
     (\<forall>l c. l \<in> set (own (cpus s c)) \<longrightarrow>
        lk_cpu (lks s l) = Some c \<or> pc (cpus s c) = AGot l \<or> pc (cpus s c) = RUnl l) \<and>
     (\<forall>l. locked (lks s l) \<noteq> 0 \<longrightarrow> (\<exists>c. l \<in> set (own (cpus s c))))"

definition lock_inv :: "system \<Rightarrow> bool" where
  "lock_inv s \<longleftrightarrow> own_ok s \<and> (\<forall>c. noff_ok (cpus s c)) \<and> (\<forall>c. pc_ok c s (pc (cpus s c)))"

section \<open>Facts\<close>

lemma upd_simps [simp]:
  "lks (upd_cpu c f s) = lks s" "cpus (upd_lk l g s) = cpus s"
  "lks (goto c p s) = lks s"
  "cpus (upd_cpu c f s) d = (if d = c then f (cpus s c) else cpus s d)"
  "cpus (goto c p s) d = (if d = c then (cpus s c)\<lparr>pc := p\<rparr> else cpus s d)"
  "lks (upd_lk l g s) k = (if k = l then g (lks s l) else lks s k)"
  by (simp_all add: upd_cpu_def upd_lk_def goto_def)

lemma push_off_simps [simp]:
  "noff (push_off h) = noff h + 1" "sie (push_off h) = False"
  "intena (push_off h) = (if noff h = 0 then sie h else intena h)"
  "hart.more (push_off h) = hart.more h"
  by (simp_all add: push_off_def Let_def)

lemma push_off_cpu [simp]: "pc (push_off h) = pc h" "own (push_off h) = own h"
  by (simp_all add: push_off_def Let_def)

text \<open>\<open>push_off\<close> and \<open>pop_off\<close> are matched: nested pairs restore the CPU.\<close>

lemma pop_off_eq:
  "noff h > 0 \<Longrightarrow> \<not> sie h \<Longrightarrow>
    pop_off h = Inr (h\<lparr>noff := noff h - 1, sie := noff h = 1 \<and> intena h\<rparr>)"
  by (cases h) (auto simp: pop_off_def Let_def)

lemma pop_goto_eq:
  "noff (cpus s c) > 0 \<Longrightarrow> \<not> sie (cpus s c) \<Longrightarrow> pop_goto c p s =
    goto c p (upd_cpu c (\<lambda>h. h\<lparr>noff := noff h - 1, sie := noff h = 1 \<and> intena h\<rparr>) s)"
  by (simp add: pop_goto_def pop_off_eq upd_cpu_def)

lemma pop_goto_lks [simp]: "lks (pop_goto c p s) = lks s"
  by (simp add: pop_goto_def split: sum.split)

lemma pop_goto_other [simp]: "d \<noteq> c \<Longrightarrow> cpus (pop_goto c p s) d = cpus s d"
  by (simp add: pop_goto_def split: sum.split)

lemma step_other: "cpu_step c s t \<Longrightarrow> d \<noteq> c \<Longrightarrow> cpus t d = cpus s d"
  by (erule cpu_step.cases) simp_all

lemma noff_ok_step:
  "cpu_step c s t \<Longrightarrow> noff_ok (cpus s c) \<Longrightarrow> pc_ok c s (pc (cpus s c)) \<Longrightarrow> noff_ok (cpus t c)"
  by (erule cpu_step.cases)
     (auto simp: noff_ok_def pop_goto_eq length_remove1 of_nat_diff Suc_le_eq dest: length_pos_if_in_set)

lemma own_okD:
  assumes "own_ok s"
  shows "l \<in> set (own (cpus s c)) \<Longrightarrow> locked (lks s l) \<noteq> 0"
    and "l \<in> set (own (cpus s c)) \<Longrightarrow> l \<in> set (own (cpus s d)) \<Longrightarrow> c = d"
    and "distinct (own (cpus s c))"
    and "lk_cpu (lks s l) = Some c \<Longrightarrow> l \<in> set (own (cpus s c))"
    and "l \<in> set (own (cpus s c)) \<Longrightarrow> pc (cpus s c) \<noteq> AGot l \<Longrightarrow> pc (cpus s c) \<noteq> RUnl l \<Longrightarrow>
      lk_cpu (lks s l) = Some c"
    and "locked (lks s l) \<noteq> 0 \<Longrightarrow> \<exists>c. l \<in> set (own (cpus s c))"
  using assms unfolding own_ok_def by blast+

text \<open>The steps that leave locks and ownership alone.\<close>

lemma own_ok_local:
  assumes ok: "own_ok s" and "lks t = lks s"
    and "\<And>d. own (cpus t d) = own (cpus s d)" and pcs: "\<And>d. d \<noteq> c \<Longrightarrow> pc (cpus t d) = pc (cpus s d)"
    and "\<And>l. pc (cpus s c) \<noteq> AGot l" "\<And>l. pc (cpus s c) \<noteq> RUnl l"
  shows "own_ok t"
proof -
  have "lk_cpu (lks s l) = Some d \<or> pc (cpus t d) = AGot l \<or> pc (cpus t d) = RUnl l"
    if "l \<in> set (own (cpus s d))" for l d
    using own_okD(5) [OF ok that] pcs [of d] assms(5,6) by (cases "d = c") auto
  then show ?thesis
    using ok unfolding own_ok_def assms(2,3) by blast
qed

lemma own_okI:
  assumes "\<And>l c. l \<in> set (own (cpus s c)) \<Longrightarrow> locked (lks s l) \<noteq> 0"
    and "\<And>l c d. l \<in> set (own (cpus s c)) \<Longrightarrow> l \<in> set (own (cpus s d)) \<Longrightarrow> c = d"
    and "\<And>c. distinct (own (cpus s c))"
    and "\<And>l c. lk_cpu (lks s l) = Some c \<Longrightarrow> l \<in> set (own (cpus s c))"
    and "\<And>l c. l \<in> set (own (cpus s c)) \<Longrightarrow> pc (cpus s c) \<noteq> AGot l \<Longrightarrow> pc (cpus s c) \<noteq> RUnl l \<Longrightarrow>
      lk_cpu (lks s l) = Some c"
    and "\<And>l. locked (lks s l) \<noteq> 0 \<Longrightarrow> \<exists>c. l \<in> set (own (cpus s c))"
  shows "own_ok s"
  unfolding own_ok_def by (intro conjI allI impI) (use assms in blast)+

lemma own_ok_step:
  assumes "cpu_step c s t" and ok: "own_ok s" and n: "noff_ok (cpus s c)" and p: "pc_ok c s (pc (cpus s c))"
  shows "own_ok t"
  using assms(1)
proof cases
  case (swap_won l)
  with own_okD(1) [OF ok, of l] have free: "\<And>d. l \<notin> set (own (cpus s d))" by blast
  with own_okD(4) [OF ok, of l] have cpu: "lk_cpu (lks s l) = None" by (cases "lk_cpu (lks s l)") auto
  have owned: "\<exists>d. k \<in> set (own (cpus t d))" if "locked (lks t k) \<noteq> 0" for k
    using that own_okD(6) [OF ok, of k] swap_won by (cases "k = l") (simp, metis list.set_intros(1), simp, metis)
  show ?thesis
    using swap_won free cpu owned
    by (intro own_okI) (auto split: if_split_asm simp: own_okD(3) [OF ok]
        dest: own_okD(1,4,5) [OF ok] own_okD(2) [OF ok])
next
  case (record_cpu l)
  with p have l: "l \<in> set (own (cpus s c))" by simp
  have owned: "\<exists>d. k \<in> set (own (cpus t d))" if "locked (lks t k) \<noteq> 0" for k
    using that own_okD(6) [OF ok, of k] record_cpu by (cases "k = l") (simp, metis, simp, metis)
  show ?thesis
    using record_cpu l owned
    by (intro own_okI) (auto split: if_split_asm simp: own_okD(3) [OF ok]
        dest: own_okD(1,4,5) [OF ok] own_okD(2) [OF ok])
next
  case (clear_cpu l)
  with p have l: "l \<in> set (own (cpus s c))" by simp
  have owned: "\<exists>d. k \<in> set (own (cpus t d))" if "locked (lks t k) \<noteq> 0" for k
    using that own_okD(6) [OF ok, of k] clear_cpu by (cases "k = l") (simp, metis, simp, metis)
  show ?thesis
    using clear_cpu l owned
    by (intro own_okI) (auto split: if_split_asm simp: own_okD(3) [OF ok]
        dest: own_okD(1,4,5) [OF ok] own_okD(2) [OF ok])
next
  case (unlock l)
  with p have l: "l \<in> set (own (cpus s c))" "lk_cpu (lks s l) = None" by simp_all
  have owned: "\<exists>d. k \<in> set (own (cpus t d))" if "locked (lks t k) \<noteq> 0" for k
    using that own_okD(6) [OF ok, of k] unlock by (cases "k = l") (simp, simp, metis in_set_remove1)
  show ?thesis 
    using unlock l owned
    by (intro own_okI) (auto split: if_split_asm simp: own_okD(3) [OF ok]
        dest: own_okD(1,4,5) [OF ok] own_okD(2) [OF ok])
next
  case (swap_busy l)
  then show ?thesis
    by (intro own_okI) (auto split: if_split_asm simp: own_okD(3,6) [OF ok]
        dest: own_okD(1,4,5) [OF ok] own_okD(2) [OF ok])
qed (rule own_ok_local [OF ok, where c = c]; use n in \<open>auto simp: pop_goto_eq noff_ok_def\<close>)+

lemma pc_ok_cong:
  "own (cpus t d) = own (cpus s d) \<Longrightarrow>
    (\<And>l. l \<in> set (own (cpus s d)) \<Longrightarrow> lk_cpu (lks t l) = lk_cpu (lks s l)) \<Longrightarrow>
    pc_ok d s p \<Longrightarrow> pc_ok d t p"
  by (cases p) auto

text \<open>The recorded owner of a lock changes only while its winner is at work on it.\<close>

lemma step_lk_cpu:
  assumes "cpu_step c s t" and "lk_cpu (lks t l) \<noteq> lk_cpu (lks s l)" and "pc_ok c s (pc (cpus s c))"
  shows "l \<in> set (own (cpus s c))"
  using assms by cases (auto split: if_split_asm)

lemma pc_ok_step_other:
  assumes "cpu_step c s t" and ok: "own_ok s" and "pc_ok c s (pc (cpus s c))"
    and "d \<noteq> c" and "pc_ok d s (pc (cpus s d))"
  shows "pc_ok d t (pc (cpus t d))"
proof -
  have "lk_cpu (lks t l) = lk_cpu (lks s l)" if "l \<in> set (own (cpus s d))" for l
    using step_lk_cpu [OF assms(1) _ assms(3)] own_okD(2) [OF ok that] assms(4) by blast
  with assms step_other [OF assms(1,4)] show ?thesis by (auto intro: pc_ok_cong)
qed

lemma pc_ok_step:
  assumes "cpu_step c s t" and ok: "own_ok s" and n: "noff_ok (cpus s c)" and p: "pc_ok c s (pc (cpus s c))"
  shows "pc_ok c t (pc (cpus t c))"
  using assms(1)
proof cases
  case (acquire_unlocked l)
  with own_okD(1) [OF ok, of l c] n show ?thesis by (auto simp: pop_goto_eq noff_ok_def)
next
  case (acquire_not_held l)
  with own_okD(5) [OF ok, of l c] n show ?thesis by (auto simp: pop_goto_eq noff_ok_def)
next
  case (swap_won l)
  with own_okD(1) [OF ok, of l] have "\<And>d. l \<notin> set (own (cpus s d))" by blast
  with own_okD(4) [OF ok, of l] have "lk_cpu (lks s l) = None" by (cases "lk_cpu (lks s l)") auto
  with swap_won show ?thesis by simp
next
  case (release_held l)
  with own_okD(4) [OF ok] n show ?thesis by (auto simp: pop_goto_eq noff_ok_def)
qed (use n p in \<open>auto simp: pop_goto_eq noff_ok_def\<close>)

lemma lock_inv_step: "cpu_step c s t \<Longrightarrow> lock_inv s \<Longrightarrow> lock_inv t"
  unfolding lock_inv_def
  using own_ok_step [of c s t] noff_ok_step [of c s t] pc_ok_step [of c s t]
    pc_ok_step_other [of c s t] step_other [of c s t] by metis

lemma lock_inv_init: "init_sys s \<Longrightarrow> lock_inv s"
proof -
  assume i: "init_sys s"
  then have "lks s l = initlock (lks s l)" for l by (simp add: init_sys_def)
  then have "locked (lks s l) = 0" "lk_cpu (lks s l) = None" for l
    by (metis initlock_def spinlock.select_convs(1,2) spinlock.surjective spinlock.update_convs(1,2))+
  with i show ?thesis
    by (auto simp: lock_inv_def init_sys_def own_ok_def noff_ok_def)
qed

lemma lock_inv_reachable: "reachable s \<Longrightarrow> lock_inv s"
proof -
  have "sys_step\<^sup>*\<^sup>* s0 s \<Longrightarrow> lock_inv s0 \<Longrightarrow> lock_inv s" for s0
    by (induction rule: rtranclp_induct) (auto simp: sys_step_def dest: lock_inv_step)
  then show "reachable s \<Longrightarrow> lock_inv s"
    by (auto simp: reachable_def dest: lock_inv_init)
qed

section \<open>Runs of one CPU\<close>

text \<open>With the lock free, a CPU alone takes it in six steps.\<close>

definition acquired :: "nat \<Rightarrow> lockid \<Rightarrow> system \<Rightarrow> system" where
  "acquired c l s = upd_cpu c (\<lambda>h. push_off h\<lparr>own := l # own h\<rparr>)
     (upd_lk l (\<lambda>k. k\<lparr>locked := 1, lk_cpu := Some c\<rparr>) s)"


lemma path_snoc: "cpu_step c t u \<Longrightarrow> (cpu_step c)\<^sup>*\<^sup>* s t \<Longrightarrow> (cpu_step c)\<^sup>*\<^sup>* s u"
  by (rule rtranclp.rtrancl_into_rtrancl)

lemma acquire_path:
  assumes "noff_ok (cpus s c)" and "pc (cpus s c) = Run" and "locked (lks s l) = 0"
  shows "(cpu_step c)\<^sup>*\<^sup>* s (acquired c l s)"
proof -
  let ?s1 = "goto c (AChk l) (upd_cpu c push_off s)"
  let ?s2 = "pop_goto c (ASpin l) (upd_cpu c push_off ?s1)"
  let ?s3 = "goto c (AGot l) (upd_cpu c (\<lambda>h. h\<lparr>own := l # own h\<rparr>)
      (upd_lk l (\<lambda>k. k\<lparr>locked := 1\<rparr>) ?s2))"
  let ?s4 = "goto c Run (upd_lk l (\<lambda>k. k\<lparr>lk_cpu := Some c\<rparr>) ?s3)"
  have n: "noff (cpus s c) \<ge> 0" using assms(1,2) by (simp add: noff_ok_def)
  have 1: "cpu_step c s ?s1" by (rule acquire_call [OF assms(2)])
  have 2: "cpu_step c ?s1 ?s2" by (rule acquire_unlocked) (simp_all add: assms)
  have 3: "cpu_step c ?s2 ?s3" by (rule swap_won) (use n in \<open>simp_all add: assms pop_goto_eq\<close>)
  have 4: "cpu_step c ?s3 ?s4" by (rule record_cpu) simp
  have "(cpu_step c)\<^sup>*\<^sup>* s ?s4"
    by (rule path_snoc [OF 4 path_snoc [OF 3 path_snoc [OF 2 path_snoc [OF 1 rtranclp.rtrancl_refl]]]])
  moreover have "?s4 = acquired c l s"
    using assms(2) n by (auto simp: acquired_def upd_cpu_def upd_lk_def goto_def pop_goto_eq push_off_def Let_def fun_eq_iff)
  ultimately show ?thesis by simp
qed


lemma reachable_path: "reachable s \<Longrightarrow> (cpu_step c)\<^sup>*\<^sup>* s t \<Longrightarrow> reachable t"
proof -
  assume r: "reachable s" and "(cpu_step c)\<^sup>*\<^sup>* s t"
  then have "sys_step\<^sup>*\<^sup>* s t"
    by (rule_tac rtranclp_mono [THEN predicate2D, of "cpu_step c"]) (auto simp: sys_step_def)
  with r show ?thesis by (auto simp: reachable_def)
qed


section \<open>An example system\<close>

definition ex_sys :: system where
  "ex_sys = \<lparr>lks = (\<lambda>_. \<lparr>locked = 0, lk_cpu = None\<rparr>),
     cpus = (\<lambda>_. \<lparr>noff = 0, intena = False, sie = True, pc = Run, own = []\<rparr>)\<rparr>"

lemma ex_sys_reachable: "reachable ex_sys"
  unfolding reachable_def by (rule exI [of _ ex_sys]) (simp add: ex_sys_def init_sys_def initlock_def)

text \<open>CPU 0 has taken the page allocator's lock.\<close>

lemma ex_acquired_reachable: "reachable (acquired 0 LKmem ex_sys)"
  by (rule reachable_path [OF ex_sys_reachable acquire_path])
     (simp_all add: ex_sys_def noff_ok_def)

section \<open>Properties\<close>

text \<open>
  C7: two CPUs never hold the same spin lock at once, whatever the
  interleaving; while a lock is held its word is set, and outside the lock
  code the recorded owner is the holder.
\<close>

theorem spinlock_mutual_exclusion:
  assumes "reachable s" and "l \<in> set (own (cpus s c))"
  shows "locked (lks s l) \<noteq> 0 \<and> (\<forall>d. l \<in> set (own (cpus s d)) \<longrightarrow> d = c) \<and>
    (pc (cpus s c) = Run \<longrightarrow> lk_cpu (lks s l) = Some c)"
proof -
  from assms(1) have ok: "own_ok s" using lock_inv_reachable by (auto simp: lock_inv_def)
  from own_okD(1,2,5) [OF ok assms(2)] show ?thesis by auto
qed

theorem spinlock_mutual_exclusion_witness:
  "LKmem \<notin> set (own (cpus (acquired 0 LKmem ex_sys) 1)) \<and>
    lk_cpu (lks (acquired 0 LKmem ex_sys) LKmem) = Some 0"
  using spinlock_mutual_exclusion [OF ex_acquired_reachable, of LKmem 0]
  by (auto simp: acquired_def ex_sys_def push_off_def)

text \<open>
  C22: a CPU's interrupts are off as long as it holds a spin lock or is inside
  the lock code with one pending, \<open>noff\<close> counts exactly the locks held when
  the CPU is outside the lock code, and the two panics of \<open>pop_off\<close> cannot
  happen.
\<close>

theorem spinlock_interrupts_off:
  assumes "reachable s"
  shows "(own (cpus s c) \<noteq> [] \<longrightarrow> \<not> sie (cpus s c)) \<and>
    (pc (cpus s c) = Run \<longrightarrow> noff (cpus s c) = int (length (own (cpus s c)))) \<and>
    pc (cpus s c) \<noteq> Stopped ''pop_off'' \<and> pc (cpus s c) \<noteq> Stopped ''pop_off - interruptible''"
proof -
  have n: "noff_ok (cpus s c)" using lock_inv_reachable [OF assms] by (simp add: lock_inv_def)
  moreover have "noff (cpus s c) > 0" if "own (cpus s c) \<noteq> []"
  proof -
    from that have "int (length (own (cpus s c))) > 0" by simp
    with n show ?thesis by (cases "pc (cpus s c)") (auto simp: noff_ok_def)
  qed
  ultimately show ?thesis by (auto simp: noff_ok_def)
qed

theorem spinlock_interrupts_off_witness: "\<not> sie (cpus (acquired 0 LKmem ex_sys) 0)"
  using spinlock_interrupts_off [OF ex_acquired_reachable, of 0]
  by (simp add: acquired_def ex_sys_def push_off_def)





end
