(* ===== verification/Ctab.thy ===== *)
theory Ctab
  imports Kstate
begin

text \<open>
  The container table (\<open>kernel/container.c\<close>) and the process-table scans it
  uses (\<open>kernel/proc.c\<close>): looking containers up, resource limits and
  accounting, starting, pausing, resuming and tearing down, usage reports.
  The operations that also need memory, files or path names (create, stop,
  fork into a container) are in \<open>Contops\<close>.

  Diagnostic \<open>printf\<close>s to the console are not part of the state; the reports
  of \<open>kcdf\<close> and \<open>kcfreemem\<close>, whose purpose is what they print, return the
  rows they print.
\<close>

section \<open>Lookup\<close>

definition alloccont :: "'a ktab_scheme \<Rightarrow> (nat option \<times> 'a ktab_scheme) kres" where
  "alloccont s =
     bindE (foreach [0..<NCONT] (\<lambda>c s.
         bindE (acquire (LCont c) s) (\<lambda>s.
         if c_state (conts s ! c) = CUNUSED then Inr (Some c, s)
         else bindE (release (LCont c) s) (\<lambda>s. Inr (None, s)))) s)
     (\<lambda>(r, s). case r of
         None \<Rightarrow> Inr (None, s)
       | Some c \<Rightarrow>
           let s = upd_cont c (\<lambda>x. x\<lparr>c_state := CRUNNABLE\<rparr>) s in
           bindE (release (LCont c) s) (\<lambda>s. Inr (Some c, s)))"

definition cid2cont :: "int \<Rightarrow> 'a ktab_scheme \<Rightarrow> nat option" where
  "cid2cont cid s =
     List.find (\<lambda>i. c_cid (conts s ! i) = cid \<and> c_state (conts s ! i) \<noteq> CUNUSED) [0..<NCONT]"

definition name2cont :: "u8 list \<Rightarrow> 'a ktab_scheme \<Rightarrow> nat option kres" where
  "name2cont name s =
     bindE (foreach [0..<NCONT] (\<lambda>i s.
         bindE (strlen name) (\<lambda>n.
         bindE (strncmp name (c_name (conts s ! i)) n) (\<lambda>r.
         Inr (if r = 0 then Some i else None, s)))) s)
     (\<lambda>(r, _). Inr r)"

definition name2cid :: "u8 list \<Rightarrow> 'a ktab_scheme \<Rightarrow> int kres" where
  "name2cid name s =
     bindE (foreach [0..<NCONT] (\<lambda>i s.
         bindE (strlen name) (\<lambda>n.
         bindE (strncmp name (c_name (conts s ! i)) n) (\<lambda>r.
         Inr (if r = 0 then Some (c_cid (conts s ! i)) else None, s)))) s)
     (\<lambda>(r, _). Inr (case r of None \<Rightarrow> - 1 | Some cid \<Rightarrow> cid))"

text \<open>\<open>myproc()->cont\<close>; both pointers are dereferenced by the callers.\<close>

definition mycont :: "'a ktab_scheme \<Rightarrow> nat kres" where
  "mycont s = (case curproc s of None \<Rightarrow> Inl Fault
     | Some p \<Rightarrow> (case p_cont (procs s ! p) of None \<Rightarrow> Inl Fault | Some c \<Rightarrow> Inr c))"

section \<open>Limits\<close>

text \<open>
  The new limit is an \<open>int\<close>: \<open>newmax*1024\<close> is computed in 32 bits, then
  converted to \<open>uint64\<close> with its sign, and the comparison \<open>... > 0\<close> is on the
  unsigned difference.
\<close>

definition setmaxdsk :: "u8 list \<Rightarrow> u32 \<Rightarrow> 'a ktab_scheme \<Rightarrow> (int \<times> 'a ktab_scheme) kres" where
  "setmaxdsk contname newmax s =
     bindE (name2cont contname s) (\<lambda>r. case r of
         None \<Rightarrow> Inr (- 1, s)
       | Some c \<Rightarrow>
           if c_isroot (conts s ! c) \<noteq> 0 then Inl (Exits 0)
           else if (scast (newmax * 1024) :: u64) - c_max_dsk (conts s ! c) > 0 then Inr (- 1, s)
           else Inr (1, upd_cont c (\<lambda>x. x\<lparr>c_max_dsk := scast (newmax * 1024)\<rparr>) s))"

definition setmaxmem :: "u8 list \<Rightarrow> u32 \<Rightarrow> 'a ktab_scheme \<Rightarrow> (int \<times> 'a ktab_scheme) kres" where
  "setmaxmem contname newmax s =
     bindE (name2cont contname s) (\<lambda>r. case r of
         None \<Rightarrow> Inr (- 1, s)
       | Some c \<Rightarrow>
           if c_isroot (conts s ! c) \<noteq> 0 then Inl (Exits 0)
           else if (scast (newmax * 1024) :: u64) - c_max_sz (conts s ! c) > 0 then Inr (- 1, s)
           else Inr (1, upd_cont c (\<lambda>x. x\<lparr>c_max_sz := scast (newmax * 1024)\<rparr>) s))"

definition setmaxproc :: "u8 list \<Rightarrow> int \<Rightarrow> 'a ktab_scheme \<Rightarrow> (int \<times> 'a ktab_scheme) kres" where
  "setmaxproc contname numproc s =
     bindE (name2cont contname s) (\<lambda>r. case r of
         None \<Rightarrow> Inr (- 1, s)
       | Some c \<Rightarrow>
           if c_isroot (conts s ! c) \<noteq> 0 then Inl (Exits 0)
           else if numproc > c_max_proc (conts s ! c) \<or> numproc < 2 then Inr (- 1, s)
           else Inr (1, upd_cont c (\<lambda>x. x\<lparr>c_max_proc := numproc\<rparr>) s))"

section \<open>Accounting\<close>

definition updatecontmem :: "u64 \<Rightarrow> nat option \<Rightarrow> 'a ktab_scheme \<Rightarrow> int \<times> 'a ktab_scheme" where
  "updatecontmem memchanged c s = (case c of None \<Rightarrow> (0, s) | Some i \<Rightarrow>
     let x = conts s ! i; new = c_used_mem x + memchanged in
     if c_state x = CUNUSED then (0, s)
     else if new > c_max_sz x \<and> c_isroot x = 0 then (- 1, s)
     else (1, upd_cont i (\<lambda>x. x\<lparr>c_used_mem := if sint (ucast new :: u32) < 0 then 0 else new\<rparr>) s))"

definition updatecontdsk :: "u64 \<Rightarrow> nat option \<Rightarrow> 'a ktab_scheme \<Rightarrow> int \<times> 'a ktab_scheme" where
  "updatecontdsk dskchanged c s = (case c of None \<Rightarrow> (0, s) | Some i \<Rightarrow>
     let x = conts s ! i; new = c_used_dsk x + dskchanged in
     if c_state x = CUNUSED then (0, s)
     else if new > c_max_dsk x \<and> c_isroot x = 0 then (- 1, s)
     else (1, upd_cont i (\<lambda>x. x\<lparr>c_used_dsk := if new < 0 then 0 else new\<rparr>) s))"

definition updatecontproc :: "int \<Rightarrow> nat option \<Rightarrow> 'a ktab_scheme \<Rightarrow> int \<times> 'a ktab_scheme" where
  "updatecontproc procchange c s = (case c of None \<Rightarrow> (0, s) | Some i \<Rightarrow>
     let x = conts s ! i; new = c_used_proc x + procchange in
     if c_state x = CUNUSED then (0, s)
     else if new > c_max_proc x then (- 1, s)
     else (1, upd_cont i (\<lambda>x. x\<lparr>c_used_proc := if new < 0 then 0 else new\<rparr>) s))"

section \<open>Ticks\<close>

fun reset_ticks :: "nat list \<Rightarrow> 'a ktab_scheme \<Rightarrow> 'a ktab_scheme" where
  "reset_ticks [] s = s"
| "reset_ticks (i # is) s = reset_ticks is (upd_cont i (\<lambda>x. x\<lparr>c_ticks := 0\<rparr>) s)"

definition resetticksforcontainers :: "'a ktab_scheme \<Rightarrow> 'a ktab_scheme" where
  "resetticksforcontainers s = reset_ticks [0..<NCONT] s"

fun pick_cont :: "container list \<Rightarrow> nat list \<Rightarrow> nat \<Rightarrow> int \<Rightarrow> nat" where
  "pick_cont cs [] c holder = c"
| "pick_cont cs (i # is) c holder =
     (if c_state (cs ! i) = CRUNNABLE \<and> c_ticks (cs ! i) < holder
      then pick_cont cs is i (c_ticks (cs ! i))
      else pick_cont cs is c holder)"

definition getnextconttosched :: "'a ktab_scheme \<Rightarrow> nat" where
  "getnextconttosched s = pick_cont (conts s) [1..<NCONT] 0 (c_ticks (conts s ! 0))"

section \<open>Process-table scans for a container\<close>

text \<open>Marking a process killed; a sleeping or suspended one becomes runnable.\<close>

definition kill_mark :: "proc \<Rightarrow> proc" where
  "kill_mark p =
     (let p = p\<lparr>p_killed := 1\<rparr> in
      if p_state p = SLEEPING \<or> p_state p = SUSPENDED then p\<lparr>p_state := RUNNABLE\<rparr> else p)"

definition stopprocforcontainer :: "nat \<Rightarrow> 'a ktab_scheme \<Rightarrow> 'a ktab_scheme kres" where
  "stopprocforcontainer c s =
     bindE (foreach [0..<NPROC] (\<lambda>p s.
         bindE (acquire (LProc p) s) (\<lambda>s.
         let s = (if p_cont (procs s ! p) = Some c then upd_proc p kill_mark s else s) in
         bindE (release (LProc p) s) (\<lambda>s. Inr (None :: unit option, s)))) s)
     (\<lambda>(_, s). Inr s)"

definition pauseprocforcontainer :: "nat \<Rightarrow> 'a ktab_scheme \<Rightarrow> 'a ktab_scheme kres" where
  "pauseprocforcontainer c s =
     bindE (foreach [0..<NPROC] (\<lambda>p s.
         bindE (acquire (LProc p) s) (\<lambda>s.
         let s = (if p_cont (procs s ! p) = Some c \<and>
                     (p_state (procs s ! p) = SLEEPING \<or> p_state (procs s ! p) = RUNNABLE)
                  then upd_proc p (\<lambda>x. x\<lparr>p_state := SUSPENDED\<rparr>) s else s) in
         bindE (release (LProc p) s) (\<lambda>s. Inr (None :: unit option, s)))) s)
     (\<lambda>(_, s). Inr s)"

definition resumeprocforcontainer :: "nat \<Rightarrow> 'a ktab_scheme \<Rightarrow> 'a ktab_scheme kres" where
  "resumeprocforcontainer c s =
     bindE (foreach [0..<NPROC] (\<lambda>p s.
         bindE (acquire (LProc p) s) (\<lambda>s.
         let s = (if p_cont (procs s ! p) = Some c \<and> p_state (procs s ! p) = SUSPENDED
                  then upd_proc p (\<lambda>x. x\<lparr>p_state := RUNNABLE\<rparr>) s else s) in
         bindE (release (LProc p) s) (\<lambda>s. Inr (None :: unit option, s)))) s)
     (\<lambda>(_, s). Inr s)"

definition totalusedproc :: "'a ktab_scheme \<Rightarrow> int kres" where
  "totalusedproc s =
     bindE (foreach [0..<NPROC] (\<lambda>p (n, s).
         bindE (acquire (LProc p) s) (\<lambda>s.
         let n = (if p_state (procs s ! p) \<noteq> UNUSED then n + 1 else n) in
         bindE (release (LProc p) s) (\<lambda>s. Inr (None :: unit option, n, s)))) (0, s))
     (\<lambda>(_, n, _). Inr n)"

definition totalusedmem :: "'a ktab_scheme \<Rightarrow> u64 kres" where
  "totalusedmem s =
     bindE (foreach [0..<NPROC] (\<lambda>p (n, s).
         bindE (acquire (LProc p) s) (\<lambda>s.
         let n = (if p_state (procs s ! p) \<noteq> UNUSED then n + p_sz (procs s ! p) else n) in
         bindE (release (LProc p) s) (\<lambda>s. Inr (None :: unit option, n, s)))) (0, s))
     (\<lambda>(_, n, _). Inr n)"

definition usedprocforcontainer :: "nat \<Rightarrow> 'a ktab_scheme \<Rightarrow> int kres" where
  "usedprocforcontainer c s =
     bindE (foreach [0..<NPROC] (\<lambda>p (n, s).
         if p_cont (procs s ! p) = Some c then
           bindE (acquire (LProc p) s) (\<lambda>s.
           let n = (if p_state (procs s ! p) \<noteq> UNUSED then n + 1 else n) in
           bindE (release (LProc p) s) (\<lambda>s. Inr (None :: unit option, n, s)))
         else Inr (None, n, s)) (0, s))
     (\<lambda>(_, n, _). Inr n)"

definition usedmemforcontainer :: "nat \<Rightarrow> 'a ktab_scheme \<Rightarrow> u64 kres" where
  "usedmemforcontainer c s =
     bindE (foreach [0..<NPROC] (\<lambda>p (n, s).
         if p_cont (procs s ! p) = Some c then
           bindE (acquire (LProc p) s) (\<lambda>s.
           let n = (if p_state (procs s ! p) \<noteq> UNUSED then n + p_sz (procs s ! p) else n) in
           bindE (release (LProc p) s) (\<lambda>s. Inr (None :: unit option, n, s)))
         else Inr (None, n, s)) (0, s))
     (\<lambda>(_, n, _). Inr n)"

section \<open>Tear-down and the limit handler\<close>

definition freecontainer :: "nat \<Rightarrow> 'a ktab_scheme \<Rightarrow> (int \<times> 'a ktab_scheme) kres" where
  "freecontainer c s =
     bindE (acquire (LCont c) s) (\<lambda>s.
     bindE (strncpy (c_name (conts s ! c)) (lit '''') 16) (\<lambda>nm.
     bindE (strncpy (c_vc_name (conts s ! c)) (lit '''') 16) (\<lambda>vc.
     let s = upd_cont c (\<lambda>x. x\<lparr>c_name := nm, c_vc_name := vc, c_max_dsk := 0, c_max_sz := 0,
               c_max_proc := 0, c_rootdir := None, c_nextlocalpid := 0, c_nextproctorun := None,
               c_used_dsk := 0, c_used_mem := 0, c_used_proc := 0, c_state := CUNUSED,
               c_ticks := 0\<rparr>) s in
     bindE (release (LCont c) s) (\<lambda>s. Inr (1, s)))))"

definition climitexceedhandler :: "nat \<Rightarrow> 'a ktab_scheme \<Rightarrow> 'a ktab_scheme kres" where
  "climitexceedhandler c s =
     (if c_isroot (conts s ! c) \<noteq> 0 then Inr s
      else if c_state (conts s ! c) = CUNUSED then Inr s
      else
        let s = upd_cont c (\<lambda>x. x\<lparr>c_state := CSTOPPED\<rparr>) s in
        bindE (stopprocforcontainer c s) (\<lambda>s.
        bindE (freecontainer c s) (\<lambda>(_, s). Inr s)))"

section \<open>Starting, pausing and resuming\<close>

definition ifvcavaliable :: "u8 list \<Rightarrow> 'a ktab_scheme \<Rightarrow> int kres" where
  "ifvcavaliable vcname s =
     bindE (foreach [0..<NCONT] (\<lambda>i s.
         bindE (strlen vcname) (\<lambda>n.
         bindE (strncmp vcname (c_vc_name (conts s ! i)) n) (\<lambda>r.
         Inr (if r = 0 \<and> c_state (conts s ! i) \<noteq> CUNUSED then Some (- 1) else None, s)))) s)
     (\<lambda>(r, _). Inr (case r of None \<Rightarrow> 1 | Some v \<Rightarrow> v))"

definition kcstart :: "u8 list \<Rightarrow> u8 list \<Rightarrow> u64 \<Rightarrow> 'a ktab_scheme \<Rightarrow> (int \<times> 'a ktab_scheme) kres" where
  "kcstart name vcname disksize s =
     bindE (ifvcavaliable vcname s) (\<lambda>av.
     if av < 0 then Inr (- 1, s) else
     bindE (name2cont name s) (\<lambda>r. case r of
         None \<Rightarrow> Inr (- 1, s)
       | Some c \<Rightarrow>
           if c_state (conts s ! c) \<noteq> CINITED then Inr (- 1, s) else
           let s = snd (updatecontdsk disksize (Some c) s);
               s = snd (updatecontmem (40 * 1024) (Some c) s);
               s = snd (updatecontmem (- (40 * 1024)) (cid2cont (int ROOTCONT) s) s) in
           bindE (acquire (LCont c) s) (\<lambda>s.
           bindE (strncpy (c_vc_name (conts s ! c)) vcname 16) (\<lambda>vc.
           let s = upd_cont c (\<lambda>x. x\<lparr>c_vc_name := vc, c_state := CRUNNABLE\<rparr>) s in
           bindE (release (LCont c) s) (\<lambda>s.
           Inr (1, resetticksforcontainers s))))))"

definition kcpause :: "u8 list \<Rightarrow> 'a ktab_scheme \<Rightarrow> (int \<times> 'a ktab_scheme) kres" where
  "kcpause name s =
     bindE (name2cont name s) (\<lambda>r. case r of
         None \<Rightarrow> Inr (- 1, s)
       | Some c \<Rightarrow>
           if c_isroot (conts s ! c) \<noteq> 0 then Inr (- 1, s)
           else if c_state (conts s ! c) \<noteq> CRUNNABLE \<and> c_state (conts s ! c) \<noteq> CPAUSED
           then Inr (- 1, s)
           else
             bindE (acquire (LCont c) s) (\<lambda>s.
             let s = upd_cont c (\<lambda>x. x\<lparr>c_state := CPAUSED\<rparr>) s in
             bindE (pauseprocforcontainer c s) (\<lambda>s.
             bindE (release (LCont c) s) (\<lambda>s. Inr (1, s)))))"

definition kcresume :: "u8 list \<Rightarrow> 'a ktab_scheme \<Rightarrow> (int \<times> 'a ktab_scheme) kres" where
  "kcresume name s =
     bindE (name2cont name s) (\<lambda>r. case r of
         None \<Rightarrow> Inr (- 1, s)
       | Some c \<Rightarrow>
           if c_isroot (conts s ! c) \<noteq> 0 then Inr (- 1, s)
           else if c_state (conts s ! c) \<noteq> CPAUSED then Inr (- 1, s)
           else
             bindE (acquire (LCont c) s) (\<lambda>s.
             let s = upd_cont c (\<lambda>x. x\<lparr>c_state := CRUNNABLE\<rparr>) s in
             bindE (resumeprocforcontainer c s) (\<lambda>s.
             bindE (release (LCont c) s) (\<lambda>s.
             Inr (1, resetticksforcontainers s)))))"

section \<open>Usage reports\<close>

text \<open>A printed row: container name, used, available.\<close>

definition kcdf :: "'a ktab_scheme \<Rightarrow> (int \<times> (u8 list \<times> u64 \<times> u64) list) kres" where
  "kcdf s =
     bindE (mycont s) (\<lambda>c.
     if c_isroot (conts s ! c) \<noteq> 0 then
       let rows = map (\<lambda>i. (c_name (conts s ! i), c_used_dsk (conts s ! i),
                            c_max_dsk (conts s ! i) - c_used_dsk (conts s ! i))) [1..<NCONT];
           totaldisk = fold (\<lambda>i t. c_used_dsk (conts s ! i) + t) [1..<NCONT] 0;
           root = conts s ! ROOTCONT in
       Inr (1, rows @ [(c_name root, c_used_dsk root,
                        c_max_dsk root - c_used_dsk root - totaldisk)])
     else Inr (0, [(c_name (conts s ! c), c_used_dsk (conts s ! c),
                    c_max_dsk (conts s ! c) - c_used_dsk (conts s ! c))]))"

fun kcfreemem_rows :: "nat \<Rightarrow> nat list \<Rightarrow> 'a ktab_scheme \<Rightarrow> (u8 list \<times> u64 \<times> u64) list kres" where
  "kcfreemem_rows c [] s = Inr []"
| "kcfreemem_rows c (i # is) s =
     bindE (usedmemforcontainer i s) (\<lambda>usedmem.
     bindE (kcfreemem_rows c is s) (\<lambda>rows.
     Inr ((c_name (conts s ! i), usedmem, c_max_sz (conts s ! c) - usedmem) # rows)))"

definition kcfreemem :: "'a ktab_scheme \<Rightarrow> (int \<times> (u8 list \<times> u64 \<times> u64) list) kres" where
  "kcfreemem s =
     bindE (mycont s) (\<lambda>c.
     if c_isroot (conts s ! c) \<noteq> 0 then
       bindE (kcfreemem_rows c [1..<NCONT] s) (\<lambda>rows.
       let totalmem = fold (\<lambda>i t. c_used_dsk (conts s ! i) + t) [1..<NCONT] 0;
           root = conts s ! ROOTCONT in
       Inr (1, rows @ [(c_name root, c_used_mem root,
                        c_max_dsk root - c_used_dsk root - totalmem)]))
     else
       bindE (usedmemforcontainer c s) (\<lambda>usedmem.
       Inr (0, [(c_name (conts s ! c), usedmem, c_max_sz (conts s ! c) - usedmem)])))"

section \<open>Facts: lookup by name\<close>

text \<open>The name fits the fixed-size name fields it is compared with.\<close>

definition names_fit :: "u8 list \<Rightarrow> 'a ktab_scheme \<Rightarrow> bool" where
  "names_fit name s \<longleftrightarrow> 0 \<in> set name \<and>
     (\<forall>c \<in> set (conts s). length (cstr name) \<le> length (c_name c) \<or> 0 \<in> set (c_name c))"

lemma strncmp_name:
  assumes "names_fit name s" and "c \<in> set (conts s)"
  shows "\<exists>r. strncmp name (c_name c) (length (cstr name)) = Inr r
    \<and> (r = 0 \<longleftrightarrow> prefix (cstr name) (cstr (c_name c)))"
proof -
  from assms obtain r where r: "strncmp name (c_name c) (length (cstr name)) = Inr r"
    using strncmp_Inr [of "length (cstr name)" name "c_name c"] by (auto simp: names_fit_def)
  moreover from assms have "strlen name = Inr (length (cstr name))"
    by (simp add: names_fit_def strlen_Inr)
  ultimately show ?thesis using strncmp_strlen_prefix by blast
qed

lemma name2cont_eq:
  assumes "names_fit name s" and len: "length (conts s) = NCONT"
  shows "name2cont name s = Inr (first_index (\<lambda>c. prefix (cstr name) (cstr (c_name c))) (conts s))"
proof -
  let ?P = "\<lambda>i. prefix (cstr name) (cstr (c_name (conts s ! i)))"
  let ?body = "\<lambda>i t. bindE (strlen name) (\<lambda>n.
         bindE (strncmp name (c_name (conts t ! i)) n) (\<lambda>r.
         Inr (if r = 0 then Some i else None, t)))"
  have sl: "strlen name = Inr (length (cstr name))"
    using assms by (simp add: names_fit_def strlen_Inr)
  have "?body i s = Inr (if ?P i then Some i else None, s)" if "i < NCONT" for i
    using strncmp_name [OF assms(1), of "conts s ! i"] that len sl by auto
  then have "foreach [0..<NCONT] ?body s =
      (case List.find ?P [0..<NCONT] of None \<Rightarrow> Inr (None, s) | Some i \<Rightarrow> Inr (Some i, s))"
    by (intro foreach_find) auto
  then show ?thesis
    by (simp add: name2cont_def first_index_def len split: option.splits)
qed

section \<open>Facts: the process-table scans\<close>

definition stop_marks :: "nat \<Rightarrow> proc \<Rightarrow> proc" where
  "stop_marks c p = (if p_cont p = Some c then kill_mark p else p)"

definition pause_marks :: "nat \<Rightarrow> proc \<Rightarrow> proc" where
  "pause_marks c p = (if p_cont p = Some c \<and> (p_state p = SLEEPING \<or> p_state p = RUNNABLE)
     then p\<lparr>p_state := SUSPENDED\<rparr> else p)"

definition resume_marks :: "nat \<Rightarrow> proc \<Rightarrow> proc" where
  "resume_marks c p = (if p_cont p = Some c \<and> p_state p = SUSPENDED
     then p\<lparr>p_state := RUNNABLE\<rparr> else p)"

lemma stopprocforcontainer_eq:
  assumes "length (procs s) = NPROC" and "no_proc_lock s"
  shows "stopprocforcontainer c s = Inr (s\<lparr>procs := map (stop_marks c) (procs s)\<rparr>)"
  unfolding stopprocforcontainer_def
  by (subst foreach_procs_map [where f = "stop_marks c"])
     (use assms in \<open>auto simp: Let_def no_proc_lock_def upd_proc_def stop_marks_def\<close>)

lemma pauseprocforcontainer_eq:
  assumes "length (procs s) = NPROC" and "no_proc_lock s"
  shows "pauseprocforcontainer c s = Inr (s\<lparr>procs := map (pause_marks c) (procs s)\<rparr>)"
  unfolding pauseprocforcontainer_def
  by (subst foreach_procs_map [where f = "pause_marks c"])
     (use assms in \<open>auto simp: Let_def no_proc_lock_def upd_proc_def pause_marks_def\<close>)

lemma resumeprocforcontainer_eq:
  assumes "length (procs s) = NPROC" and "no_proc_lock s"
  shows "resumeprocforcontainer c s = Inr (s\<lparr>procs := map (resume_marks c) (procs s)\<rparr>)"
  unfolding resumeprocforcontainer_def
  by (subst foreach_procs_map [where f = "resume_marks c"])
     (use assms in \<open>auto simp: Let_def no_proc_lock_def upd_proc_def resume_marks_def\<close>)

text \<open>With a process lock held the scan panics: \<open>acquire\<close> refuses to take it twice.\<close>

lemma stopprocforcontainer_deadlock:
  assumes "i < NPROC" and "LProc i \<in> set (held s)"
  shows "stopprocforcontainer c s = Inl (Panic ''acquire'')"
proof -
  define k where "k = (LEAST k. LProc k \<in> set (held s))"
  have k: "LProc k \<in> set (held s)" "k \<le> i" "\<And>j. j < k \<Longrightarrow> LProc j \<notin> set (held s)"
    using assms(2) by (auto simp: k_def intro: LeastI Least_le dest: not_less_Least)
  let ?body = "\<lambda>p s. bindE (acquire (LProc p) s) (\<lambda>s.
         let s = (if p_cont (procs s ! p) = Some c then upd_proc p kill_mark s else s) in
         bindE (release (LProc p) s) (\<lambda>s. Inr (None :: unit option, s)))"
  have "foreach [0..<NPROC] ?body s = Inl (Panic ''acquire'')"
    by (rule foreach_stops [where i = k and I = "\<lambda>t. held t = held s"])
       (use k assms in \<open>auto simp: Let_def\<close>)
  then show ?thesis by (simp add: stopprocforcontainer_def)
qed

section \<open>Facts: tear-down\<close>

text \<open>The name fields keep their 16 bytes.\<close>

definition names_sized :: "'a ktab_scheme \<Rightarrow> bool" where
  "names_sized s \<longleftrightarrow> (\<forall>c \<in> set (conts s). length (c_name c) = 16 \<and> length (c_vc_name c) = 16)"

text \<open>What is left of a container slot after \<open>freecontainer\<close>.\<close>

definition cleared :: "container \<Rightarrow> container" where
  "cleared x = x\<lparr>c_name := replicate 16 0, c_vc_name := replicate 16 0, c_max_dsk := 0,
     c_max_sz := 0, c_max_proc := 0, c_rootdir := None, c_nextlocalpid := 0,
     c_nextproctorun := None, c_used_dsk := 0, c_used_mem := 0, c_used_proc := 0,
     c_state := CUNUSED, c_ticks := 0\<rparr>"

lemma lit_empty: "lit '''' = [0]"
  by (simp add: lit_def)

lemma strncpy_empty: "length x = 16 \<Longrightarrow> strncpy x (lit '''') 16 = Inr (replicate 16 0)"
  by (simp add: lit_empty strncpy_eq)

lemma freecontainer_eq:
  assumes "c < length (conts s)" and "names_sized s" and "LCont c \<notin> set (held s)"
  shows "freecontainer c s = Inr (1, upd_cont c cleared s)"
proof -
  have "length (c_name (conts s ! c)) = 16" "length (c_vc_name (conts s ! c)) = 16"
    using assms(1,2) by (auto simp: names_sized_def)
  with assms(3) show ?thesis
    by (simp add: freecontainer_def strncpy_empty Let_def upd_cont_def cleared_def)
qed

lemma climitexceedhandler_eq:
  assumes "c < length (conts s)" and "length (procs s) = NPROC" and "names_sized s"
    and "no_proc_lock s" and "LCont c \<notin> set (held s)"
    and "c_isroot (conts s ! c) = 0" and "c_state (conts s ! c) \<noteq> CUNUSED"
  shows "climitexceedhandler c s =
    Inr (upd_cont c cleared (s\<lparr>procs := map (stop_marks c) (procs s)\<rparr>))"
proof -
  let ?s1 = "upd_cont c (\<lambda>x. x\<lparr>c_state := CSTOPPED\<rparr>) s"
  let ?s2 = "?s1\<lparr>procs := map (stop_marks c) (procs s)\<rparr>"
  have stop: "stopprocforcontainer c ?s1 = Inr ?s2"
    using assms by (subst stopprocforcontainer_eq) (simp_all add: no_proc_lock_def)
  have "names_sized ?s2"
    using assms(1,3) unfolding names_sized_def by simp (rule ball_list_update, auto)
  then have free: "freecontainer c ?s2 = Inr (1, upd_cont c cleared ?s2)"
    using assms by (intro freecontainer_eq) simp_all
  have "upd_cont c cleared ?s2 = upd_cont c cleared (s\<lparr>procs := map (stop_marks c) (procs s)\<rparr>)"
    using assms(1) by (simp add: upd_cont_def cleared_def)
  with stop free assms(6,7) show ?thesis by (simp add: climitexceedhandler_def)
qed

section \<open>Facts: ticks\<close>

lemma reset_ticks_simps [simp]:
  "held (reset_ticks is s) = held s" "procs (reset_ticks is s) = procs s"
  "curproc (reset_ticks is s) = curproc s" "length (conts (reset_ticks is s)) = length (conts s)"
  by (induction "is" arbitrary: s) simp_all

lemma reset_ticks_nth:
  "i < length (conts s) \<Longrightarrow> conts (reset_ticks is s) ! i =
     (if i \<in> set is then (conts s ! i)\<lparr>c_ticks := 0\<rparr> else conts s ! i)"
  by (induction "is" arbitrary: s) (auto simp: list_update_upd)

lemma pick_cont_least:
  assumes "pick_cont cs is c h = k" and "h = c_ticks (cs ! c)"
  shows "(k = c \<or> k \<in> set is \<and> c_state (cs ! k) = CRUNNABLE) \<and> c_ticks (cs ! k) \<le> h
    \<and> (\<forall>i \<in> set is. c_state (cs ! i) = CRUNNABLE \<longrightarrow> c_ticks (cs ! k) \<le> c_ticks (cs ! i))"
  using assms
proof (induction cs "is" c h rule: pick_cont.induct)
  case (2 cs i "is" c h)
  then show ?case by (cases "c_state (cs ! i) = CRUNNABLE \<and> c_ticks (cs ! i) < h") force+
qed auto

section \<open>Facts: pausing and resuming\<close>

lemma kcpause_eq:
  assumes "name2cont name s = Inr (Some c)" and "tables_ok s" and "no_proc_lock s"
    and "LCont c \<notin> set (held s)" and "c_isroot (conts s ! c) = 0"
    and "c_state (conts s ! c) = CRUNNABLE \<or> c_state (conts s ! c) = CPAUSED"
  shows "kcpause name s = Inr (1, (upd_cont c (\<lambda>x. x\<lparr>c_state := CPAUSED\<rparr>) s)
    \<lparr>procs := map (pause_marks c) (procs s)\<rparr>)"
proof -
  let ?s1 = "upd_cont c (\<lambda>x. x\<lparr>c_state := CPAUSED\<rparr>) (s\<lparr>held := LCont c # held s\<rparr>)"
  have "pauseprocforcontainer c ?s1 = Inr (?s1\<lparr>procs := map (pause_marks c) (procs s)\<rparr>)"
    using assms by (subst pauseprocforcontainer_eq) (simp_all add: tables_ok_def no_proc_lock_def)
  with assms show ?thesis
    by (auto simp: kcpause_def upd_cont_def)
qed

lemma kcresume_eq:
  assumes "name2cont name s = Inr (Some c)" and "tables_ok s" and "no_proc_lock s"
    and "LCont c \<notin> set (held s)" and "c_isroot (conts s ! c) = 0"
    and "c_state (conts s ! c) = CPAUSED"
  shows "kcresume name s = Inr (1, resetticksforcontainers
    ((upd_cont c (\<lambda>x. x\<lparr>c_state := CRUNNABLE\<rparr>) s)\<lparr>procs := map (resume_marks c) (procs s)\<rparr>))"
proof -
  let ?s1 = "upd_cont c (\<lambda>x. x\<lparr>c_state := CRUNNABLE\<rparr>) (s\<lparr>held := LCont c # held s\<rparr>)"
  have "resumeprocforcontainer c ?s1 = Inr (?s1\<lparr>procs := map (resume_marks c) (procs s)\<rparr>)"
    using assms by (subst resumeprocforcontainer_eq) (simp_all add: tables_ok_def no_proc_lock_def)
  with assms show ?thesis
    by (auto simp: kcresume_def upd_cont_def)
qed

text \<open>\<open>name2cont\<close> reads the names only.\<close>

lemma name2cont_same_names:
  assumes "names_fit name s" and "tables_ok s"
    and "map c_name (conts t) = map c_name (conts s)"
  shows "name2cont name t = name2cont name s"
proof -
  have len: "length (conts t) = length (conts s)" using assms(3) by (metis length_map)
  have nm: "c_name (conts t ! i) = c_name (conts s ! i)" if "i < length (conts s)" for i
    using assms(3) len that by (metis nth_map)
  have "names_fit name t"
    using assms(1) nm len unfolding names_fit_def by (metis in_set_conv_nth)
  moreover have "first_index (\<lambda>c. prefix (cstr name) (cstr (c_name c))) (conts t) =
      first_index (\<lambda>c. prefix (cstr name) (cstr (c_name c))) (conts s)"
    unfolding first_index_def len by (rule find_cong) (auto simp: nm)
  ultimately show ?thesis
    using assms(1,2) len by (simp add: name2cont_eq tables_ok_def)
qed

section \<open>A small system for the examples\<close>

text \<open>The root container and one container \<open>c1\<close> running two processes.\<close>

definition ex_root :: container where
  "ex_root = cont0\<lparr>c_state := CRUNNABLE, c_isroot := 1, c_name := lit ''rootcont'' @ replicate 7 0,
     c_max_proc := int NPROC, c_max_sz := MAX_CMEM, c_max_dsk := MAX_CDISK\<rparr>"

definition ex_c1 :: container where
  "ex_c1 = cont0\<lparr>c_state := CRUNNABLE, c_cid := 1, c_name := lit ''c1'' @ replicate 13 0,
     c_max_proc := 8, c_max_sz := 3276800, c_max_dsk := 327680, c_used_proc := 2,
     c_used_mem := 8192\<rparr>"

definition ex_proc :: "int \<Rightarrow> nat \<Rightarrow> procstate \<Rightarrow> proc" where
  "ex_proc pid c st = proc0\<lparr>p_pid := pid, p_local_pid := pid, p_cont := Some c, p_state := st\<rparr>"

definition ex_tab :: ktab where
  "ex_tab = \<lparr>held = [],
     procs = [ex_proc 1 0 SLEEPING, ex_proc 2 1 RUNNABLE, ex_proc 3 1 SLEEPING] @ replicate 61 proc0,
     conts = [ex_root, ex_c1] @ replicate 6 cont0,
     nextpid = 4, curproc = Some 0, initproc = Some 0, ticks = 0\<rparr>"

lemmas ex_defs = ex_tab_def ex_root_def ex_c1_def ex_proc_def proc0_def cont0_def ctxt0_def lit_def
  MAX_CMEM_def MAX_CDISK_def

lemma ex_tables_ok: "tables_ok ex_tab"
  by (simp add: tables_ok_def ex_tab_def NPROC_def NCONT_def)

lemma ex_no_lock: "no_proc_lock ex_tab"
  by (simp add: no_proc_lock_def ex_tab_def)

lemma ex_names_fit: "length (cstr name) \<le> 16 \<Longrightarrow> 0 \<in> set name \<Longrightarrow> names_fit name ex_tab"
  by (simp add: names_fit_def ex_tab_def ex_root_def ex_c1_def cont0_def lit_def)

lemma ex_names_sized: "names_sized ex_tab"
  by (simp add: names_sized_def ex_tab_def ex_root_def ex_c1_def cont0_def lit_def)

lemma ex_name2cont: "name2cont (lit ''c'') ex_tab = Inr (Some 1)" "name2cont (lit ''c1'') ex_tab = Inr (Some 1)"
  by code_simp+

end
