(* ===== verification/Contprops.thy ===== *)
theory Contprops
  imports Ctab
begin

text \<open>
  Properties of the container table (\<open>Ctab\<close>): lookup by name, the limit
  setters, the accounting functions and the pause, resume and limit-exceeded
  operations.
\<close>

text \<open>The limits every live non-root container is held to.\<close>

definition within_limits :: "container \<Rightarrow> bool" where
  "within_limits c \<longleftrightarrow> c_state c \<noteq> CUNUSED \<and> c_isroot c = 0 \<longrightarrow>
     c_used_mem c \<le> c_max_sz c \<and> c_used_dsk c \<le> c_max_dsk c \<and> c_used_proc c \<le> c_max_proc c"

lemma in_update_within:
  assumes "\<forall>c \<in> set cs. within_limits c" and "y \<in> set (cs[i := x])" and "within_limits x"
  shows "within_limits y"
  using assms set_update_subset_insert [of cs i x] by blast

lemma within_limits_charge:
  assumes "within_limits x"
  shows "within_limits (x\<lparr>c_used_mem := 0\<rparr>)"
    and "(m > c_max_sz x \<longrightarrow> c_isroot x \<noteq> 0) \<Longrightarrow> within_limits (x\<lparr>c_used_mem := m\<rparr>)"
    and "within_limits (x\<lparr>c_used_dsk := 0\<rparr>)"
    and "(m > c_max_dsk x \<longrightarrow> c_isroot x \<noteq> 0) \<Longrightarrow> within_limits (x\<lparr>c_used_dsk := m\<rparr>)"
    and "0 \<le> c_max_proc x \<Longrightarrow> within_limits (x\<lparr>c_used_proc := 0\<rparr>)"
    and "\<not> n > c_max_proc x \<Longrightarrow> within_limits (x\<lparr>c_used_proc := n\<rparr>)"
  using assms by (auto simp: within_limits_def)

lemma updatecontmem_within:
  assumes upd: "updatecontmem m k s = (r, s')" and inv: "\<forall>c \<in> set (conts s). within_limits c"
    and k: "\<And>i. k = Some i \<Longrightarrow> i < length (conts s)"
  shows "(\<forall>c \<in> set (conts s'). within_limits c) \<and> (r = - 1 \<longrightarrow> s' = s)"
proof (cases k)
  case (Some i)
  with k have "conts s ! i \<in> set (conts s)" by simp
  with inv have wl: "within_limits (conts s ! i)" by blast
  from upd Some show ?thesis
    by (auto simp: updatecontmem_def Let_def inv split: if_split_asm
        elim!: in_update_within [OF inv] intro!: within_limits_charge wl)
qed (use upd inv in \<open>simp add: updatecontmem_def\<close>)

lemma updatecontdsk_within:
  assumes upd: "updatecontdsk m k s = (r, s')" and inv: "\<forall>c \<in> set (conts s). within_limits c"
    and k: "\<And>i. k = Some i \<Longrightarrow> i < length (conts s)"
  shows "(\<forall>c \<in> set (conts s'). within_limits c) \<and> (r = - 1 \<longrightarrow> s' = s)"
proof (cases k)
  case (Some i)
  with k have "conts s ! i \<in> set (conts s)" by simp
  with inv have wl: "within_limits (conts s ! i)" by blast
  from upd Some show ?thesis
    by (auto simp: updatecontdsk_def Let_def inv split: if_split_asm
        elim!: in_update_within [OF inv] intro!: within_limits_charge wl)
qed (use upd inv in \<open>simp add: updatecontdsk_def\<close>)

lemma updatecontproc_within:
  assumes upd: "updatecontproc m k s = (r, s')" and inv: "\<forall>c \<in> set (conts s). within_limits c"
    and k: "\<And>i. k = Some i \<Longrightarrow> i < length (conts s)"
    and "\<forall>c \<in> set (conts s). 0 \<le> c_max_proc c"
  shows "(\<forall>c \<in> set (conts s'). within_limits c) \<and> (r = - 1 \<longrightarrow> s' = s)"
proof (cases k)
  case (Some i)
  with k have "conts s ! i \<in> set (conts s)" by simp
  with assms(4-) inv have wl: "within_limits (conts s ! i)" "0 \<le> c_max_proc (conts s ! i)" by blast+
  from upd Some wl(2) show ?thesis
    by (auto simp: updatecontproc_def Let_def inv split: if_split_asm
        elim!: in_update_within [OF inv] intro!: within_limits_charge wl)
qed (use upd inv in \<open>simp add: updatecontproc_def\<close>)

section \<open>Properties\<close>

text \<open>
  C26: \<open>name2cont\<close> returns the first container slot whose name has the given
  string as a prefix (not the slot whose name equals it), whatever the state
  of that slot.
\<close>

theorem name2cont_prefix_match:
  assumes "names_fit name s" and "length (conts s) = NCONT"
  shows "name2cont name s = Inr (Some i) \<longleftrightarrow>
    i < NCONT \<and> prefix (cstr name) (cstr (c_name (conts s ! i)))
    \<and> (\<forall>j<i. \<not> prefix (cstr name) (cstr (c_name (conts s ! j))))"
  using assms by (simp add: name2cont_eq first_index_Some)

theorem name2cont_prefix_match_witness:
  "name2cont (lit ''c'') ex_tab = Inr (Some 1) \<and> cstr (c_name (conts ex_tab ! 1)) = map of_char ''c1''"
proof -
  have fit: "names_fit (lit ''c'') ex_tab" by (rule ex_names_fit) (simp_all add: lit_def)
  have len: "length (conts ex_tab) = NCONT" using ex_tables_ok by (simp add: tables_ok_def)
  have nm: "cstr (c_name (conts ex_tab ! 0)) = map of_char ''rootcont''"
    "cstr (c_name (conts ex_tab ! 1)) = map of_char ''c1''"
    by (simp_all add: ex_tab_def ex_root_def ex_c1_def cont0_def lit_def)
  have "prefix (cstr (lit ''c'')) (cstr (c_name (conts ex_tab ! 1)))"
    "\<forall>j<1. \<not> prefix (cstr (lit ''c'')) (cstr (c_name (conts ex_tab ! j)))"
    by (simp_all add: nm [simplified] lit_def)
  then show ?thesis
    using name2cont_prefix_match [OF fit len, of 1] nm by (simp add: NCONT_def)
qed



text \<open>
  C20: no call of the accounting functions, with whatever amount (a decrease
  is a wrapped \<open>uint64\<close>), takes a non-root container over its memory, disk
  or process limit, and a refused charge leaves the tables as they were.
\<close>

theorem accounting_within_limits:
  assumes inv: "\<forall>c \<in> set (conts s). within_limits c"
    and nonneg: "\<forall>c \<in> set (conts s). 0 \<le> c_max_proc c"
    and k: "\<And>i. k = Some i \<Longrightarrow> i < length (conts s)"
    and upd: "(r, s') \<in> {updatecontmem m k s, updatecontdsk m k s, updatecontproc n k s}"
  shows "(\<forall>c \<in> set (conts s'). within_limits c) \<and> (r = - 1 \<longrightarrow> s' = s)"
proof -
  from upd consider "updatecontmem m k s = (r, s')" | "updatecontdsk m k s = (r, s')"
    | "updatecontproc n k s = (r, s')" by auto
  then show ?thesis
    by cases (use inv nonneg k updatecontmem_within updatecontdsk_within updatecontproc_within in blast)+
qed

theorem accounting_within_limits_witness:
  "list_all within_limits (conts (snd (updatecontmem 3268608 (Some 1) ex_tab)))"
  unfolding list_all_iff
proof (rule accounting_within_limits [THEN conjunct1])
  show "\<forall>c \<in> set (conts ex_tab). within_limits c" "\<forall>c \<in> set (conts ex_tab). 0 \<le> c_max_proc c"
    by (simp_all add: ex_tab_def ex_root_def ex_c1_def cont0_def within_limits_def)
  show "i < length (conts ex_tab)" if "Some 1 = Some i" for i
    using that by (simp add: ex_tab_def)
  show "(fst (updatecontmem 3268608 (Some 1) ex_tab), snd (updatecontmem 3268608 (Some 1) ex_tab))
    \<in> {updatecontmem 3268608 (Some 1) ex_tab, updatecontdsk 3268608 (Some 1) ex_tab,
        updatecontproc 0 (Some 1) ex_tab}"
    by simp
qed

text \<open>
  C25: charging a page and releasing it again restores the accounts exactly,
  for every live container whose usage stays below two gigabytes.
\<close>

theorem updatecontmem_charge_release:
  assumes "i < length (conts s)" and "c_state (conts s ! i) \<noteq> CUNUSED"
    and "c_used_mem (conts s ! i) + PGSIZE \<le> c_max_sz (conts s ! i)"
    and small: "unat (c_used_mem (conts s ! i)) + 4096 < 2147483648"
  shows "\<exists>s'. updatecontmem PGSIZE (Some i) s = (1, s') \<and>
    c_used_mem (conts s' ! i) = c_used_mem (conts s ! i) + PGSIZE \<and>
    updatecontmem (- PGSIZE) (Some i) s' = (1, s)"
proof -
  let ?u = "c_used_mem (conts s ! i)"
  let ?s = "upd_cont i (\<lambda>x. x\<lparr>c_used_mem := ?u + PGSIZE\<rparr>) s"
  have "unat (?u + PGSIZE) = unat ?u + 4096"
    using small by (subst unat_add_u64) (simp_all add: PGSIZE_def)
  then have s1: "\<not> sint (ucast (?u + PGSIZE) :: u32) < 0"
    using small by (intro sint_ucast_not_neg) simp
  have s0: "\<not> sint (ucast ?u :: u32) < 0"
    using small by (intro sint_ucast_not_neg) simp
  have charge: "updatecontmem PGSIZE (Some i) s = (1, ?s)"
    using assms(2,3) s1 by (simp add: updatecontmem_def Let_def not_less [symmetric])
  have "?u \<le> c_max_sz (conts s ! i)"
    using assms(3) \<open>unat (?u + PGSIZE) = unat ?u + 4096\<close> by (simp add: word_le_nat_alt)
  then have "\<not> c_max_sz (conts s ! i) < ?u" by simp
  then have "updatecontmem (- PGSIZE) (Some i) ?s = (1, s)"
    using assms(1,2) s0 by (simp add: updatecontmem_def Let_def upd_cont_def)
  with charge assms(1) show ?thesis by simp
qed

theorem updatecontmem_charge_release_witness:
  "\<exists>s'. updatecontmem PGSIZE (Some 1) ex_tab = (1, s') \<and>
    c_used_mem (conts s' ! 1) = 12288 \<and> updatecontmem (- PGSIZE) (Some 1) s' = (1, ex_tab)"
proof -
  have c: "conts ex_tab ! 1 = ex_c1" "1 < length (conts ex_tab)" by (simp_all add: ex_tab_def)
  have "c_state ex_c1 \<noteq> CUNUSED" "c_used_mem ex_c1 + PGSIZE \<le> c_max_sz ex_c1"
    "unat (c_used_mem ex_c1) + 4096 < 2147483648" "c_used_mem ex_c1 + PGSIZE = 12288"
    by (simp_all add: ex_c1_def cont0_def PGSIZE_def)
  with updatecontmem_charge_release [of 1 ex_tab] c show ?thesis by simp
qed



end
