(* ===== verification/Proctab.thy ===== *)
theory Proctab
  imports Ctab
begin

text \<open>
  The process table (\<open>kernel/proc.c\<close>): process ids, sleeping and waking,
  killing, re-parenting, and the container-aware scheduler.

  A context switch ends a kernel function half way: \<open>sched\<close> gives the state in
  which the scheduler resumes, and a function that calls it is cut into the
  part before the switch and the part after it.
\<close>

section \<open>Process ids\<close>

definition allocpid :: "'a ktab_scheme \<Rightarrow> (int \<times> 'a ktab_scheme) kres" where
  "allocpid s =
     bindE (acquire LPid s) (\<lambda>s.
     let pid = nextpid s;
         s = s\<lparr>nextpid := nextpid s + 1\<rparr> in
     bindE (release LPid s) (\<lambda>s. Inr (pid, s)))"

definition alloclocalpid :: "nat \<Rightarrow> 'a ktab_scheme \<Rightarrow> (int \<times> 'a ktab_scheme) kres" where
  "alloclocalpid c s =
     bindE (acquire LCid s) (\<lambda>s.
     let local_pid = c_nextlocalpid (conts s ! c);
         s = upd_cont c (\<lambda>x. x\<lparr>c_nextlocalpid := c_nextlocalpid x + 1\<rparr>) s in
     bindE (release LCid s) (\<lambda>s. Inr (local_pid, s)))"

section \<open>Switching\<close>

definition sched :: "'a ktab_scheme \<Rightarrow> 'a ktab_scheme kres" where
  "sched s = (case curproc s of None \<Rightarrow> Inl Fault | Some p \<Rightarrow>
     if \<not> holding (LProc p) s then Inl (Panic ''sched p->lock'')
     else if length (held s) \<noteq> 1 then Inl (Panic ''sched locks'')
     else if p_state (procs s ! p) = RUNNING then Inl (Panic ''sched running'')
     else Inr s)"

text \<open>\<open>yield\<close> up to the switch, and after it.\<close>

definition yield :: "'a ktab_scheme \<Rightarrow> 'a ktab_scheme kres" where
  "yield s = (case curproc s of None \<Rightarrow> Inl Fault | Some p \<Rightarrow>
     bindE (acquire (LProc p) s) (\<lambda>s.
     sched (upd_proc p (\<lambda>x. x\<lparr>p_state := RUNNABLE\<rparr>) s)))"

definition yield_resume :: "'a ktab_scheme \<Rightarrow> 'a ktab_scheme kres" where
  "yield_resume s = (case curproc s of None \<Rightarrow> Inl Fault | Some p \<Rightarrow> release (LProc p) s)"

text \<open>\<open>sleep\<close> up to the switch, and after it.\<close>

definition sleep :: "chan \<Rightarrow> lockid \<Rightarrow> 'a ktab_scheme \<Rightarrow> 'a ktab_scheme kres" where
  "sleep ch lk s = (case curproc s of None \<Rightarrow> Inl Fault | Some p \<Rightarrow>
     bindE (if lk \<noteq> LProc p then bindE (acquire (LProc p) s) (release lk) else Inr s) (\<lambda>s.
     sched (upd_proc p (\<lambda>x. x\<lparr>p_chan := Some ch, p_state := SLEEPING\<rparr>) s)))"

definition sleep_resume :: "lockid \<Rightarrow> 'a ktab_scheme \<Rightarrow> 'a ktab_scheme kres" where
  "sleep_resume lk s = (case curproc s of None \<Rightarrow> Inl Fault | Some p \<Rightarrow>
     let s = upd_proc p (\<lambda>x. x\<lparr>p_chan := None\<rparr>) s in
     if lk \<noteq> LProc p then bindE (release (LProc p) s) (acquire lk) else Inr s)"

definition wakeup :: "chan \<Rightarrow> 'a ktab_scheme \<Rightarrow> 'a ktab_scheme kres" where
  "wakeup ch s =
     bindE (foreach [0..<NPROC] (\<lambda>p s.
         bindE (acquire (LProc p) s) (\<lambda>s.
         let s = (if p_state (procs s ! p) = SLEEPING \<and> p_chan (procs s ! p) = Some ch
                  then upd_proc p (\<lambda>x. x\<lparr>p_state := RUNNABLE\<rparr>) s else s) in
         bindE (release (LProc p) s) (\<lambda>s. Inr (None :: unit option, s)))) s)
     (\<lambda>(_, s). Inr s)"

definition wakeup1 :: "nat \<Rightarrow> 'a ktab_scheme \<Rightarrow> 'a ktab_scheme kres" where
  "wakeup1 p s =
     (if \<not> holding (LProc p) s then Inl (Panic ''wakeup1'')
      else if p_chan (procs s ! p) = Some (ChProc p) \<and> p_state (procs s ! p) = SLEEPING
      then Inr (upd_proc p (\<lambda>x. x\<lparr>p_state := RUNNABLE\<rparr>) s)
      else Inr s)"

section \<open>Killing\<close>

definition containerkillwithpid :: "nat \<Rightarrow> int \<Rightarrow> 'a ktab_scheme \<Rightarrow> (int \<times> 'a ktab_scheme) kres" where
  "containerkillwithpid c local_pid s =
     bindE (foreach [0..<NPROC] (\<lambda>p s.
         if p_cont (procs s ! p) = Some c then
           bindE (acquire (LProc p) s) (\<lambda>s.
           if p_local_pid (procs s ! p) = local_pid then
             let s = upd_proc p kill_mark s in
             bindE (release (LProc p) s) (\<lambda>s. Inr (Some 0, s))
           else bindE (release (LProc p) s) (\<lambda>s. Inr (None, s)))
         else Inr (None, s)) s)
     (\<lambda>(r, s). Inr (case r of None \<Rightarrow> - 1 | Some v \<Rightarrow> v, s))"

definition kill :: "int \<Rightarrow> 'a ktab_scheme \<Rightarrow> (int \<times> 'a ktab_scheme) kres" where
  "kill pid s =
     bindE (mycont s) (\<lambda>c.
     if c_isroot (conts s ! c) \<noteq> 1 then containerkillwithpid c pid s
     else
       bindE (foreach [0..<NPROC] (\<lambda>p s.
           bindE (acquire (LProc p) s) (\<lambda>s.
           if p_pid (procs s ! p) = pid then
             (case p_cont (procs s ! p) of None \<Rightarrow> Inl Fault | Some pc \<Rightarrow>
              if c_isroot (conts s ! pc) \<noteq> 1 then
                bindE (release (LProc p) s) (\<lambda>s. Inr (Some (- 1), s))
              else
                let s = upd_proc p kill_mark s in
                bindE (release (LProc p) s) (\<lambda>s. Inr (Some 0, s)))
           else bindE (release (LProc p) s) (\<lambda>s. Inr (None, s)))) s)
       (\<lambda>(r, s). Inr (case r of None \<Rightarrow> - 1 | Some v \<Rightarrow> v, s)))"

section \<open>Children\<close>

definition reparent :: "nat \<Rightarrow> 'a ktab_scheme \<Rightarrow> 'a ktab_scheme kres" where
  "reparent p s =
     bindE (foreach [0..<NPROC] (\<lambda>pp s.
         if p_parent (procs s ! pp) = Some p then
           bindE (acquire (LProc pp) s) (\<lambda>s.
           let s = upd_proc pp (\<lambda>x. x\<lparr>p_parent := initproc s\<rparr>) s in
           bindE (release (LProc pp) s) (\<lambda>s. Inr (None :: unit option, s)))
         else Inr (None, s)) s)
     (\<lambda>(_, s). Inr s)"

section \<open>Scheduling\<close>

text \<open>
  The unbounded search of \<open>getnextproc\<close>, with fuel: running out of fuel stands
  for spinning.  One round of the table is enough fuel, since the search
  changes nothing it tests.
\<close>

fun getnext_loop :: "nat \<Rightarrow> nat \<Rightarrow> nat \<Rightarrow> 'a ktab_scheme \<Rightarrow> (nat \<times> 'a ktab_scheme) kres" where
  "getnext_loop 0 index c s = Inl Spins"
| "getnext_loop (Suc fuel) index c s =
     (let p = index mod NPROC in
      bindE (acquire (LProc p) s) (\<lambda>s.
      if p_cont (procs s ! p) = Some c then
        let s = upd_cont c (\<lambda>x. x\<lparr>c_nextproctorun := Some p\<rparr>) s in
        bindE (release (LProc p) s) (\<lambda>s. Inr (p, s))
      else bindE (release (LProc p) s) (\<lambda>s. getnext_loop fuel (index + 1) c s)))"

text \<open>The position the search starts from: after the current process, or the end.\<close>

definition getnext_index :: "nat option \<Rightarrow> nat" where
  "getnext_index cur = (case List.find (\<lambda>p. Some p = cur) [0..<NPROC] of
     Some p \<Rightarrow> p + 1 | None \<Rightarrow> NPROC)"

definition getnextproc :: "nat \<Rightarrow> 'a ktab_scheme \<Rightarrow> (nat \<times> 'a ktab_scheme) kres" where
  "getnextproc c s =
     (let cur = c_nextproctorun (conts s ! c);
          first = (if cur = None then List.find (\<lambda>p. p_cont (procs s ! p) = Some c) [0..<NPROC]
                   else None) in
      case first of
        Some p \<Rightarrow> Inr (p, upd_cont c (\<lambda>x. x\<lparr>c_nextproctorun := Some p\<rparr>) s)
      | None \<Rightarrow> getnext_loop NPROC (getnext_index cur) c s)"

text \<open>
  One turn of the scheduler for container id \<open>i\<close>.  The first half ends with
  the switch to a process, giving the container, the process and the tick
  count at the start; the second half runs when that process switches back.
\<close>

definition scheduler_enter ::
    "int \<Rightarrow> 'a ktab_scheme \<Rightarrow> ((nat \<times> nat \<times> u32) option \<times> 'a ktab_scheme) kres" where
  "scheduler_enter i s =
     (case cid2cont i s of None \<Rightarrow> Inr (None, s) | Some c \<Rightarrow>
      if c_state (conts s ! c) \<noteq> CRUNNABLE then Inr (None, s)
      else (case c_nextproctorun (conts s ! c) of
          None \<Rightarrow> bindE (getnextproc c s) (\<lambda>(_, s). Inr (None, s))
        | Some p \<Rightarrow>
            bindE (acquire (LProc p) s) (\<lambda>s.
            if p_state (procs s ! p) = RUNNABLE then
              let start = ticks s;
                  s = upd_proc p (\<lambda>x. x\<lparr>p_state := RUNNING\<rparr>) s in
              Inr (Some (c, p, start), s\<lparr>curproc := Some p\<rparr>)
            else
              bindE (release (LProc p) s) (\<lambda>s.
              bindE (getnextproc c s) (\<lambda>(_, s). Inr (None, s))))))"

definition scheduler_return :: "nat \<times> nat \<times> u32 \<Rightarrow> 'a ktab_scheme \<Rightarrow> 'a ktab_scheme kres" where
  "scheduler_return r s =
     (case r of (c, p, start) \<Rightarrow>
      let s = s\<lparr>curproc := None\<rparr>;
          s = upd_proc p (\<lambda>x. x\<lparr>p_ticks := sint (of_int (p_ticks x) + (ticks s - start) :: u32)\<rparr>) s;
          s = upd_cont c (\<lambda>x. x\<lparr>c_ticks := sint (of_int (c_ticks x) + (ticks s - start) :: u32)\<rparr>) s in
      bindE (release (LProc p) s) (\<lambda>s.
      bindE (getnextproc c s) (\<lambda>(_, s). Inr s)))"

section \<open>Listing\<close>

fun strcmp :: "u8 list \<Rightarrow> u8 list \<Rightarrow> int kres" where
  "strcmp (a # p) (b # q) =
     (if a \<noteq> b then Inr (if a < b then - 1 else 1) else if a = 0 then Inr 0 else strcmp p q)"
| "strcmp p q = Inl Fault"

definition state_name :: "procstate \<Rightarrow> string" where
  "state_name st = (case st of UNUSED \<Rightarrow> ''unused'' | SLEEPING \<Rightarrow> ''sleep '' | RUNNABLE \<Rightarrow> ''runble''
     | RUNNING \<Rightarrow> ''run   '' | ZOMBIE \<Rightarrow> ''zombie'' | SUSPENDED \<Rightarrow> ''suspended'')"

text \<open>The lines \<open>procdump\<close> prints: pid, state and name.\<close>

definition procdump :: "'a ktab_scheme \<Rightarrow> (int \<times> string \<times> u8 list) list" where
  "procdump s = map (\<lambda>p. (p_pid (procs s ! p), state_name (p_state (procs s ! p)), cstr (p_name (procs s ! p))))
     (filter (\<lambda>p. p_state (procs s ! p) \<noteq> UNUSED) [0..<NPROC])"

definition numprocs :: "'a ktab_scheme \<Rightarrow> int" where
  "numprocs s = fold (\<lambda>p count. if p_state (procs s ! p) \<noteq> UNUSED then count + 1 else count) [0..<NPROC] 0"

definition ktraceon :: "'a ktab_scheme \<Rightarrow> (int \<times> 'a ktab_scheme) kres" where
  "ktraceon s = (case curproc s of None \<Rightarrow> Inl Fault | Some p \<Rightarrow>
     Inr (1, upd_proc p (\<lambda>x. x\<lparr>p_tracing := 1\<rparr>) s))"

section \<open>Facts: waking and killing\<close>

definition wake_mark :: "chan \<Rightarrow> proc \<Rightarrow> proc" where
  "wake_mark ch p = (if p_state p = SLEEPING \<and> p_chan p = Some ch then p\<lparr>p_state := RUNNABLE\<rparr> else p)"

lemma wakeup_eq [kernel_simps]:
  assumes "no_proc_lock s" and "length (procs s) = NPROC"
  shows "wakeup ch s = Inr (s\<lparr>procs := map (wake_mark ch) (procs s)\<rparr>)"
proof -
  have "foreach [0..<NPROC] (\<lambda>p s.
         bindE (acquire (LProc p) s) (\<lambda>s.
         let s = (if p_state (procs s ! p) = SLEEPING \<and> p_chan (procs s ! p) = Some ch
                  then upd_proc p (\<lambda>x. x\<lparr>p_state := RUNNABLE\<rparr>) s else s) in
         bindE (release (LProc p) s) (\<lambda>s. Inr (None :: unit option, s)))) s
    = Inr (None, s\<lparr>procs := map (wake_mark ch) (procs s)\<rparr>)"
    by (rule foreach_procs_map [OF _ assms(2)])
       (use assms(1) in \<open>auto simp: wake_mark_def upd_proc_def Let_def\<close>)
  then show ?thesis by (simp add: wakeup_def)
qed

lemma containerkillwithpid_eq [kernel_simps]:
  assumes "no_proc_lock s"
  shows "containerkillwithpid c pid s =
    (case List.find (\<lambda>p. p_cont (procs s ! p) = Some c \<and> p_local_pid (procs s ! p) = pid) [0..<NPROC] of
       None \<Rightarrow> Inr (- 1, s) | Some p \<Rightarrow> Inr (0, upd_proc p kill_mark s))"
  unfolding containerkillwithpid_def
  by (subst foreach_find [where P = "\<lambda>p. p_cont (procs s ! p) = Some c \<and> p_local_pid (procs s ! p) = pid"
        and r = "\<lambda>_. 0" and t = "\<lambda>p. upd_proc p kill_mark s"])
     (use assms in \<open>auto simp: Let_def upd_proc_def split: option.split\<close>)

lemma kill_root_eq [kernel_simps]:
  assumes "no_proc_lock s" and "mycont s = Inr c" and "c_isroot (conts s ! c) = 1"
  shows "kill pid s =
    (case List.find (\<lambda>p. p_pid (procs s ! p) = pid) [0..<NPROC] of
       None \<Rightarrow> Inr (- 1, s)
     | Some p \<Rightarrow> (case p_cont (procs s ! p) of None \<Rightarrow> Inl Fault
         | Some pc \<Rightarrow> if c_isroot (conts s ! pc) \<noteq> 1 then Inr (- 1, s) else Inr (0, upd_proc p kill_mark s)))"
proof -
  let ?R = "\<lambda>p. case p_cont (procs s ! p) of None \<Rightarrow> Inl Fault
      | Some pc \<Rightarrow> if c_isroot (conts s ! pc) \<noteq> 1 then Inr (- 1, s) else Inr (0, upd_proc p kill_mark s)"
  show ?thesis
    unfolding kill_def
    by (subst foreach_search [where P = "\<lambda>p. p_pid (procs s ! p) = pid" and R = ?R])
       (use assms in \<open>auto simp: Let_def upd_proc_def split: option.split\<close>)
qed

lemma kill_nonroot_eq [kernel_simps]:
  "mycont s = Inr c \<Longrightarrow> c_isroot (conts s ! c) \<noteq> 1 \<Longrightarrow> kill pid s = containerkillwithpid c pid s"
  by (simp add: kill_def)

section \<open>Facts: the next process of a container\<close>

abbreviation in_cont :: "nat \<Rightarrow> 'a ktab_scheme \<Rightarrow> nat \<Rightarrow> bool" where
  "in_cont c s p \<equiv> p_cont (procs s ! p) = Some c"

definition set_next :: "nat \<Rightarrow> nat \<Rightarrow> 'a ktab_scheme \<Rightarrow> 'a ktab_scheme" where
  "set_next c p s = upd_cont c (\<lambda>x. x\<lparr>c_nextproctorun := Some p\<rparr>) s"

text \<open>Successive calls of \<open>getnextproc\<close>, with the processes they return.\<close>

fun next_run :: "nat \<Rightarrow> nat \<Rightarrow> 'a ktab_scheme \<Rightarrow> (nat list \<times> 'a ktab_scheme) kres" where
  "next_run c 0 s = Inr ([], s)"
| "next_run c (Suc n) s =
     bindE (getnextproc c s) (\<lambda>(p, s). bindE (next_run c n s) (\<lambda>(ps, s). Inr (p # ps, s)))"

lemma getnext_loop_eq:
  assumes "no_proc_lock s"
  shows "getnext_loop fuel index c s =
    (case List.find (\<lambda>j. in_cont c s (j mod NPROC)) [index..<index + fuel] of
       None \<Rightarrow> Inl Spins | Some j \<Rightarrow> Inr (j mod NPROC, set_next c (j mod NPROC) s))"
proof (induction fuel arbitrary: index)
  case (Suc fuel)
  have "[index..<index + Suc fuel] = index # [index + 1..<(index + 1) + fuel]"
    by (simp add: upt_conv_Cons)
  with Suc assms show ?case by (simp add: Let_def set_next_def upd_cont_def)
qed simp

lemma find_from_Some:
  "List.find P [a..<b] = Some j \<longleftrightarrow> a \<le> j \<and> j < b \<and> P j \<and> (\<forall>i. a \<le> i \<and> i < j \<longrightarrow> \<not> P i)"
proof -
  have "(\<exists>i<b - a. P (a + i) \<and> j = a + i \<and> (\<forall>k<i. \<not> P (a + k))) \<longleftrightarrow>
    a \<le> j \<and> j < b \<and> P j \<and> (\<forall>i. a \<le> i \<and> i < j \<longrightarrow> \<not> P i)"  (is "?L \<longleftrightarrow> ?R")
  proof
    assume ?L
    then obtain i where i: "i < b - a" "P (a + i)" "j = a + i" and l: "\<And>k. k < i \<Longrightarrow> \<not> P (a + k)" by blast
    have "\<not> P k" if "a \<le> k" "k < j" for k using l [of "k - a"] that i(3) by simp
    with i show ?R by auto
  next
    assume ?R
    then show ?L by (intro exI [of _ "j - a"]) auto
  qed
  moreover have "List.find P [a..<b] = Some j \<longleftrightarrow> (\<exists>i<b - a. P (a + i) \<and> j = a + i \<and> (\<forall>k<i. \<not> P (a + k)))"
    by (auto simp: find_Some_iff)
  ultimately show ?thesis by simp
qed

lemma find_from_None: "List.find P [a..<b] = None \<longleftrightarrow> (\<forall>j. a \<le> j \<and> j < b \<longrightarrow> \<not> P j)"
  by (auto simp: find_None_iff)

lemma getnext_index_Some [simp]: "k < NPROC \<Longrightarrow> getnext_index (Some k) = k + 1"
proof -
  assume "k < NPROC"
  then have "List.find (\<lambda>p. Some p = Some k) [0..<NPROC] = Some k" by (simp add: find_upt_Some)
  then show ?thesis unfolding getnext_index_def by (simp only: option.simps)
qed

lemma getnext_index_None [simp]: "getnext_index None = NPROC"
proof -
  have "List.find (\<lambda>p. False) [0..<NPROC] = None" by (simp add: find_None_iff)
  then show ?thesis by (simp add: getnext_index_def)
qed

lemma getnextproc_from:
  assumes "no_proc_lock s" and "c_nextproctorun (conts s ! c) = Some k" and "k < NPROC"
  shows "getnextproc c s =
    (case List.find (\<lambda>j. in_cont c s (j mod NPROC)) [k + 1..<k + 1 + NPROC] of
       None \<Rightarrow> Inl Spins | Some j \<Rightarrow> Inr (j mod NPROC, set_next c (j mod NPROC) s))"
  using assms by (simp add: getnextproc_def getnext_loop_eq)

text \<open>The residues of a full round of indices are all the slots.\<close>

lemma round_covers:
  fixes a p n :: nat
  assumes "p < n"
  shows "\<exists>j. a \<le> j \<and> j < a + n \<and> j mod n = p"
proof -
  have "(p + (n - a mod n)) mod n < n" using assms by simp
  let ?d = "(p + (n - a mod n)) mod n"
  have "(a + ?d) mod n = (a mod n + (p + (n - a mod n))) mod n"
    by (metis mod_add_left_eq mod_add_right_eq)
  also have "a mod n + (p + (n - a mod n)) = p + n"
    using assms mod_less_divisor [of n a] by (simp del: mod_less_divisor)
  finally have "(a + ?d) mod n = p" using assms by simp
  with assms show ?thesis by (intro exI [of _ "a + ?d"]) simp
qed

lemma find_round_None:
  fixes a n :: nat
  assumes "0 < n"
  shows "List.find (\<lambda>j. P (j mod n)) [a..<a + n] = None \<longleftrightarrow> (\<forall>p<n. \<not> P p)"
proof
  assume *: "List.find (\<lambda>j. P (j mod n)) [a..<a + n] = None"
  show "\<forall>p<n. \<not> P p"
  proof (intro allI impI)
    fix p assume "p < n"
    with round_covers [of p n a] obtain j where "a \<le> j" "j < a + n" "j mod n = p" by auto
    with * show "\<not> P p" by (auto simp: find_None_iff)
  qed
qed (use assms in \<open>auto simp: find_None_iff\<close>)

lemma getnextproc_unset:
  assumes "no_proc_lock s" and "c_nextproctorun (conts s ! c) = None"
  shows "getnextproc c s =
    (case List.find (in_cont c s) [0..<NPROC] of
       None \<Rightarrow> Inl Spins | Some p \<Rightarrow> Inr (p, set_next c p s))"
proof (cases "List.find (in_cont c s) [0..<NPROC]")
  case None
  then have "List.find (\<lambda>j. in_cont c s (j mod NPROC)) [NPROC..<NPROC + NPROC] = None"
    by (subst find_round_None) (simp_all add: find_upt_None, simp add: NPROC_def)
  with None assms show ?thesis by (simp add: getnextproc_def getnext_loop_eq)
next
  case (Some p)
  with assms show ?thesis by (simp add: getnextproc_def set_next_def)
qed

lemma set_next_simps [simp]:
  "procs (set_next c p s) = procs s" "held (set_next c p s) = held s"
  "length (conts (set_next c p s)) = length (conts s)" "no_proc_lock (set_next c p s) = no_proc_lock s"
  "c < length (conts s) \<Longrightarrow> c_nextproctorun (conts (set_next c p s) ! c) = Some p"
  by (simp_all add: set_next_def no_proc_lock_def)

lemma getnextproc_step:
  assumes "no_proc_lock s" and "c_nextproctorun (conts s ! c) = Some k" and "k < NPROC"
    and "j < NPROC" and "in_cont c s ((k + 1 + j) mod NPROC)"
  shows "\<exists>i \<le> j. in_cont c s ((k + 1 + i) mod NPROC) \<and> (\<forall>m<i. \<not> in_cont c s ((k + 1 + m) mod NPROC)) \<and>
    getnextproc c s = Inr ((k + 1 + i) mod NPROC, set_next c ((k + 1 + i) mod NPROC) s)"
proof -
  let ?f = "List.find (\<lambda>j. in_cont c s (j mod NPROC)) [k + 1..<k + 1 + NPROC]"
  have "?f \<noteq> None"
    using assms(4,5) unfolding find_from_None by (auto intro!: exI [of _ "k + 1 + j"])
  then obtain x where x: "?f = Some x" by auto
  then have "k + 1 \<le> x" "in_cont c s (x mod NPROC)" and
    least: "\<And>i. k + 1 \<le> i \<Longrightarrow> i < x \<Longrightarrow> \<not> in_cont c s (i mod NPROC)"
    unfolding find_from_Some by blast+
  then obtain i where i: "x = k + 1 + i" by (metis le_Suc_ex)
  from least [of "k + 1 + j"] assms(5) i have "i \<le> j" by force
  moreover have "\<forall>m<i. \<not> in_cont c s ((k + 1 + m) mod NPROC)" using least i by auto
  moreover have "getnextproc c s = Inr (x mod NPROC, set_next c (x mod NPROC) s)"
    unfolding getnextproc_from [OF assms(1-3)] x by simp
  ultimately show ?thesis using i \<open>in_cont c s (x mod NPROC)\<close> by blast
qed

lemma NPROC_pos [simp]: "0 < NPROC" "x mod NPROC < NPROC"
  by (simp_all add: NPROC_def)

lemma round_offset:
  assumes "p < NPROC"
  shows "\<exists>j<NPROC. (k + 1 + j) mod NPROC = p"
proof -
  from round_covers [OF assms, of "k + 1"] obtain x where "k + 1 \<le> x" "x < k + 1 + NPROC" "x mod NPROC = p"
    by auto
  then show ?thesis by (intro exI [of _ "x - (k + 1)"]) auto
qed

lemma next_run_total:
  assumes "no_proc_lock s" and "c < length (conts s)" and "c_nextproctorun (conts s ! c) = Some k"
    and "k < NPROC" and "p < NPROC" and "in_cont c s p"
  shows "\<exists>ps s'. next_run c n s = Inr (ps, s')"
  using assms
proof (induction n arbitrary: s k)
  case (Suc n)
  from round_offset [OF Suc.prems(5), of k] obtain j where "j < NPROC" "(k + 1 + j) mod NPROC = p" by auto
  with getnextproc_step [OF Suc.prems(1,3,4), of j] Suc.prems(6) obtain i
    where g: "getnextproc c s = Inr ((k + 1 + i) mod NPROC, set_next c ((k + 1 + i) mod NPROC) s)" by auto
  have "\<exists>ps s'. next_run c n (set_next c ((k + 1 + i) mod NPROC) s) = Inr (ps, s')"
    using Suc.prems by (intro Suc.IH [of _ "(k + 1 + i) mod NPROC"]) simp_all
  with g show ?case by auto
qed simp

text \<open>Starting after slot \<open>k\<close>, the slot \<open>j + 1\<close> places on is reached within \<open>j + 1\<close> calls.\<close>

lemma next_run_reaches:
  assumes "no_proc_lock s" and "c < length (conts s)" and "c_nextproctorun (conts s ! c) = Some k"
    and "k < NPROC" and "j < NPROC" and "in_cont c s ((k + 1 + j) mod NPROC)" and "j < n"
  shows "\<exists>ps s'. next_run c n s = Inr (ps, s') \<and> (k + 1 + j) mod NPROC \<in> set ps"
  using assms
proof (induction n arbitrary: s k j)
  case (Suc n)
  from getnextproc_step [OF Suc.prems(1,3-6)] obtain i where "i \<le> j"
    and g: "getnextproc c s = Inr ((k + 1 + i) mod NPROC, set_next c ((k + 1 + i) mod NPROC) s)" by blast
  let ?q = "(k + 1 + i) mod NPROC"
  let ?s = "set_next c ?q s"
  show ?case
  proof (cases "i = j")
    case True
    have "\<exists>ps s'. next_run c n ?s = Inr (ps, s')"
      using Suc.prems True by (intro next_run_total [of _ _ ?q ?q]) simp_all
    with g True show ?thesis by auto
  next
    case False
    let ?j = "j - i - 1"
    have same: "(?q + 1 + ?j) mod NPROC = (k + 1 + j) mod NPROC"
    proof -
      have "(?q + 1 + ?j) mod NPROC = (k + 1 + i + (1 + ?j)) mod NPROC"
        by (simp only: mod_add_left_eq add.assoc)
      also have "k + 1 + i + (1 + ?j) = k + 1 + j" using False \<open>i \<le> j\<close> by simp
      finally show ?thesis .
    qed
    have "\<exists>ps s'. next_run c n ?s = Inr (ps, s') \<and> (?q + 1 + ?j) mod NPROC \<in> set ps"
      using Suc.prems False \<open>i \<le> j\<close> same by (intro Suc.IH [of ?s ?q ?j]) simp_all
    with g same show ?thesis by auto
  qed
qed simp

section \<open>Facts: children and switching\<close>

lemma reparent_eq [kernel_simps]:
  assumes "length (procs s) = NPROC"
    and "\<And>pp. pp < NPROC \<Longrightarrow> p_parent (procs s ! pp) = Some p \<Longrightarrow> LProc pp \<notin> set (held s)"
  shows "reparent p s = Inr (s\<lparr>procs :=
    map (\<lambda>x. if p_parent x = Some p then x\<lparr>p_parent := initproc s\<rparr> else x) (procs s)\<rparr>)"
  unfolding reparent_def
  by (subst foreach_procs_map
        [where f = "\<lambda>x. if p_parent x = Some p then x\<lparr>p_parent := initproc s\<rparr> else x"])
     (use assms in \<open>auto simp: Let_def upd_proc_def\<close>)

lemma sched_eq [kernel_simps]:
  "curproc s = Some p \<Longrightarrow> held s = [LProc p] \<Longrightarrow> p_state (procs s ! p) \<noteq> RUNNING \<Longrightarrow> sched s = Inr s"
  by (simp add: sched_def holding_def)

lemma sleep_eq [kernel_simps]:
  assumes "curproc s = Some p" and "held s = [lk]" and "p < length (procs s)"
  shows "sleep ch lk s =
    Inr (upd_proc p (\<lambda>x. x\<lparr>p_chan := Some ch, p_state := SLEEPING\<rparr>) (s\<lparr>held := [LProc p]\<rparr>))"
  using assms by (cases "lk = LProc p") (simp_all add: sleep_def sched_eq upd_proc_def)

end
