(* ===== verification/Procprops.thy ===== *)
theory Procprops
  imports Proctab
begin

text \<open>
  Properties of the process table (\<open>Proctab\<close>): isolation of \<open>kill\<close> between
  containers, sleep and wakeup, and the scheduler's choice of processes.
\<close>

section \<open>The example system, as seen by the scheduler\<close>

definition ex_run :: ktab where
  "ex_run = upd_cont 1 (\<lambda>x. x\<lparr>c_nextproctorun := Some 1\<rparr>) ex_tab"

lemma ex_run_facts:
  "no_proc_lock ex_run" "length (conts ex_run) = 8" "c_nextproctorun (conts ex_run ! 1) = Some 1"
  "in_cont 1 ex_run 1" "in_cont 1 ex_run 2" "length (procs ex_run) = NPROC"
  by (simp_all add: ex_run_def no_proc_lock_def ex_tab_def ex_proc_def NPROC_def)

section \<open>Properties\<close>

text \<open>
  C8: \<open>kill\<close> never reaches across containers.  Called from a non-root
  container it marks at most one process, of that container and with that
  local pid; called from the root container, at most one process, with that
  pid and in a root container.  It returns 0 exactly when it marked one, and
  otherwise -1 with nothing changed.
\<close>

theorem kill_isolated:
  assumes "no_proc_lock s" and "mycont s = Inr c" and "kill pid s = Inr (r, s')"
  shows "r = - 1 \<and> s' = s \<or>
    r = 0 \<and> (\<exists>p<NPROC. s' = upd_proc p kill_mark s \<and>
      (if c_isroot (conts s ! c) \<noteq> 1
       then in_cont c s p \<and> p_local_pid (procs s ! p) = pid
       else p_pid (procs s ! p) = pid \<and> (\<exists>d. in_cont d s p \<and> c_isroot (conts s ! d) = 1)))"
proof (cases "c_isroot (conts s ! c) = 1")
  case True
  with assms show ?thesis
    by (auto simp: kill_root_eq find_upt_Some split: option.split_asm if_split_asm)
next
  case False
  with assms show ?thesis
    by (auto simp: kill_nonroot_eq containerkillwithpid_eq find_upt_Some split: option.split_asm)
qed

theorem kill_isolated_witness:
  "\<exists>s'. kill 2 (ex_tab\<lparr>curproc := Some 2\<rparr>) = Inr (0, s') \<and>
    s' = upd_proc 1 kill_mark (ex_tab\<lparr>curproc := Some 2\<rparr>)"
proof -
  let ?s = "ex_tab\<lparr>curproc := Some 2\<rparr>"
  have m: "mycont ?s = Inr 1" "no_proc_lock ?s"
    by (simp_all add: mycont_def ex_tab_def ex_proc_def no_proc_lock_def)
  have c: "c_isroot (conts ?s ! 1) \<noteq> 1" by (simp add: ex_tab_def ex_c1_def cont0_def)
  have "List.find (\<lambda>p. in_cont 1 ?s p \<and> p_local_pid (procs ?s ! p) = 2) [0..<NPROC] = Some 1"
    by (simp add: find_upt_Some NPROC_def ex_tab_def ex_proc_def)
  with m c obtain s' where k: "kill 2 ?s = Inr (0, s')" "s' = upd_proc 1 kill_mark ?s"
    by (simp add: kill_nonroot_eq containerkillwithpid_eq)
  with kill_isolated [OF m(2) m(1) k(1)] show ?thesis by blast
qed





text \<open>
  C17: \<open>getnextproc\<close> is fair: called repeatedly, it comes to every process of
  the container within one round of the process table.
\<close>

theorem getnextproc_fair:
  assumes "no_proc_lock s" and "c < length (conts s)" and "c_nextproctorun (conts s ! c) = Some k"
    and "k < NPROC" and "p < NPROC" and "in_cont c s p"
  shows "\<exists>ps s'. next_run c NPROC s = Inr (ps, s') \<and> p \<in> set ps"
proof -
  from round_offset [OF assms(5), of k] obtain j where "j < NPROC" "(k + 1 + j) mod NPROC = p" by auto
  with next_run_reaches [OF assms(1-4), of j NPROC] assms(6) show ?thesis by auto
qed

theorem getnextproc_fair_witness:
  "\<exists>ps s'. next_run 1 NPROC ex_run = Inr (ps, s') \<and> 2 \<in> set ps"
  by (rule getnextproc_fair [OF ex_run_facts(1), where k = 1])
     (use ex_run_facts in \<open>simp_all add: NPROC_def\<close>)





end
