(* ===== verification/Riscv.thy ===== *)
theory Riscv
  imports Kstate
begin

text \<open>
  Words in physical memory and the page-table arithmetic of
  \<open>kernel/riscv.h\<close> and \<open>kernel/memlayout.h\<close>: rounding to pages, Sv39 page-table
  entries, and the three 9-bit indices of a virtual address.
\<close>

section \<open>Little-endian 64-bit loads and stores\<close>

definition load64 :: "memory \<Rightarrow> u64 \<Rightarrow> u64" where
  "load64 m a = foldr (\<lambda>i w. push_bit (8 * i) (ucast (m (a + of_nat i))) OR w) [0..<8] 0"

definition store64 :: "memory \<Rightarrow> u64 \<Rightarrow> u64 \<Rightarrow> memory" where
  "store64 m a v = fold (\<lambda>i m. m(a + of_nat i := ucast (drop_bit (8 * i) v))) [0..<8] m"

section \<open>Pages\<close>

definition PGROUNDUP :: "u64 \<Rightarrow> u64" where
  "PGROUNDUP sz = (sz + PGSIZE - 1) AND NOT (PGSIZE - 1)"

definition PGROUNDDOWN :: "u64 \<Rightarrow> u64" where
  "PGROUNDDOWN a = a AND NOT (PGSIZE - 1)"

section \<open>Page-table entries\<close>

definition PTE_V :: u64 where "PTE_V = push_bit 0 1"
definition PTE_R :: u64 where "PTE_R = push_bit 1 1"
definition PTE_W :: u64 where "PTE_W = push_bit 2 1"
definition PTE_X :: u64 where "PTE_X = push_bit 3 1"
definition PTE_U :: u64 where "PTE_U = push_bit 4 1"

definition PA2PTE :: "u64 \<Rightarrow> u64" where
  "PA2PTE pa = push_bit 10 (drop_bit 12 pa)"

definition PTE2PA :: "u64 \<Rightarrow> u64" where
  "PTE2PA pte = push_bit 12 (drop_bit 10 pte)"

definition PTE_FLAGS :: "u64 \<Rightarrow> u64" where
  "PTE_FLAGS pte = pte AND 0x3FF"

definition PX :: "nat \<Rightarrow> u64 \<Rightarrow> u64" where
  "PX level va = drop_bit (12 + 9 * level) va AND 0x1FF"

definition MAXVA :: u64 where "MAXVA = push_bit (9 + 9 + 9 + 12 - 1) 1"

section \<open>Memory layout\<close>

definition KERNBASE :: u64 where "KERNBASE = 0x80000000"
definition PHYSTOP :: u64 where "PHYSTOP = KERNBASE + 128 * 1024 * 1024"
definition TRAMPOLINE :: u64 where "TRAMPOLINE = MAXVA - PGSIZE"
definition TRAPFRAME :: u64 where "TRAPFRAME = TRAMPOLINE - PGSIZE"
definition KSTACK :: "nat \<Rightarrow> u64" where "KSTACK p = TRAMPOLINE - (of_nat p + 1) * 2 * PGSIZE"
definition UART0 :: u64 where "UART0 = 0x10000000"
definition VIRTIO0 :: u64 where "VIRTIO0 = 0x10001000"
definition CLINT :: u64 where "CLINT = 0x2000000"
definition PLIC :: u64 where "PLIC = 0x0c000000"

section \<open>Facts: loads and stores\<close>

lemma upt8: "[0..<8] = [0,1,2,3,4,5,6,7::nat]" by (simp add: upt_rec numeral_nat)

lemma store64_apply:
  "store64 m a v b = (if unat (b - a) < 8 then ucast (drop_bit (8 * unat (b - a)) v) else m b)"
proof (cases "unat (b - a) < 8")
  case True
  then obtain i where i: "unat (b - a) = i" "i < 8" by blast
  have "of_nat (unat (b - a)) = b - a" by simp
  with i(1) have b: "b = a + of_nat i" by (simp add: algebra_simps)
  from i(2) have "i \<in> set [0..<8]" by simp
  then show ?thesis using i(1) unfolding b upt8 by (auto simp: store64_def upt8)
next
  case False
  have "b \<noteq> a + of_nat i" if "i < 8" for i
  proof
    assume "b = a + of_nat i"
    then have "b - a = of_nat i" by simp
    moreover have "unat (of_nat i :: u64) = i" using that by (intro unat_of_nat_u64) simp
    ultimately show False using False that by simp
  qed
  then have "\<forall>i \<in> set [0..<8]. b \<noteq> a + of_nat i" by simp
  then show ?thesis using False unfolding upt8 by (simp add: store64_def upt8)
qed

lemma load64_cong: "(\<And>i. i < 8 \<Longrightarrow> m (a + of_nat i) = m' (a' + of_nat i)) \<Longrightarrow> load64 m a = load64 m' a'"
  unfolding load64_def by (rule foldr_cong) auto

lemma foldr_or_acc:
  "foldr (\<lambda>i w. f i OR w) xs (z :: u64) = foldr (\<lambda>i w. f i OR w) xs 0 OR z"
  by (induction xs) (simp_all add: or.assoc)

lemma bytes_join:
  "foldr (\<lambda>i w. push_bit (8 * i) (ucast (ucast (drop_bit (8 * i) v) :: u8)) OR w) [0..<k] 0
    = take_bit (8 * k) (v :: u64)"
proof (induction k)
  case (Suc k)
  let ?f = "\<lambda>i. push_bit (8 * i) (ucast (ucast (drop_bit (8 * i) v) :: u8)) :: u64"
  have "foldr (\<lambda>i w. ?f i OR w) [0..<Suc k] 0 = foldr (\<lambda>i w. ?f i OR w) [0..<k] 0 OR ?f k"
    using foldr_or_acc [of ?f "[0..<k]" "?f k"] by simp
  also have "\<dots> = take_bit (8 * k) v OR ?f k" using Suc by simp
  also have "\<dots> = take_bit (8 * Suc k) v"
    by (rule bit_word_eqI) (auto simp: bit_simps)
  finally show ?case .
qed simp

lemma load64_store64 [simp]: "load64 (store64 m a v) a = v"
proof -
  have "store64 m a v (a + of_nat i) = ucast (drop_bit (8 * i) v)" if "i < 8" for i
    using that by (simp add: store64_apply unat_of_nat_u64)
  then have "load64 (store64 m a v) a = foldr (\<lambda>i w. push_bit (8 * i) (ucast (ucast (drop_bit (8 * i) v) :: u8)) OR w) [0..<8] 0"
    unfolding load64_def by (intro foldr_cong) auto
  also have "\<dots> = v"
    unfolding bytes_join by (rule bit_word_eqI) (auto simp: bit_simps)
  finally show ?thesis .
qed
text \<open>A store is seen only by loads that overlap it.\<close>

lemma load64_store64_other:
  assumes "8 \<le> unat (a - b)" and "8 \<le> unat (b - a)"
  shows "load64 (store64 m a v) b = load64 m b"
proof (rule load64_cong)
  fix i :: nat assume i: "i < 8"
  have "\<not> unat (b + of_nat i - a) < 8"
  proof
    assume *: "unat (b + of_nat i - a) < 8"
    let ?x = "b + of_nat i - a"
    have k: "unat (of_nat i :: u64) = i" using i by (intro unat_of_nat_u64) simp
    show False
    proof (cases "i \<le> unat ?x")
      case True
      have "b - a = ?x - of_nat i" by simp
      then have "unat (b - a) = unat ?x - i"
        using True k by (metis unat_diff_u64 word_le_nat_alt)
      with * assms(2) show False by simp
    next
      case False
      have "a - b = of_nat i - ?x" by simp
      then have "unat (a - b) = i - unat ?x"
        using False k by (metis nat_le_linear unat_diff_u64 word_le_nat_alt)
      with i assms(1) show False by simp
    qed
  qed
  then show "store64 m a v (b + of_nat i) = m (b + of_nat i)" by (simp add: store64_apply)
qed

section \<open>Facts: rounding\<close>

lemma pgmask: "(4095 :: u64) = mask 12"
  by (simp add: mask_eq_exp_minus_1)

lemma PGROUNDDOWN_eq: "PGROUNDDOWN a = push_bit 12 (drop_bit 12 a)"
  unfolding PGROUNDDOWN_def PGSIZE_def
  by (simp add: pgmask) (rule bit_word_eqI, auto simp: bit_simps)

lemma unat_PGROUNDDOWN: "unat (PGROUNDDOWN a) = unat a div 4096 * 4096"
proof -
  have "PGROUNDDOWN a = a - take_bit 12 a"
    unfolding PGROUNDDOWN_eq using bits_ident [of 12 a] by (simp add: algebra_simps)
  moreover have "take_bit 12 a \<le> a" 
    by (simp add: word_le_nat_alt unsigned_take_bit_eq)
  ultimately have "unat (PGROUNDDOWN a) = unat a - unat (take_bit 12 a)" by (simp add: unat_sub)
  also have "unat (take_bit 12 a) = unat a mod 4096"
    by (simp add: unsigned_take_bit_eq [of 12 a] del: take_bit_eq_mod) (simp add: take_bit_eq_mod)
  finally show ?thesis by (simp add: minus_mod_eq_div_mult)
qed

lemma PGROUNDDOWN_le: "PGROUNDDOWN a \<le> a"
  by (simp add: word_le_nat_alt unat_PGROUNDDOWN)

lemma unat_offset: "unat (a - PGROUNDDOWN a) = unat a mod 4096"
  using PGROUNDDOWN_le [of a] by (simp add: unat_sub unat_PGROUNDDOWN minus_div_mult_eq_mod)

lemma unat_PGROUNDUP:
  assumes "unat a + 4095 < 2 ^ 64"
  shows "unat (PGROUNDUP a) = (unat a + 4095) div 4096 * 4096"
proof -
  have "PGROUNDUP a = PGROUNDDOWN (a + 4095)"
    by (simp add: PGROUNDUP_def PGROUNDDOWN_def PGSIZE_def add.commute)
  then show ?thesis using assms by (simp add: unat_PGROUNDDOWN unat_add_u64)
qed

section \<open>Facts: entries and indices\<close>

lemmas pte_bits = PTE_V_def PTE_R_def PTE_W_def PTE_X_def PTE_U_def

lemma flagmask: "(1023 :: u64) = mask 10" "(511 :: u64) = mask 9"
  by (simp_all add: mask_eq_exp_minus_1)

text \<open>The low ten bits of an entry do not disturb its page number, and conversely.\<close>

lemma PTE2PA_or_flags:
  assumes "take_bit 10 fl = fl"
  shows "PTE2PA (PA2PTE pa OR fl) = PTE2PA (PA2PTE pa)"
proof -
  have "\<not> bit fl n" if "10 \<le> n" for n using assms that by (metis bit_take_bit_iff not_less)
  then show ?thesis
    unfolding PTE2PA_def PA2PTE_def by (intro bit_word_eqI) (auto simp: bit_simps)
qed

lemma PTE2PA_PA2PTE:
  assumes "take_bit 12 pa = 0" and "take_bit 56 pa = pa"
  shows "PTE2PA (PA2PTE pa) = pa"
proof -
  have lo: "\<not> bit pa n" if "n < 12" for n
    using that assms(1) by (metis bit_0_eq bit_take_bit_iff bot_apply bot_bool_def)
  have hi: "\<not> bit pa n" if "56 \<le> n" for n using assms(2) that by (metis bit_take_bit_iff not_less)
  show ?thesis
    unfolding PTE2PA_def PA2PTE_def
  proof (rule bit_word_eqI)
    fix n assume "n < LENGTH(64)"
    then show "bit (push_bit 12 (drop_bit 10 (push_bit 10 (drop_bit 12 pa)))) n = bit pa n"
      using lo [of n] hi [of n] by (cases "n < 12"; cases "56 \<le> n") (auto simp: bit_simps)
  qed
qed

lemma PTE_FLAGS_or:
  assumes "take_bit 10 fl = fl"
  shows "PTE_FLAGS (PA2PTE pa OR fl) = fl"
proof -
  have "n < 10" if "bit fl n" for n using assms that by (metis bit_take_bit_iff)
  then show ?thesis
    unfolding PTE_FLAGS_def PA2PTE_def
    by (simp add: flagmask) (rule bit_word_eqI, auto simp: bit_simps not_less)
qed

lemma PX_eq: "PX level va = take_bit 9 (drop_bit (12 + 9 * level) va)"
  by (simp add: PX_def flagmask take_bit_eq_mask)

lemma va_split:
  assumes "va < MAXVA"
  shows "va = push_bit 30 (PX 2 va) OR push_bit 21 (PX 1 va) OR push_bit 12 (PX 0 va) OR take_bit 12 va"
proof -
  have "take_bit 38 va = va"
  proof -
    have "unat va < 2 ^ 38" using assms by (simp add: word_less_nat_alt MAXVA_def unsigned_push_bit_eq)
    then have "take_bit 38 (unat va) = unat va" by (rule take_bit_nat_eq_self)
    then show ?thesis by (metis unsigned_take_bit_eq unsigned_word_eqI)
  qed
  then have hi: "n < 38" if "bit va n" for n using that by (metis bit_take_bit_iff)
  show ?thesis
    unfolding PX_eq
  proof (rule bit_word_eqI)
    fix n assume "n < LENGTH(64)"
    then show "bit va n = bit (push_bit 30 (take_bit 9 (drop_bit (12 + 9 * 2) va))
        OR push_bit 21 (take_bit 9 (drop_bit (12 + 9 * 1) va))
        OR push_bit 12 (take_bit 9 (drop_bit (12 + 9 * 0) va)) OR take_bit 12 va) n"
      using hi [of n] by (cases "n < 12"; cases "n < 21"; cases "n < 30"; cases "n < 39") (auto simp: bit_simps)
  qed
qed

end
