(* ===== verification/Kalloc.thy ===== *)
theory Kalloc
  imports Ctab Riscv
begin

text \<open>
  The page allocator (\<open>kernel/kalloc.c\<close>).  Free pages form a list linked
  through their own first eight bytes; every page moved is charged to the
  container of the running process.
\<close>

section \<open>State\<close>

text \<open>Physical memory, the head of the free list, and the linker symbol \<open>end\<close>.\<close>

record kmem = ktab +
  mem :: memory
  freelist :: u64
  kend :: u64

text \<open>The kernel reaches memory through its direct map of RAM.\<close>

definition in_ram :: "u64 \<Rightarrow> bool" where
  "in_ram a \<longleftrightarrow> KERNBASE \<le> a \<and> a < PHYSTOP"

section \<open>Operations\<close>

definition kfree :: "u64 \<Rightarrow> 'a kmem_scheme \<Rightarrow> 'a kmem_scheme kres" where
  "kfree pa s =
     (if pa mod PGSIZE \<noteq> 0 \<or> pa < kend s \<or> pa \<ge> PHYSTOP then Inl (Panic ''kfree'')
      else
        let s = s\<lparr>mem := memset (mem s) pa 1 4096\<rparr> in
        bindE (acquire LKmem s) (\<lambda>s.
        let s = s\<lparr>mem := store64 (mem s) pa (freelist s)\<rparr>;
            s = s\<lparr>freelist := pa\<rparr> in
        bindE (release LKmem s) (\<lambda>s.
        case curproc s of
          None \<Rightarrow> Inr s
        | Some p \<Rightarrow> Inr (snd (updatecontmem (- PGSIZE) (p_cont (procs s ! p)) s)))))"

definition kalloc :: "'a kmem_scheme \<Rightarrow> (u64 \<times> 'a kmem_scheme) kres" where
  "kalloc s =
     bindE (acquire LKmem s) (\<lambda>s.
     let r = freelist s in
     bindE (if r \<noteq> 0 then
              let s = s\<lparr>freelist := load64 (mem s) r\<rparr> in release LKmem s
            else Inr s) (\<lambda>s.
     let fill = (\<lambda>s. if r \<noteq> 0 then s\<lparr>mem := memset (mem s) r 5 4096\<rparr> else s) in
     case curproc s of
       None \<Rightarrow> Inr (r, fill s)
     | Some p \<Rightarrow>
         (let c = p_cont (procs s ! p); (v, s) = updatecontmem PGSIZE c s in
          if v < 0 then
            (case c of None \<Rightarrow> Inl Fault
             | Some i \<Rightarrow> bindE (climitexceedhandler i s) (\<lambda>s. Inr (0, s)))
          else Inr (r, fill s))))"

definition kunusedmem :: "'a kmem_scheme \<Rightarrow> (int \<times> 'a kmem_scheme) kres" where
  "kunusedmem s =
     bindE (acquire LKmem s) (\<lambda>s.
     let r = freelist s;
         res = (if r \<noteq> 0 then 1 else 0) in
     bindE (release LKmem s) (\<lambda>s. Inr (res, s)))"

text \<open>
  \<open>for(; p + PGSIZE <= pa_end; p += PGSIZE) kfree(p)\<close>, with fuel: the loop
  does not end when \<open>pa_end\<close> is so high that \<open>p + PGSIZE\<close> wraps below it.
\<close>

fun freerange_loop :: "nat \<Rightarrow> u64 \<Rightarrow> u64 \<Rightarrow> 'a kmem_scheme \<Rightarrow> 'a kmem_scheme kres" where
  "freerange_loop 0 p pa_end s = (if p + PGSIZE \<le> pa_end then Inl Spins else Inr s)"
| "freerange_loop (Suc fuel) p pa_end s =
     (if p + PGSIZE \<le> pa_end then bindE (kfree p s) (freerange_loop fuel (p + PGSIZE) pa_end)
      else Inr s)"

definition freerange :: "u64 \<Rightarrow> u64 \<Rightarrow> 'a kmem_scheme \<Rightarrow> 'a kmem_scheme kres" where
  "freerange pa_start pa_end s =
     (let p = PGROUNDUP pa_start in freerange_loop (unat (pa_end - p) div 4096) p pa_end s)"

definition kinit :: "'a kmem_scheme \<Rightarrow> 'a kmem_scheme kres" where
  "kinit s = freerange (kend s) PHYSTOP s"

section \<open>The free list\<close>

text \<open>\<open>flist m a ps\<close>: following the links from \<open>a\<close> visits the pages \<open>ps\<close> and ends at null.\<close>

fun flist :: "memory \<Rightarrow> u64 \<Rightarrow> u64 list \<Rightarrow> bool" where
  "flist m a [] \<longleftrightarrow> a = 0"
| "flist m a (p # ps) \<longleftrightarrow> a = p \<and> p \<noteq> 0 \<and> flist m (load64 m p) ps"

text \<open>A page the allocator may hand out.\<close>

definition page_ok :: "u64 \<Rightarrow> u64 \<Rightarrow> bool" where
  "page_ok e p \<longleftrightarrow> p mod PGSIZE = 0 \<and> e \<le> p \<and> p < PHYSTOP"

definition free_pages :: "'a kmem_scheme \<Rightarrow> u64 list \<Rightarrow> bool" where
  "free_pages s ps \<longleftrightarrow> flist (mem s) (freelist s) ps \<and> distinct ps \<and> list_all (page_ok (kend s)) ps \<and> 0 < kend s"

text \<open>
  The account of the running process, if there is one, takes \<open>n\<close> more pages:
  its container is gone, is the root, or stays within its limit.
\<close>

definition can_alloc :: "nat \<Rightarrow> 'a kmem_scheme \<Rightarrow> bool" where
  "can_alloc n s \<longleftrightarrow> LKmem \<notin> set (held s) \<and>
     (\<forall>p c. curproc s = Some p \<longrightarrow> p_cont (procs s ! p) = Some c \<longrightarrow>
        c < length (conts s) \<and>
        (c_state (conts s ! c) = CUNUSED \<or> c_isroot (conts s ! c) \<noteq> 0 \<or>
         unat (c_used_mem (conts s ! c)) + 4096 * n \<le> unat (c_max_sz (conts s ! c))))"

definition charge :: "u64 \<Rightarrow> 'a kmem_scheme \<Rightarrow> 'a kmem_scheme" where
  "charge d s = (case curproc s of None \<Rightarrow> s
     | Some p \<Rightarrow> snd (updatecontmem d (p_cont (procs s ! p)) s))"

section \<open>The allocator's contract\<close>

text \<open>
  What a client may rely on: \<open>pages s ps\<close> says which pages are free, in the
  order they will be handed out; \<open>ready n s\<close> that \<open>n\<close> allocations will not be
  refused; \<open>valid s p\<close> that \<open>p\<close> is a page of the pool.
\<close>

locale page_allocator =
  fixes alloc :: "'s \<Rightarrow> (u64 \<times> 's) kres"
    and dealloc :: "u64 \<Rightarrow> 's \<Rightarrow> 's kres"
    and pages :: "'s \<Rightarrow> u64 list \<Rightarrow> bool"
    and ready :: "nat \<Rightarrow> 's \<Rightarrow> bool"
    and valid :: "'s \<Rightarrow> u64 \<Rightarrow> bool"
  assumes alloc_first: "pages s (p # ps) \<Longrightarrow> ready (Suc n) s \<Longrightarrow>
      \<exists>s'. alloc s = Inr (p, s') \<and> pages s' ps \<and> ready n s' \<and> (\<forall>q. valid s' q = valid s q)"
    and dealloc_page: "pages s ps \<Longrightarrow> ready n s \<Longrightarrow> valid s p \<Longrightarrow> p \<notin> set ps \<Longrightarrow>
      \<exists>s'. dealloc p s = Inr s' \<and> pages s' (p # ps) \<and> (\<forall>q. valid s' q = valid s q)"
    and pages_distinct: "pages s ps \<Longrightarrow> distinct ps"
    and pages_valid: "pages s ps \<Longrightarrow> p \<in> set ps \<Longrightarrow> valid s p \<and> p \<noteq> 0"
begin

primrec alloc_many :: "nat \<Rightarrow> 's \<Rightarrow> (u64 list \<times> 's) kres" where
  "alloc_many 0 s = Inr ([], s)"
| "alloc_many (Suc n) s =
     bindE (alloc s) (\<lambda>(p, s). bindE (alloc_many n s) (\<lambda>(ps, s). Inr (p # ps, s)))"

text \<open>Successive allocations hand out distinct, valid pages and leave the rest free.\<close>

lemma alloc_many_distinct:
  assumes "pages s (ps @ qs)" and "ready (length ps) s"
  shows "\<exists>s'. alloc_many (length ps) s = Inr (ps, s') \<and> pages s' qs \<and> ready 0 s' \<and> distinct ps \<and>
    set ps \<inter> set qs = {}"
proof -
  have "\<exists>s'. alloc_many (length ps) s = Inr (ps, s') \<and> pages s' qs \<and> ready 0 s'"
    using assms
  proof (induction ps arbitrary: s)
    case (Cons p ps)
    from Cons.prems alloc_first [of s p "ps @ qs" "length ps"]
    obtain s' where "alloc s = Inr (p, s')" "pages s' (ps @ qs)" "ready (length ps) s'" by auto
    with Cons.IH [of s'] show ?case by auto
  qed auto
  moreover have "distinct (ps @ qs)" using assms(1) by (rule pages_distinct)
  ultimately show ?thesis by auto
qed

text \<open>A page given back is the next one handed out.\<close>

lemma dealloc_alloc:
  assumes "pages s ps" and "ready n s" and "valid s p" and "p \<notin> set ps"
  shows "\<exists>s1. dealloc p s = Inr s1 \<and>
    (ready (Suc m) s1 \<longrightarrow> (\<exists>s2. alloc s1 = Inr (p, s2) \<and> pages s2 ps))"
  using dealloc_page [OF assms] alloc_first by blast

end

section \<open>Facts\<close>

lemma unat_page_mod: "unat (p :: u64) mod 4096 = unat (p mod PGSIZE)"
  by (simp add: PGSIZE_def unat_mod_distrib)

lemma page_apart:
  fixes p q :: u64
  assumes "p mod PGSIZE = 0" and "q mod PGSIZE = 0" and "p \<noteq> q" and "i < 4096"
  shows "4096 \<le> unat (q + of_nat i - p)"
proof -
  from assms(1,2) have "unat p mod 4096 = 0" "unat q mod 4096 = 0" by (simp_all add: unat_page_mod)
  then obtain a b where p: "unat p = 4096 * a" and q: "unat q = 4096 * b" by (metis dvd_def mod_0_imp_dvd)
  have ne: "a < b \<or> b < a" using assms(3) p q by (metis linorder_neqE_nat word_unat_eq_iff)
  have lt: "a < 4503599627370496" "b < 4503599627370496"
    using unat_less_2p64 [of p] unat_less_2p64 [of q] p q by simp_all
  then have x: "unat (q + of_nat i) = 4096 * b + i"
    using assms(4) q by (subst unat_add_u64) (simp_all add: unat_of_nat_u64)
  show ?thesis
  proof (cases "p \<le> q + of_nat i")
    case True
    then have "unat (q + of_nat i - p) = 4096 * b + i - 4096 * a" "4096 * a \<le> 4096 * b + i"
      using x p by (simp_all add: unat_sub word_le_nat_alt)
    with ne assms(4) show ?thesis by linarith
  next
    case False
    then have "unat (q + of_nat i - p) = 18446744073709551616 - (4096 * a - (4096 * b + i))"
      using x p by (simp add: unat_diff_wrap_u64 not_le)
    with ne assms(4) lt show ?thesis by linarith
  qed
qed

lemma upd_kmem [simp]:
  "mem (upd_cont i f s) = mem s" "freelist (upd_cont i f s) = freelist s" "kend (upd_cont i f s) = kend s"
  "mem (upd_proc i g s) = mem s" "freelist (upd_proc i g s) = freelist s" "kend (upd_proc i g s) = kend s"
  by (simp_all add: upd_cont_def upd_proc_def)

lemma charge_simps [simp]:
  "mem (charge d s) = mem s" "freelist (charge d s) = freelist s" "kend (charge d s) = kend s"
  "held (charge d s) = held s" "procs (charge d s) = procs s" "curproc (charge d s) = curproc s"
  "length (conts (charge d s)) = length (conts s)"
  by (simp_all add: charge_def updatecontmem_def Let_def split: option.split)

lemma load64_page_other:
  assumes "p mod PGSIZE = 0" and "q mod PGSIZE = 0" and "p \<noteq> q"
  shows "load64 (memset m p c 4096) q = load64 m q" "load64 (store64 m p v) q = load64 m q"
proof -
  have apart: "4096 \<le> unat (q + of_nat i - p)" if "i < 8" for i :: nat
    using page_apart [OF assms, of i] that by simp
  show "load64 (memset m p c 4096) q = load64 m q"
    by (rule load64_cong) (use apart in \<open>force simp: memset_apply\<close>)
  show "load64 (store64 m p v) q = load64 m q"
    by (rule load64_cong) (use apart in \<open>force simp: store64_apply\<close>)
qed

lemma flist_cong: "(\<And>p. p \<in> set ps \<Longrightarrow> load64 m' p = load64 m p) \<Longrightarrow> flist m' a ps = flist m a ps"
  by (induction ps arbitrary: a) auto

text \<open>A page off the list can be overwritten.\<close>

lemma flist_other_page:
  assumes "list_all (page_ok e) ps" and "p mod PGSIZE = 0" and "p \<notin> set ps"
  shows "flist (memset m p c 4096) a ps = flist m a ps" "flist (store64 m p v) a ps = flist m a ps"
proof -
  have q: "q mod PGSIZE = 0" "p \<noteq> q" if "q \<in> set ps" for q
    using assms that unfolding list_all_iff page_ok_def by blast+
  show "flist (memset m p c 4096) a ps = flist m a ps"
    by (intro flist_cong load64_page_other(1) [OF assms(2)]) (use q in blast)+
  show "flist (store64 m p v) a ps = flist m a ps"
    by (intro flist_cong load64_page_other(2) [OF assms(2)]) (use q in blast)+
qed

lemma kfree_eq [kernel_simps]:
  assumes "page_ok (kend s) pa" and "LKmem \<notin> set (held s)"
  shows "kfree pa s = Inr (charge (- PGSIZE)
    (s\<lparr>mem := store64 (memset (mem s) pa 1 4096) pa (freelist s), freelist := pa\<rparr>))"
  using assms by (simp add: kfree_def page_ok_def charge_def Let_def not_less not_le split: option.split)

lemma can_alloc_charge:
  assumes "can_alloc (Suc n) s" and "curproc s = Some p" and "p_cont (procs s ! p) = Some c"
    and "c_state (conts s ! c) \<noteq> CUNUSED" and "c_isroot (conts s ! c) = 0"
  shows "unat (c_used_mem (conts s ! c) + PGSIZE) = unat (c_used_mem (conts s ! c)) + 4096"
    and "c_used_mem (conts s ! c) + PGSIZE \<le> c_max_sz (conts s ! c)"
proof -
  let ?u = "c_used_mem (conts s ! c)" and ?m = "c_max_sz (conts s ! c)"
  from assms have le: "unat ?u + 4096 * Suc n \<le> unat ?m" by (auto simp: can_alloc_def)
  with unat_less_2p64 [of ?m] have "unat ?u + unat PGSIZE < 2 ^ 64" by (simp add: PGSIZE_def)
  then show u: "unat (?u + PGSIZE) = unat ?u + 4096" by (simp add: unat_add_u64) (simp add: PGSIZE_def)
  with le show "?u + PGSIZE \<le> ?m" by (simp add: word_le_nat_alt)
qed

lemma can_alloc_not_refused:
  assumes "can_alloc (Suc n) s" and "curproc s = Some p"
  shows "\<not> fst (updatecontmem PGSIZE (p_cont (procs s ! p)) s) < 0"
proof (cases "p_cont (procs s ! p)")
  case (Some c)
  with can_alloc_charge(2) [OF assms] show ?thesis
    by (auto simp: updatecontmem_def Let_def dest: leD)
qed (simp add: updatecontmem_def)

lemma kalloc_eq [kernel_simps]:
  assumes "freelist s \<noteq> 0" and "can_alloc (Suc n) s"
  shows "kalloc s = Inr (freelist s, (charge PGSIZE (s\<lparr>freelist := load64 (mem s) (freelist s)\<rparr>))
    \<lparr>mem := memset (mem s) (freelist s) 5 4096\<rparr>)"
proof (cases "curproc s")
  case None
  with assms show ?thesis by (simp add: kalloc_def can_alloc_def charge_def Let_def)
next
  case (Some p)
  let ?t = "s\<lparr>freelist := load64 (mem s) (freelist s)\<rparr>"
  have "can_alloc (Suc n) ?t" using assms(2) by (simp add: can_alloc_def)
  then have "\<not> fst (updatecontmem PGSIZE (p_cont (procs s ! p)) ?t) < 0"
    using can_alloc_not_refused [of n ?t p] Some by simp
  moreover obtain v u where u: "updatecontmem PGSIZE (p_cont (procs s ! p)) ?t = (v, u)" by fastforce
  moreover have "mem u = mem s"
    using u by (auto simp: updatecontmem_def Let_def split: option.split_asm if_split_asm)
  ultimately show ?thesis
    using Some assms by (simp add: kalloc_def can_alloc_def charge_def Let_def)
qed

lemma can_alloc_after:
  assumes "can_alloc (Suc n) s"
  shows "can_alloc n (charge PGSIZE s)"
proof (cases "curproc s")
  case None
  with assms show ?thesis by (simp add: can_alloc_def charge_def)
next
  case (Some p)
  show ?thesis
  proof (cases "p_cont (procs s ! p)")
    case None
    with Some assms show ?thesis by (simp add: can_alloc_def charge_def updatecontmem_def)
  next
    case c: (Some c)
    show ?thesis
    proof (cases "c_state (conts s ! c) = CUNUSED \<or> c_isroot (conts s ! c) \<noteq> 0")
      case True
      with Some c assms show ?thesis
        by (auto simp: can_alloc_def charge_def updatecontmem_def Let_def)
    next
      case False
      let ?u = "c_used_mem (conts s ! c)"
      from False can_alloc_charge [OF assms Some c]
      have u: "unat (?u + PGSIZE) = unat ?u + 4096" "?u + PGSIZE \<le> c_max_sz (conts s ! c)" by auto
      from False Some c assms have "unat ?u + 4096 * Suc n \<le> unat (c_max_sz (conts s ! c))"
        and "c < length (conts s)" and "LKmem \<notin> set (held s)" by (auto simp: can_alloc_def)
      with u False Some c show ?thesis
        by (simp add: can_alloc_def charge_def updatecontmem_def Let_def not_less)
    qed
  qed
qed

lemma can_alloc_cong:
  "held t = held s \<Longrightarrow> procs t = procs s \<Longrightarrow> conts t = conts s \<Longrightarrow> curproc t = curproc s \<Longrightarrow>
    can_alloc n t = can_alloc n s"
  by (simp add: can_alloc_def)

lemma charge_mem_upd: "conts (charge d (s\<lparr>freelist := a\<rparr>)) = conts (charge d s)"
  by (simp add: charge_def updatecontmem_def Let_def split: option.split)

lemma page_ok_nonzero: "page_ok e p \<Longrightarrow> 0 < e \<Longrightarrow> p \<noteq> 0"
  by (auto simp: page_ok_def)

lemma kalloc_pages:
  assumes "free_pages s (p # ps)" and "can_alloc (Suc n) s"
  shows "\<exists>s'. kalloc s = Inr (p, s') \<and> free_pages s' ps \<and> can_alloc n s' \<and> kend s' = kend s"
proof -
  from assms(1) have fl: "freelist s = p" "p \<noteq> 0" "flist (mem s) (load64 (mem s) p) ps"
    and "distinct (p # ps)" "list_all (page_ok (kend s)) (p # ps)" "0 < kend s"
    by (auto simp: free_pages_def)
  let ?t = "s\<lparr>freelist := load64 (mem s) p\<rparr>"
  let ?s = "(charge PGSIZE ?t)\<lparr>mem := memset (mem s) p 5 4096\<rparr>"
  have "kalloc s = Inr (p, ?s)" using fl kalloc_eq [OF _ assms(2)] by simp
  moreover have "free_pages ?s ps"
    using fl \<open>distinct _\<close> \<open>list_all _ _\<close> \<open>0 < kend s\<close>
    by (simp add: free_pages_def flist_other_page(1) [where e = "kend s"] page_ok_def)
  moreover have "can_alloc n ?s"
  proof -
    have "can_alloc (Suc n) ?t" using assms(2) by (simp add: can_alloc_def)
    then have "can_alloc n (charge PGSIZE ?t)" by (rule can_alloc_after)
    then show ?thesis by (simp add: can_alloc_def)
  qed
  ultimately show ?thesis by simp
qed

lemma kfree_pages:
  assumes "free_pages s ps" and "LKmem \<notin> set (held s)" and "page_ok (kend s) p" and "p \<notin> set ps"
  shows "\<exists>s'. kfree p s = Inr s' \<and> free_pages s' (p # ps) \<and> kend s' = kend s \<and> held s' = held s"
proof -
  let ?m = "memset (mem s) p 1 4096"
  let ?s = "charge (- PGSIZE) (s\<lparr>mem := store64 ?m p (freelist s), freelist := p\<rparr>)"
  have "kfree p s = Inr ?s" by (rule kfree_eq [OF assms(3,2)])
  moreover have "free_pages ?s (p # ps)"
    using assms(1,3,4) page_ok_nonzero [OF assms(3)]
    by (simp add: free_pages_def flist_other_page [where e = "kend s"] page_ok_def)
  ultimately show ?thesis by simp
qed

interpretation ka: page_allocator kalloc kfree free_pages can_alloc "\<lambda>s. page_ok (kend s)"
proof
  fix s :: "'a kmem_scheme" and p ps n
  assume "free_pages s (p # ps)" "can_alloc (Suc n) s"
  from kalloc_pages [OF this] show "\<exists>s'. kalloc s = Inr (p, s') \<and> free_pages s' ps \<and> can_alloc n s' \<and>
    (\<forall>q. page_ok (kend s') q = page_ok (kend s) q)" by auto
next
  fix s :: "'a kmem_scheme" and p ps n
  assume "free_pages s ps" "can_alloc n s" "page_ok (kend s) p" "p \<notin> set ps"
  with kfree_pages [of s ps p] show "\<exists>s'. kfree p s = Inr s' \<and> free_pages s' (p # ps) \<and>
    (\<forall>q. page_ok (kend s') q = page_ok (kend s) q)" by (auto simp: can_alloc_def)
next
  fix s :: "'a kmem_scheme" and p ps
  assume "free_pages s ps"
  then show "distinct ps" by (simp add: free_pages_def)
  assume "p \<in> set ps"
  with \<open>free_pages s ps\<close> show "page_ok (kend s) p \<and> p \<noteq> 0"
    by (auto simp: free_pages_def list_all_iff dest: page_ok_nonzero)
qed

section \<open>Facts: the initial pool\<close>

definition page_at :: "u64 \<Rightarrow> nat \<Rightarrow> u64" where
  "page_at b i = b + of_nat (4096 * i)"

lemma unat_page_at: "unat b + 4096 * i < 2 ^ 64 \<Longrightarrow> unat (page_at b i) = unat b + 4096 * i"
proof -
  assume a: "unat b + 4096 * i < 2 ^ 64"
  then have "unat (of_nat (4096 * i) :: u64) = 4096 * i" by (intro unat_of_nat_u64) simp
  with a show ?thesis unfolding page_at_def by (simp only: unat_add_u64)
qed

lemma page_at_Suc: "page_at b i + PGSIZE = page_at b (Suc i)"
  by (simp add: page_at_def PGSIZE_def algebra_simps)

lemma page_ok_page_at:
  assumes "b mod PGSIZE = 0" and "kb \<le> b" and "unat b + 4096 * Suc i \<le> unat PHYSTOP"
  shows "page_ok kb (page_at b i)"
proof -
  have PH: "unat PHYSTOP < 2 ^ 32" by (simp add: PHYSTOP_def KERNBASE_def)
  then have u: "unat (page_at b i) = unat b + 4096 * i" using assms(3) by (intro unat_page_at) simp
  have "unat b mod 4096 = 0" using assms(1) by (simp add: unat_page_mod)
  then have "unat (page_at b i) mod 4096 = 0" unfolding u by simp
  then have "page_at b i mod PGSIZE = 0" by (simp only: unat_page_mod unat_eq_zero)
  with assms(2,3) u show ?thesis by (simp add: page_ok_def word_le_nat_alt word_less_nat_alt)
qed

lemma freerange_pool:
  assumes "b mod PGSIZE = 0" and "kend s \<le> b" and "n = (unat PHYSTOP - unat b) div 4096"
    and "b \<le> PHYSTOP" and "curproc s = None" and "LKmem \<notin> set (held s)"
    and "free_pages s (rev (map (page_at b) [0..<k]))" and "k + j = n"
  shows "\<exists>s'. freerange_loop j (page_at b k) PHYSTOP s = Inr s' \<and> kend s' = kend s \<and>
    free_pages s' (rev (map (page_at b) [0..<n])) \<and> held s' = held s"
  using assms(2,5-)
proof (induction j arbitrary: s k)
  case 0
  have PH: "unat PHYSTOP < 2 ^ 32" by (simp add: PHYSTOP_def KERNBASE_def)
  have kn: "k = n" using 0 by simp
  then have "unat b + 4096 * Suc k > unat PHYSTOP" and le: "unat b + 4096 * k \<le> unat PHYSTOP"
    using assms(3,4) by (auto simp: word_le_nat_alt)
  then have "\<not> page_at b (Suc k) \<le> PHYSTOP"
    using PH by (simp add: word_le_nat_alt unat_page_at)
  with 0 kn show ?case by (simp add: page_at_Suc)
next
  case (Suc j)
  have PH: "unat PHYSTOP < 2 ^ 32" by (simp add: PHYSTOP_def KERNBASE_def)
  have le: "unat b + 4096 * Suc k \<le> unat PHYSTOP" if "k < n" for k
  proof -
    have "4096 * Suc k \<le> 4096 * n" using that by simp
    also have "4096 * n \<le> unat PHYSTOP - unat b" using assms(3) by simp
    finally show ?thesis using assms(4) by (simp add: word_le_nat_alt)
  qed
  have kn: "k < n" using Suc.prems(5) by simp
  have ok: "page_ok (kend s) (page_at b k)"
    using page_ok_page_at [OF assms(1) Suc.prems(1) le [OF kn]] .
  have u: "unat (page_at b i) = unat b + 4096 * i" if "i \<le> k" for i
    using le [OF kn] PH that by (intro unat_page_at) simp
  have new: "page_at b k \<notin> set (rev (map (page_at b) [0..<k]))"
  proof
    assume "page_at b k \<in> set (rev (map (page_at b) [0..<k]))"
    then obtain i where "i < k" "page_at b k = page_at b i" by auto
    with u [of k] u [of i] show False by simp
  qed
  from kfree_pages [OF Suc.prems(4,3) ok new]
  obtain s1 where s1: "kfree (page_at b k) s = Inr s1" "free_pages s1 (page_at b k # rev (map (page_at b) [0..<k]))"
    "kend s1 = kend s" "held s1 = held s" by auto
  have "curproc s1 = None"
    using s1(1) kfree_eq [OF ok Suc.prems(3)] Suc.prems(2) by auto
  with Suc.IH [of s1 "Suc k"] s1 Suc.prems have "\<exists>s'. freerange_loop j (page_at b (Suc k)) PHYSTOP s1 = Inr s' \<and>
      kend s' = kend s \<and> free_pages s' (rev (map (page_at b) [0..<n])) \<and> held s' = held s" by simp
  moreover have "page_at b (Suc k) \<le> PHYSTOP"
    using le [OF kn] PH by (simp add: word_le_nat_alt unat_page_at)
  ultimately show ?case using s1(1) by (simp add: page_at_Suc)
qed

end
