(* ===== verification/Kallocprops.thy ===== *)
theory Kallocprops
  imports Kalloc
begin

text \<open>
  Properties of the page allocator (\<open>Kalloc\<close>): the initial pool, the
  discipline of the free list, and what happens when memory or a container's
  limit runs out.
\<close>

section \<open>A machine with three pages\<close>

text \<open>The kernel ends three pages before the top of memory; no process runs yet.\<close>

definition ex_kmem :: kmem where
  "ex_kmem = \<lparr>held = [], procs = replicate NPROC proc0, conts = replicate NCONT cont0, nextpid = 1,
     curproc = None, initproc = None, ticks = 0, mem = (\<lambda>_. 0), freelist = 0, kend = PHYSTOP - 3 * PGSIZE\<rparr>"

lemma ex_kmem_empty: "free_pages ex_kmem []" "can_alloc n ex_kmem"
  by (simp_all add: free_pages_def can_alloc_def ex_kmem_def PHYSTOP_def KERNBASE_def PGSIZE_def)

lemma ex_kmem_page: "page_ok (kend ex_kmem) (PHYSTOP - PGSIZE)"
  by (simp add: page_ok_def ex_kmem_def PHYSTOP_def KERNBASE_def PGSIZE_def)

section \<open>Properties\<close>

text \<open>
  C12: at boot \<open>kinit\<close> builds the free list of exactly the whole pages between
  the end of the kernel and the top of memory, each once: it terminates,
  never panics, and leaves every such page free.
\<close>

theorem kinit_frees_all:
  assumes "KERNBASE \<le> kend s" and "kend s \<le> PHYSTOP" and "freelist s = 0" and "curproc s = None"
    and "LKmem \<notin> set (held s)"
  shows "\<exists>s' ps. kinit s = Inr s' \<and> free_pages s' ps \<and> distinct ps \<and>
    length ps = (unat PHYSTOP - unat (PGROUNDUP (kend s))) div 4096 \<and>
    set ps = {p. page_ok (kend s) p}"
proof -
  let ?b = "PGROUNDUP (kend s)"
  let ?n = "(unat PHYSTOP - unat ?b) div 4096"
  let ?ps = "rev (map (page_at ?b) [0..<?n])"
  have PH: "unat PHYSTOP = 2281701376" by (simp add: PHYSTOP_def KERNBASE_def)
  have k: "unat (kend s) \<le> 2281701376" "unat (kend s) \<ge> 2147483648"
    using assms(1,2) PH by (simp_all add: word_le_nat_alt KERNBASE_def)
  then have b: "unat ?b = (unat (kend s) + 4095) div 4096 * 4096" by (intro unat_PGROUNDUP) simp
  let ?b' = "(unat (kend s) + 4095) div 4096"
  have kb: "kend s \<le> ?b" using b by (simp add: word_le_nat_alt)
  have bP: "?b \<le> PHYSTOP" using b k PH by (simp add: word_le_nat_alt)
  have "unat ?b mod 4096 = 0" using b by simp
  then have b0: "?b mod PGSIZE = 0" by (simp only: unat_page_mod unat_eq_zero)
  have "free_pages s []"
    using assms(3) k(2) by (simp add: free_pages_def word_less_nat_alt)
  then obtain s' where s': "freerange_loop ?n (page_at ?b 0) PHYSTOP s = Inr s'" "free_pages s' ?ps" "kend s' = kend s"
    using freerange_pool [OF b0 kb refl bP assms(4,5), of 0 ?n] by auto
  from unat_sub [OF bP] s'(1) have run: "kinit s = Inr s'" by (simp add: kinit_def freerange_def page_at_def)
  have "p \<in> set ?ps" if p: "page_ok (kend s) p" for p
  proof -
    from p have "unat p mod 4096 = 0" by (simp add: unat_page_mod page_ok_def)
    then obtain q where q: "unat p = 4096 * q" by (metis dvd_def mod_0_imp_dvd)
    have "unat (kend s) \<le> 4096 * q" "4096 * q < 2281701376"
      using p q PH by (simp_all add: page_ok_def word_le_nat_alt word_less_nat_alt)
    then have "?b' \<le> q" "q < 557056" by linarith+
    then have "q - ?b' < ?n" and u: "unat ?b + 4096 * (q - ?b') = unat p"
      using b q PH by simp_all
    moreover have "page_at ?b (q - ?b') = p"
      using u unat_less_2p64 [of p] by (metis unat_page_at word_unat_eq_iff)
    ultimately show ?thesis by force
  qed
  then have "set ?ps = {p. page_ok (kend s) p}"
    using s'(2,3) by (auto simp: free_pages_def list_all_iff)
  with run s'(2) show ?thesis by (intro exI [of _ s'] exI [of _ ?ps]) (simp add: free_pages_def)
qed

theorem kinit_frees_all_witness:
  "\<exists>s' ps. kinit ex_kmem = Inr s' \<and> free_pages s' ps \<and> length ps = 3"
proof -
  have "\<exists>s' ps. kinit ex_kmem = Inr s' \<and> free_pages s' ps \<and> distinct ps \<and>
    length ps = (unat PHYSTOP - unat (PGROUNDUP (kend ex_kmem))) div 4096 \<and>
    set ps = {p. page_ok (kend ex_kmem) p}"
    by (rule kinit_frees_all) (simp_all add: ex_kmem_def PHYSTOP_def KERNBASE_def PGSIZE_def)
  moreover have "(unat PHYSTOP - unat (PGROUNDUP (kend ex_kmem))) div 4096 = 3"
    by (simp add: ex_kmem_def PGROUNDUP_def PHYSTOP_def KERNBASE_def PGSIZE_def)
  ultimately show ?thesis by auto
qed

text \<open>
  C13: pages handed out by successive calls of \<open>kalloc\<close> are pairwise distinct,
  valid pages that leave the free list, as long as the list and the account
  of the running process's container last: no page is ever handed out twice.
\<close>

theorem kalloc_distinct:
  assumes "free_pages s (ps @ qs)" and "can_alloc (length ps) s"
  shows "\<exists>s'. ka.alloc_many (length ps) s = Inr (ps, s') \<and> free_pages s' qs \<and> distinct ps \<and>
    set ps \<inter> set qs = {} \<and> list_all (page_ok (kend s)) ps"
proof -
  from ka.alloc_many_distinct [OF assms] obtain s' where
    "ka.alloc_many (length ps) s = Inr (ps, s')" "free_pages s' qs" "distinct ps" "set ps \<inter> set qs = {}"
    by auto
  moreover have "list_all (page_ok (kend s)) ps" using assms(1) by (simp add: free_pages_def)
  ultimately show ?thesis by blast
qed

theorem kalloc_distinct_witness:
  "\<exists>s s'. kfree (PHYSTOP - PGSIZE) ex_kmem = Inr s \<and> ka.alloc_many 1 s = Inr ([PHYSTOP - PGSIZE], s')
    \<and> free_pages s' []"
proof -
  from kfree_pages [OF ex_kmem_empty(1) _ ex_kmem_page]
  obtain s where s: "kfree (PHYSTOP - PGSIZE) ex_kmem = Inr s" "free_pages s ([PHYSTOP - PGSIZE] @ [])"
    by (auto simp: ex_kmem_def)
  have "can_alloc (length [PHYSTOP - PGSIZE]) s"
    using s(1) kfree_eq [OF ex_kmem_page] by (simp add: ex_kmem_def can_alloc_def charge_def)
  from kalloc_distinct [OF s(2) this] s(1) show ?thesis by auto
qed

text \<open>
  C24: \<open>kfree\<close> of a page that is not free puts it at the head of the list, and
  the next \<open>kalloc\<close> that is not refused returns that page and restores the
  list.
\<close>

theorem kfree_kalloc:
  assumes "free_pages s ps" and "can_alloc n s" and "page_ok (kend s) p" and "p \<notin> set ps"
  shows "\<exists>s1. kfree p s = Inr s1 \<and> free_pages s1 (p # ps) \<and>
    (can_alloc 1 s1 \<longrightarrow> (\<exists>s2. kalloc s1 = Inr (p, s2) \<and> free_pages s2 ps))"
proof -
  from ka.dealloc_page [OF assms] obtain s1 where "kfree p s = Inr s1" "free_pages s1 (p # ps)" by auto
  moreover from this ka.dealloc_alloc [OF assms, of 0]
  have "can_alloc 1 s1 \<longrightarrow> (\<exists>s2. kalloc s1 = Inr (p, s2) \<and> free_pages s2 ps)" by auto
  ultimately show ?thesis by blast
qed

theorem kfree_kalloc_witness:
  "\<exists>s1. kfree (PHYSTOP - PGSIZE) ex_kmem = Inr s1 \<and> free_pages s1 [PHYSTOP - PGSIZE]"
  using kfree_kalloc [OF ex_kmem_empty(1) ex_kmem_empty(2) ex_kmem_page] by auto

text \<open>
  C29: when no page is free, \<open>kalloc\<close> returns null with the allocator's lock
  still held, so that the next \<open>kalloc\<close> and the next \<open>kfree\<close> of a valid page
  both panic.
\<close>

theorem kalloc_empty_keeps_lock:
  assumes "free_pages s []" and "can_alloc 1 s"
  shows "\<exists>s'. kalloc s = Inr (0, s') \<and> LKmem \<in> set (held s') \<and>
    kalloc s' = Inl (Panic ''acquire'') \<and> (page_ok (kend s) pa \<longrightarrow> kfree pa s' = Inl (Panic ''acquire''))"
proof -
  let ?t = "s\<lparr>held := LKmem # held s\<rparr>"
  from assms have f: "freelist s = 0" "LKmem \<notin> set (held s)" by (simp_all add: free_pages_def can_alloc_def)
  have ok: "\<not> fst (updatecontmem PGSIZE (p_cont (procs s ! p)) ?t) < 0" if "curproc s = Some p" for p
  proof -
    have "fst (updatecontmem PGSIZE (p_cont (procs s ! p)) ?t) = fst (updatecontmem PGSIZE (p_cont (procs s ! p)) s)"
      by (simp add: updatecontmem_def Let_def split: option.split)
    with can_alloc_not_refused [of 0 s p] assms(2) that show ?thesis by simp
  qed
  have run: "kalloc s = Inr (0, charge PGSIZE ?t)"
  proof (cases "curproc s")
    case None
    with f show ?thesis by (simp add: kalloc_def charge_def)
  next
    case (Some p)
    with ok f show ?thesis by (simp add: kalloc_def charge_def Let_def split: prod.split) force
  qed
  have "kfree pa (charge PGSIZE ?t) = Inl (Panic ''acquire'')" if "page_ok (kend s) pa"
    using that by (simp add: kfree_def page_ok_def not_less not_le)
  with run show ?thesis by (simp add: kalloc_def)
qed

theorem kalloc_empty_keeps_lock_witness:
  "\<exists>s'. kalloc ex_kmem = Inr (0, s') \<and> kalloc s' = Inl (Panic ''acquire'') \<and>
    kfree (PHYSTOP - PGSIZE) s' = Inl (Panic ''acquire'')"
  using kalloc_empty_keeps_lock [OF ex_kmem_empty(1) ex_kmem_empty(2), of "PHYSTOP - PGSIZE"] ex_kmem_page
  by auto

text \<open>
  C28: a \<open>kalloc\<close> that takes a non-root container over its memory limit takes
  a page off the free list and returns null: the page is lost, and the limit
  handler has freed the container's slot and marked its processes killed.  If
  the caller holds a process lock, as \<open>allocproc\<close> does, the handler panics
  instead.
\<close>

theorem kalloc_over_limit:
  assumes "free_pages s (q # ps)" and "curproc s = Some p" and "p_cont (procs s ! p) = Some c"
    and "c < NCONT" and "tables_ok s" and "names_sized s"
    and "c_isroot (conts s ! c) = 0" and "c_state (conts s ! c) \<noteq> CUNUSED"
    and "c_used_mem (conts s ! c) + PGSIZE > c_max_sz (conts s ! c)"
    and "LKmem \<notin> set (held s)" and "LCont c \<notin> set (held s)"
  shows "(no_proc_lock s \<longrightarrow> (\<exists>s'. kalloc s = Inr (0, s') \<and> free_pages s' ps \<and>
      c_state (conts s' ! c) = CUNUSED \<and> procs s' = map (stop_marks c) (procs s))) \<and>
    (\<forall>i<NPROC. LProc i \<in> set (held s) \<longrightarrow> kalloc s = Inl (Panic ''acquire''))"
proof -
  let ?t = "s\<lparr>freelist := load64 (mem s) q\<rparr>"
  from assms(1) have f: "freelist s = q" "q \<noteq> 0" "free_pages ?t ps" by (auto simp: free_pages_def)
  have "updatecontmem PGSIZE (Some c) ?t = (- 1, ?t)"
    using assms(7-9) by (simp add: updatecontmem_def Let_def)
  then have run: "kalloc s = bindE (climitexceedhandler c ?t) (\<lambda>s. Inr (0, s))"
    using f assms(2,3,10) by (simp add: kalloc_def Let_def)
  have len: "length (procs s) = NPROC" "length (conts s) = NCONT" using assms(5) by (simp_all add: tables_ok_def)
  have "\<exists>s'. kalloc s = Inr (0, s') \<and> free_pages s' ps \<and> c_state (conts s' ! c) = CUNUSED \<and>
      procs s' = map (stop_marks c) (procs s)" if "no_proc_lock s"
  proof -
    have "climitexceedhandler c ?t = Inr (upd_cont c cleared (?t\<lparr>procs := map (stop_marks c) (procs s)\<rparr>))"
      using assms len that by (subst climitexceedhandler_eq) (simp_all add: no_proc_lock_def names_sized_def)
    moreover have "free_pages (upd_cont c cleared (?t\<lparr>procs := map (stop_marks c) (procs s)\<rparr>)) ps"
      using f(3) by (simp add: free_pages_def)
    ultimately show ?thesis using run assms(4) len by (simp add: cleared_def)
  qed
  moreover have "kalloc s = Inl (Panic ''acquire'')" if "i < NPROC" "LProc i \<in> set (held s)" for i
    using run that assms(7,8) stopprocforcontainer_deadlock [of i "upd_cont c (\<lambda>x. x\<lparr>c_state := CSTOPPED\<rparr>) ?t" c]
    by (simp add: climitexceedhandler_def)
  ultimately show ?thesis by blast
qed

text \<open>A container at its limit, with one page free.\<close>

definition ex_full :: kmem where
  "ex_full = \<lparr>held = [], procs = replicate NPROC (proc0\<lparr>p_cont := Some 1\<rparr>),
     conts = [ex_root, ex_c1\<lparr>c_used_mem := 3276800\<rparr>] @ replicate 6 cont0, nextpid = 1, curproc = Some 0,
     initproc = None, ticks = 0, mem = (\<lambda>_. 0), freelist = PHYSTOP - PGSIZE, kend = PHYSTOP - 3 * PGSIZE\<rparr>"

theorem kalloc_over_limit_witness:
  "(\<exists>s'. kalloc ex_full = Inr (0, s') \<and> free_pages s' [] \<and> c_state (conts s' ! 1) = CUNUSED) \<and>
    kalloc (ex_full\<lparr>held := [LProc 5]\<rparr>) = Inl (Panic ''acquire'')"
proof -
  have free: "free_pages (ex_full\<lparr>held := h\<rparr>) [PHYSTOP - PGSIZE]" for h
    using load64_cong [of "\<lambda>_. 0" "PHYSTOP - PGSIZE" "store64 (\<lambda>_. 0) 0 0" 0]
    by (simp add: free_pages_def ex_full_def page_ok_def PHYSTOP_def KERNBASE_def PGSIZE_def store64_apply)
  have side: "curproc (ex_full\<lparr>held := h\<rparr>) = Some 0" "p_cont (procs (ex_full\<lparr>held := h\<rparr>) ! 0) = Some 1"
    "1 < NCONT" "tables_ok (ex_full\<lparr>held := h\<rparr>)" "names_sized (ex_full\<lparr>held := h\<rparr>)"
    "c_isroot (conts (ex_full\<lparr>held := h\<rparr>) ! 1) = 0" "c_state (conts (ex_full\<lparr>held := h\<rparr>) ! 1) \<noteq> CUNUSED"
    "c_used_mem (conts (ex_full\<lparr>held := h\<rparr>) ! 1) + PGSIZE > c_max_sz (conts (ex_full\<lparr>held := h\<rparr>) ! 1)" for h
    by (simp_all add: ex_full_def NPROC_def NCONT_def tables_ok_def names_sized_def ex_root_def ex_c1_def
        cont0_def lit_def PGSIZE_def)
  have "\<exists>s'. kalloc (ex_full\<lparr>held := []\<rparr>) = Inr (0, s') \<and> free_pages s' [] \<and> c_state (conts s' ! 1) = CUNUSED"
    using kalloc_over_limit [OF free side, of "[]"] by (auto simp: no_proc_lock_def)
  moreover have "kalloc (ex_full\<lparr>held := [LProc 5]\<rparr>) = Inl (Panic ''acquire'')"
    using kalloc_over_limit [OF free side, of "[LProc 5]"] by (auto simp: NPROC_def)
  moreover have "ex_full\<lparr>held := []\<rparr> = ex_full" by (simp add: ex_full_def)
  ultimately show ?thesis by simp
qed

end
