(* ===== verification/Bio.thy ===== *)
theory Bio
  imports Kalloc Proctab
begin

text \<open>
  Sleep locks (\<open>kernel/sleeplock.c\<close>) and the buffer cache (\<open>kernel/bio.c\<close>).

  The buffers are numbered from 0; number \<open>NBUF\<close> is the list head
  \<open>bcache.head\<close>.  The \<open>next\<close> and \<open>prev\<close> fields of all nodes are kept as two
  functions.  A sleep lock is known by the object it is embedded in.

  A disk transfer is atomic: \<open>virtio_disk_rw\<close> returns when the device has
  copied the block.  The block number alone selects the block, as in the
  driver.  \<open>writes\<close> records the blocks written so far, oldest first; it is
  what a crash cuts short.
\<close>

section \<open>State\<close>

definition NBUF :: nat where "NBUF = 30"

type_synonym block = "u8 list"

record sleeplock =
  sl_locked :: bool
  sl_pid :: int

record buf =
  b_valid :: bool
  b_dev :: u32
  b_blockno :: u32
  b_refcnt :: u32
  b_data :: block

record bio = kmem +
  bufs :: "buf list"
  bnext :: "nat \<Rightarrow> nat"
  bprev :: "nat \<Rightarrow> nat"
  slocks :: "sleepid \<Rightarrow> sleeplock"
  disk :: "u32 \<Rightarrow> block"
  writes :: "(u32 \<times> block) list"

definition buf0 :: buf where
  "buf0 = \<lparr>b_valid = False, b_dev = 0, b_blockno = 0, b_refcnt = 0, b_data = replicate BSIZE 0\<rparr>"

definition upd_buf :: "nat \<Rightarrow> (buf \<Rightarrow> buf) \<Rightarrow> 'a bio_scheme \<Rightarrow> 'a bio_scheme" where
  "upd_buf i f s = s\<lparr>bufs := (bufs s)[i := f (bufs s ! i)]\<rparr>"

section \<open>Sleep locks\<close>

definition initsleeplock :: "sleepid \<Rightarrow> 'a bio_scheme \<Rightarrow> 'a bio_scheme" where
  "initsleeplock lk s = s\<lparr>slocks := (slocks s)(lk := \<lparr>sl_locked = False, sl_pid = 0\<rparr>)\<rparr>"

text \<open>\<open>myproc()->pid\<close>\<close>

definition mypid :: "'a ktab_scheme \<Rightarrow> int kres" where
  "mypid s = (case curproc s of None \<Rightarrow> Inl Fault | Some p \<Rightarrow> Inr (p_pid (procs s ! p)))"

definition acquiresleep :: "sleepid \<Rightarrow> 'a bio_scheme \<Rightarrow> 'a bio_scheme kres" where
  "acquiresleep lk s =
     bindE (acquire (LSleep lk) s) (\<lambda>s.
     if sl_locked (slocks s lk) then Inl (Sleeps (ChSleeplock lk))
     else
       bindE (mypid s) (\<lambda>pid.
       let s = s\<lparr>slocks := (slocks s)(lk := \<lparr>sl_locked = True, sl_pid = pid\<rparr>)\<rparr> in
       release (LSleep lk) s))"

definition releasesleep :: "sleepid \<Rightarrow> 'a bio_scheme \<Rightarrow> 'a bio_scheme kres" where
  "releasesleep lk s =
     bindE (acquire (LSleep lk) s) (\<lambda>s.
     let s = s\<lparr>slocks := (slocks s)(lk := \<lparr>sl_locked = False, sl_pid = 0\<rparr>)\<rparr> in
     bindE (wakeup (ChSleeplock lk) s) (\<lambda>s.
     release (LSleep lk) s))"

definition holdingsleep :: "sleepid \<Rightarrow> 'a bio_scheme \<Rightarrow> (bool \<times> 'a bio_scheme) kres" where
  "holdingsleep lk s =
     bindE (acquire (LSleep lk) s) (\<lambda>s.
     bindE (if sl_locked (slocks s lk) then bindE (mypid s) (\<lambda>pid. Inr (sl_pid (slocks s lk) = pid))
            else Inr False) (\<lambda>r.
     bindE (release (LSleep lk) s) (\<lambda>s. Inr (r, s))))"

section \<open>The cache\<close>

definition virtio_disk_rw :: "nat \<Rightarrow> bool \<Rightarrow> 'a bio_scheme \<Rightarrow> 'a bio_scheme" where
  "virtio_disk_rw b write s =
     (let n = b_blockno (bufs s ! b) in
      if write then s\<lparr>disk := (disk s)(n := b_data (bufs s ! b)),
                      writes := writes s @ [(n, b_data (bufs s ! b))]\<rparr>
      else upd_buf b (\<lambda>x. x\<lparr>b_data := disk s n\<rparr>) s)"

text \<open>Insert node \<open>b\<close> right after the head.\<close>

definition link_front :: "nat \<Rightarrow> 'a bio_scheme \<Rightarrow> 'a bio_scheme" where
  "link_front b s =
     (let s = s\<lparr>bnext := (bnext s)(b := bnext s NBUF)\<rparr>;
          s = s\<lparr>bprev := (bprev s)(b := NBUF)\<rparr>;
          s = s\<lparr>bprev := (bprev s)(bnext s NBUF := b)\<rparr> in
      s\<lparr>bnext := (bnext s)(NBUF := b)\<rparr>)"

definition binit :: "'a bio_scheme \<Rightarrow> 'a bio_scheme" where
  "binit s =
     (let s = s\<lparr>bprev := (bprev s)(NBUF := NBUF), bnext := (bnext s)(NBUF := NBUF)\<rparr> in
      fold (\<lambda>b s. initsleeplock (SlBuf b) (link_front b s)) [0..<NBUF] s)"

text \<open>Follow the links from \<open>b\<close> to the first buffer that qualifies, or to the head.\<close>

fun bscan :: "nat \<Rightarrow> (nat \<Rightarrow> nat) \<Rightarrow> (nat \<Rightarrow> bool) \<Rightarrow> nat \<Rightarrow> nat option kres" where
  "bscan 0 nxt P b = Inl Spins"
| "bscan (Suc fuel) nxt P b =
     (if b = NBUF then Inr None else if P b then Inr (Some b) else bscan fuel nxt P (nxt b))"

definition bget :: "u32 \<Rightarrow> u32 \<Rightarrow> 'a bio_scheme \<Rightarrow> (nat \<times> 'a bio_scheme) kres" where
  "bget dev blockno s =
     bindE (acquire LBcache s) (\<lambda>s.
     bindE (bscan (NBUF + 1) (bnext s)
         (\<lambda>b. b_dev (bufs s ! b) = dev \<and> b_blockno (bufs s ! b) = blockno) (bnext s NBUF)) (\<lambda>r.
     case r of
       Some b \<Rightarrow>
         (let s = upd_buf b (\<lambda>x. x\<lparr>b_refcnt := b_refcnt x + 1\<rparr>) s in
          bindE (release LBcache s) (\<lambda>s.
          bindE (acquiresleep (SlBuf b) s) (\<lambda>s. Inr (b, s))))
     | None \<Rightarrow>
         bindE (bscan (NBUF + 1) (bprev s) (\<lambda>b. b_refcnt (bufs s ! b) = 0) (bprev s NBUF)) (\<lambda>r.
         case r of
           Some b \<Rightarrow>
             (let s = upd_buf b (\<lambda>x. x\<lparr>b_dev := dev, b_blockno := blockno, b_valid := False, b_refcnt := 1\<rparr>) s in
              bindE (release LBcache s) (\<lambda>s.
              bindE (acquiresleep (SlBuf b) s) (\<lambda>s. Inr (b, s))))
         | None \<Rightarrow> Inl (Panic ''bget: no buffers''))))"

definition bread :: "u32 \<Rightarrow> u32 \<Rightarrow> 'a bio_scheme \<Rightarrow> (nat \<times> 'a bio_scheme) kres" where
  "bread dev blockno s =
     bindE (bget dev blockno s) (\<lambda>(b, s).
     if \<not> b_valid (bufs s ! b) then
       let s = virtio_disk_rw b False s in
       Inr (b, upd_buf b (\<lambda>x. x\<lparr>b_valid := True\<rparr>) s)
     else Inr (b, s))"

definition bwrite :: "nat \<Rightarrow> 'a bio_scheme \<Rightarrow> 'a bio_scheme kres" where
  "bwrite b s =
     bindE (holdingsleep (SlBuf b) s) (\<lambda>(r, s).
     if \<not> r then Inl (Panic ''bwrite'') else Inr (virtio_disk_rw b True s))"

definition brelse :: "nat \<Rightarrow> 'a bio_scheme \<Rightarrow> 'a bio_scheme kres" where
  "brelse b s =
     bindE (holdingsleep (SlBuf b) s) (\<lambda>(r, s).
     if \<not> r then Inl (Panic ''brelse'') else
     bindE (releasesleep (SlBuf b) s) (\<lambda>s.
     bindE (acquire LBcache s) (\<lambda>s.
     let s = upd_buf b (\<lambda>x. x\<lparr>b_refcnt := b_refcnt x - 1\<rparr>) s;
         s = (if b_refcnt (bufs s ! b) = 0 then
                let s = s\<lparr>bprev := (bprev s)(bnext s b := bprev s b)\<rparr>;
                    s = s\<lparr>bnext := (bnext s)(bprev s b := bnext s b)\<rparr> in
                link_front b s
              else s) in
     release LBcache s)))"

definition bpin :: "nat \<Rightarrow> 'a bio_scheme \<Rightarrow> 'a bio_scheme kres" where
  "bpin b s =
     bindE (acquire LBcache s) (\<lambda>s.
     release LBcache (upd_buf b (\<lambda>x. x\<lparr>b_refcnt := b_refcnt x + 1\<rparr>) s))"

definition bunpin :: "nat \<Rightarrow> 'a bio_scheme \<Rightarrow> 'a bio_scheme kres" where
  "bunpin b s =
     bindE (acquire LBcache s) (\<lambda>s.
     release LBcache (upd_buf b (\<lambda>x. x\<lparr>b_refcnt := b_refcnt x - 1\<rparr>) s))"

section \<open>Facts: the circular list\<close>

text \<open>\<open>linked nx pv xs\<close>: each node of \<open>xs\<close> points forward to the next one, which points back.\<close>

fun linked :: "(nat \<Rightarrow> nat) \<Rightarrow> (nat \<Rightarrow> nat) \<Rightarrow> nat list \<Rightarrow> bool" where
  "linked nx pv [] = True"
| "linked nx pv [a] = True"
| "linked nx pv (a # b # xs) \<longleftrightarrow> nx a = b \<and> pv b = a \<and> linked nx pv (b # xs)"

text \<open>The buffers in the order of the list, from the most recently used.\<close>

definition dll :: "'a bio_scheme \<Rightarrow> nat list \<Rightarrow> bool" where
  "dll s ord \<longleftrightarrow> linked (bnext s) (bprev s) (NBUF # ord @ [NBUF]) \<and> distinct ord \<and> set ord = {0..<NBUF}"

lemma linked_append: "linked nx pv (xs @ a # ys) \<longleftrightarrow> linked nx pv (xs @ [a]) \<and> linked nx pv (a # ys)"
  by (induction nx pv xs rule: linked.induct) (cases ys; auto)+

lemma linked_append2:
  "linked nx pv (xs @ a # b # ys) \<longleftrightarrow> linked nx pv (xs @ [a]) \<and> nx a = b \<and> pv b = a \<and> linked nx pv (b # ys)"
  by (subst linked_append) auto

lemma linked_Cons_append:
  "xs \<noteq> [] \<Longrightarrow> linked nx pv (a # xs) \<longleftrightarrow> nx a = hd xs \<and> pv (hd xs) = a \<and> linked nx pv xs"
  by (cases xs) auto

lemma linked_cong:
  "(\<And>a. a \<in> set (butlast xs) \<Longrightarrow> nx' a = nx a) \<Longrightarrow> (\<And>b. b \<in> set (tl xs) \<Longrightarrow> pv' b = pv b) \<Longrightarrow>
    linked nx' pv' xs = linked nx pv xs"
  by (induction nx pv xs rule: linked.induct) auto

lemma linked_rev: "linked nx pv (rev xs) = linked pv nx xs"
  by (induction pv nx xs rule: linked.induct) (auto simp: linked_append2)

lemma bscan_find:
  assumes "linked nx pv (xs @ [NBUF])" and "NBUF \<notin> set xs" and "length xs < fuel"
  shows "bscan fuel nx P (hd (xs @ [NBUF])) = Inr (List.find P xs)"
  using assms
proof (induction xs arbitrary: fuel)
  case Nil
  then show ?case by (cases fuel) auto
next
  case (Cons x xs)
  from Cons.prems have "nx x = hd (xs @ [NBUF])" "linked nx pv (xs @ [NBUF])"
    by (simp_all add: linked_Cons_append)
  with Cons show ?case by (cases fuel) auto
qed

lemma bscan_next:
  assumes "dll s ord"
  shows "bscan (Suc NBUF) (bnext s) P (bnext s NBUF) = Inr (List.find P ord)"
proof -
  from assms have l: "linked (bnext s) (bprev s) (ord @ [NBUF])" "bnext s NBUF = hd (ord @ [NBUF])"
    and "distinct ord" "set ord = {0..<NBUF}" by (simp_all add: dll_def linked_Cons_append)
  then have "length ord = NBUF" by (metis card_atLeastLessThan diff_zero distinct_card)
  with l \<open>set ord = _\<close> bscan_find [OF l(1), of "Suc NBUF" P] show ?thesis by simp
qed

lemma bscan_prev:
  assumes "dll s ord"
  shows "bscan (Suc NBUF) (bprev s) P (bprev s NBUF) = Inr (List.find P (rev ord))"
proof -
  from assms have "linked (bprev s) (bnext s) (rev (NBUF # ord @ [NBUF]))" by (simp only: linked_rev dll_def)
  then have l: "linked (bprev s) (bnext s) (rev ord @ [NBUF])" "bprev s NBUF = hd (rev ord @ [NBUF])"
    by (simp_all add: linked_Cons_append)
  from assms have "distinct ord" "set ord = {0..<NBUF}" by (simp_all add: dll_def)
  then have "length ord = NBUF" by (metis card_atLeastLessThan diff_zero distinct_card)
  with l \<open>set ord = _\<close> bscan_find [OF l(1), of "Suc NBUF" P] show ?thesis by simp
qed

declare bscan.simps [simp del]

lemma held_idem: "held s = [] \<Longrightarrow> s\<lparr>held := []\<rparr> = s"
  by simp

lemma linked_unlink_gen:
  assumes "linked nx pv (xs @ a # i # b # ys)" and "a \<notin> set xs" and "a \<notin> set (butlast (b # ys))"
    and "b \<notin> set ys" and "b \<notin> set (tl (xs @ [a]))"
  shows "linked (nx(pv i := nx i)) (pv(nx i := pv i)) (xs @ a # b # ys)"
proof -
  from assms(1) have l: "linked nx pv (xs @ [a])" "linked nx pv (b # ys)" and i: "pv i = a" "nx i = b"
    by (simp_all add: linked_append2)
  have "linked (nx(a := b)) (pv(b := a)) (xs @ [a])"
    using l(1) assms(2,5) by (subst linked_cong [where nx = nx and pv = pv]) auto
  moreover have "linked (nx(a := b)) (pv(b := a)) (b # ys)"
    using l(2) assms(3,4) by (subst linked_cong [where nx = nx and pv = pv]) auto
  ultimately show ?thesis by (simp add: linked_append2 i)
qed

lemma linked_unlink:
  assumes "linked nx pv (h # us @ i # vs @ [h])" and "distinct (us @ i # vs)" and "h \<notin> set (us @ i # vs)"
  shows "linked (nx(pv i := nx i)) (pv(nx i := pv i)) (h # us @ vs @ [h])"
proof (cases us rule: rev_cases)
  case Nil
  show ?thesis
  proof (cases vs)
    case Nil
    with \<open>us = []\<close> linked_unlink_gen [of nx pv "[]" h i h "[]"] assms show ?thesis by simp
  next
    case (Cons b ys)
    with \<open>us = []\<close> linked_unlink_gen [of nx pv "[]" h i b "ys @ [h]"] assms show ?thesis by simp
  qed
next
  case (snoc xs a)
  show ?thesis
  proof (cases vs)
    case Nil
    with snoc linked_unlink_gen [of nx pv "h # xs" a i h "[]"] assms show ?thesis by simp
  next
    case (Cons b ys)
    with snoc linked_unlink_gen [of nx pv "h # xs" a i b "ys @ [h]"] assms show ?thesis by simp
  qed
qed

lemma linked_front:
  assumes "linked nx pv (h # xs @ [h])" and "i \<notin> set xs" and "i \<noteq> h" and "distinct xs" and "h \<notin> set xs"
  shows "linked (nx(i := nx h, h := i)) (pv(i := h, nx h := i)) (h # i # xs @ [h])"
proof -
  from assms(1) have l: "linked nx pv (xs @ [h])" and h: "nx h = hd (xs @ [h])"
    by (simp_all add: linked_Cons_append)
  have "linked (nx(i := nx h, h := i)) (pv(i := h, nx h := i)) (xs @ [h])"
    using l assms(2-5) unfolding h
    by (subst linked_cong [where nx = nx and pv = pv]) (auto simp: hd_append tl_append split: list.splits if_splits)
  moreover have "i \<noteq> hd (xs @ [h])" using assms(2,3) by (cases xs) auto
  ultimately show ?thesis using assms(3) h by (simp add: linked_Cons_append)
qed

lemma link_front_simps [simp]:
  "bufs (link_front b s) = bufs s" "slocks (link_front b s) = slocks s" "disk (link_front b s) = disk s"
  "writes (link_front b s) = writes s" "held (link_front b s) = held s" "procs (link_front b s) = procs s"
  "curproc (link_front b s) = curproc s" "conts (link_front b s) = conts s"
  by (simp_all add: link_front_def Let_def)

text \<open>The move to the front in \<open>brelse\<close>.\<close>

definition move_front :: "nat \<Rightarrow> 'a bio_scheme \<Rightarrow> 'a bio_scheme" where
  "move_front b s =
     (let s = s\<lparr>bprev := (bprev s)(bnext s b := bprev s b)\<rparr>;
          s = s\<lparr>bnext := (bnext s)(bprev s b := bnext s b)\<rparr> in link_front b s)"

lemma move_front_dll:
  assumes "dll s ord" and "b < NBUF"
  shows "dll (move_front b s) (b # remove1 b ord)"
proof -
  from assms have l: "linked (bnext s) (bprev s) (NBUF # ord @ [NBUF])" and d: "distinct ord"
    and set: "set ord = {0..<NBUF}" by (simp_all add: dll_def)
  from set assms(2) obtain us vs where ord: "ord = us @ b # vs" by (metis atLeastLessThan_iff in_set_conv_decomp zero_le)
  then have r: "remove1 b ord = us @ vs" using d by (simp add: remove1_append)
  have h: "NBUF \<notin> set (us @ b # vs)" using set ord by auto
  have ne: "bnext s b \<noteq> b"
    using l d h linked_append [of "bnext s" "bprev s" "NBUF # us" b "vs @ [NBUF]"] unfolding ord
    by (cases vs) auto
  let ?nx = "(bnext s)(bprev s b := bnext s b)" and ?pv = "(bprev s)(bnext s b := bprev s b)"
  have "linked ?nx ?pv (NBUF # us @ vs @ [NBUF])"
    using l d h unfolding ord by (intro linked_unlink) simp_all
  then have "linked (?nx(b := ?nx NBUF, NBUF := b)) (?pv(b := NBUF, ?nx NBUF := b)) (NBUF # b # (us @ vs) @ [NBUF])"
    using d h ord by (intro linked_front) auto
  moreover have "bnext (move_front b s) = ?nx(b := ?nx NBUF, NBUF := b)"
    "bprev (move_front b s) = ?pv(b := NBUF, ?nx NBUF := b)"
    using ne assms(2) by (simp_all add: move_front_def link_front_def Let_def del: fun_upd_apply)
      (simp_all add: fun_eq_iff)
  ultimately have "linked (bnext (move_front b s)) (bprev (move_front b s)) (NBUF # b # (us @ vs) @ [NBUF])"
    by simp
  moreover have "distinct (b # us @ vs)" "set (b # us @ vs) = {0..<NBUF}" using d set ord by auto
  ultimately show ?thesis unfolding r dll_def by simp
qed

section \<open>Facts: sleep locks\<close>

text \<open>A process is running in the kernel and holds no spin lock.\<close>

definition calm :: "'a ktab_scheme \<Rightarrow> bool" where
  "calm s \<longleftrightarrow> held s = [] \<and> length (procs s) = NPROC \<and> (\<exists>p<NPROC. curproc s = Some p)"

definition the_pid :: "'a ktab_scheme \<Rightarrow> int" where
  "the_pid s = p_pid (procs s ! the (curproc s))"

lemma mypid_calm [simp]: "calm s \<Longrightarrow> mypid s = Inr (the_pid s)"
  by (auto simp: calm_def mypid_def the_pid_def)

lemma calm_upd [simp]:
  "calm (s\<lparr>slocks := x\<rparr>) = calm s" "calm (s\<lparr>bufs := y\<rparr>) = calm s" "calm (upd_buf b f s) = calm s"
  "the_pid (s\<lparr>slocks := x\<rparr>) = the_pid s" "the_pid (s\<lparr>bufs := y\<rparr>) = the_pid s" "the_pid (upd_buf b f s) = the_pid s"
  "the_pid (s\<lparr>held := h\<rparr>) = the_pid s"
  by (simp_all add: calm_def the_pid_def upd_buf_def)

lemma wake_mark_pid [simp]: "p_pid (wake_mark ch x) = p_pid x"
  by (simp add: wake_mark_def)

definition woken :: "chan \<Rightarrow> 'a ktab_scheme \<Rightarrow> 'a ktab_scheme" where
  "woken ch s = s\<lparr>procs := map (wake_mark ch) (procs s)\<rparr>"

lemma woken_calm [simp]:
  "calm s \<Longrightarrow> calm (woken ch s)" "calm s \<Longrightarrow> the_pid (woken ch s) = the_pid s"
  by (auto simp: calm_def the_pid_def woken_def)

lemma acquiresleep_eq [kernel_simps]:
  "calm s \<Longrightarrow> \<not> sl_locked (slocks s lk) \<Longrightarrow>
    acquiresleep lk s = Inr (s\<lparr>slocks := (slocks s)(lk := \<lparr>sl_locked = True, sl_pid = the_pid s\<rparr>)\<rparr>)"
  by (auto simp: acquiresleep_def calm_def mypid_def the_pid_def)

lemma acquiresleep_busy [kernel_simps]:
  "calm s \<Longrightarrow> sl_locked (slocks s lk) \<Longrightarrow> acquiresleep lk s = Inl (Sleeps (ChSleeplock lk))"
  by (auto simp: acquiresleep_def calm_def)

lemma releasesleep_eq [kernel_simps]:
  "calm s \<Longrightarrow> releasesleep lk s =
    Inr (woken (ChSleeplock lk) (s\<lparr>slocks := (slocks s)(lk := \<lparr>sl_locked = False, sl_pid = 0\<rparr>)\<rparr>))"
  by (auto simp: releasesleep_def calm_def wakeup_eq no_proc_lock_def woken_def)

lemma holdingsleep_eq [kernel_simps]:
  "calm s \<Longrightarrow> holdingsleep lk s =
    Inr (sl_locked (slocks s lk) \<and> sl_pid (slocks s lk) = the_pid s, s)"
  by (auto simp: holdingsleep_def calm_def mypid_def the_pid_def)

section \<open>Facts: initialisation\<close>

lemma link_front_linked:
  assumes "linked (bnext s) (bprev s) (NBUF # xs @ [NBUF])" and "b \<notin> set xs" and "b \<noteq> NBUF"
    and "distinct xs" and "NBUF \<notin> set xs"
  shows "linked (bnext (link_front b s)) (bprev (link_front b s)) (NBUF # b # xs @ [NBUF])"
proof -
  have "bnext (link_front b s) = (bnext s)(b := bnext s NBUF, NBUF := b)"
    "bprev (link_front b s) = (bprev s)(b := NBUF, bnext s NBUF := b)"
    using assms(3) by (simp_all add: link_front_def Let_def)
  with linked_front [OF assms(1-5)] show ?thesis by simp
qed

lemma binit_dll: "dll (binit s) (rev [0..<NBUF])"
proof -
  define s0 where "s0 = s\<lparr>bprev := (bprev s)(NBUF := NBUF), bnext := (bnext s)(NBUF := NBUF)\<rparr>"
  let ?f = "\<lambda>b s. initsleeplock (SlBuf b) (link_front b s)"
  have "linked (bnext (fold ?f [0..<k] s0)) (bprev (fold ?f [0..<k] s0)) (NBUF # rev [0..<k] @ [NBUF])"
    if "k \<le> NBUF" for k
    using that
  proof (induction k)
    case (Suc k)
    then have "linked (bnext (link_front k (fold ?f [0..<k] s0))) (bprev (link_front k (fold ?f [0..<k] s0)))
        (NBUF # k # rev [0..<k] @ [NBUF])"
      by (intro link_front_linked) auto
    then show ?case by (simp add: initsleeplock_def)
  qed (simp add: s0_def)
  from this [of NBUF] show ?thesis by (auto simp: dll_def binit_def Let_def s0_def)
qed

end
