(* ===== verification/Bcache.thy ===== *)
theory Bcache
  imports Bio
begin

text \<open>
  What the buffer cache promises its clients, and the proof that the LRU
  cache of \<open>Bio\<close> keeps the promise.

  To a client the cache is a store of blocks: the current contents of every
  block, how many references each block has, which blocks are locked, what is
  on disk and what has been written to it.  Which buffer holds a block, and
  in which order buffers are recycled, does not show.
\<close>

section \<open>The abstract store\<close>

record bview =
  vdata :: "u32 \<Rightarrow> block"
  vrefs :: "u32 \<Rightarrow> u32"
  vlkd :: "u32 \<Rightarrow> bool"
  vdisk :: "u32 \<Rightarrow> block"
  vtrace :: "(u32 \<times> block) list"

definition v_read :: "u32 \<Rightarrow> bview \<Rightarrow> bview" where
  "v_read n v = v\<lparr>vrefs := (vrefs v)(n := vrefs v n + 1), vlkd := (vlkd v)(n := True)\<rparr>"

definition v_put :: "u32 \<Rightarrow> block \<Rightarrow> bview \<Rightarrow> bview" where
  "v_put n x v = v\<lparr>vdata := (vdata v)(n := x)\<rparr>"

definition v_write :: "u32 \<Rightarrow> bview \<Rightarrow> bview" where
  "v_write n v = v\<lparr>vdisk := (vdisk v)(n := vdata v n), vtrace := vtrace v @ [(n, vdata v n)]\<rparr>"

definition v_rel :: "u32 \<Rightarrow> bview \<Rightarrow> bview" where
  "v_rel n v = v\<lparr>vrefs := (vrefs v)(n := vrefs v n - 1), vlkd := (vlkd v)(n := False)\<rparr>"

definition v_pin :: "u32 \<Rightarrow> bview \<Rightarrow> bview" where
  "v_pin n v = v\<lparr>vrefs := (vrefs v)(n := vrefs v n + 1)\<rparr>"

definition v_unpin :: "u32 \<Rightarrow> bview \<Rightarrow> bview" where
  "v_unpin n v = v\<lparr>vrefs := (vrefs v)(n := vrefs v n - 1)\<rparr>"

text \<open>A block without references is unlocked and clean: its buffer may be recycled.\<close>

definition tidy :: "bview \<Rightarrow> bool" where
  "tidy v \<longleftrightarrow> (\<forall>m. vrefs v m = 0 \<longrightarrow> vdata v m = vdisk v m \<and> \<not> vlkd v m)"

text \<open>Block \<open>n\<close> can be read: it is not locked, and there is a buffer for it.\<close>

definition room :: "bview \<Rightarrow> u32 \<Rightarrow> bool" where
  "room v n \<longleftrightarrow> tidy v \<and> \<not> vlkd v n \<and> vrefs v n + 1 \<noteq> 0 \<and>
     (vrefs v n \<noteq> 0 \<or> card {m. vrefs v m \<noteq> 0} < NBUF)"

lemmas v_defs = v_read_def v_put_def v_write_def v_rel_def v_pin_def v_unpin_def

section \<open>The contract\<close>

text \<open>
  \<open>inv\<close> is the cache's own invariant, \<open>abs\<close> the store a state stands for,
  \<open>frm\<close> everything of the state the cache does not own, and \<open>holds s b n\<close> says
  that the caller has buffer \<open>b\<close> locked and that it contains block \<open>n\<close>.
\<close>

locale block_cache =
  fixes inv :: "'s \<Rightarrow> bool"
    and abs :: "'s \<Rightarrow> bview"
    and frm :: "'s \<Rightarrow> 'f"
    and holds :: "'s \<Rightarrow> nat \<Rightarrow> u32 \<Rightarrow> bool"
    and read :: "u32 \<Rightarrow> 's \<Rightarrow> (nat \<times> 's) kres"
    and get :: "nat \<Rightarrow> 's \<Rightarrow> block"
    and put :: "nat \<Rightarrow> block \<Rightarrow> 's \<Rightarrow> 's"
    and wr :: "nat \<Rightarrow> 's \<Rightarrow> 's kres"
    and rel :: "nat \<Rightarrow> 's \<Rightarrow> 's kres"
    and pin :: "nat \<Rightarrow> 's \<Rightarrow> 's kres"
    and unpin :: "nat \<Rightarrow> 's \<Rightarrow> 's kres"
  assumes read_law: "inv s \<Longrightarrow> room (abs s) n \<Longrightarrow>
      \<exists>b s'. read n s = Inr (b, s') \<and> inv s' \<and> abs s' = v_read n (abs s) \<and> frm s' = frm s \<and>
        holds s' b n \<and> (\<forall>c m. holds s c m \<longrightarrow> holds s' c m)"
    and get_law: "inv s \<Longrightarrow> holds s b n \<Longrightarrow> get b s = vdata (abs s) n"
    and put_law: "inv s \<Longrightarrow> holds s b n \<Longrightarrow> length x = BSIZE \<Longrightarrow>
      inv (put b x s) \<and> abs (put b x s) = v_put n x (abs s) \<and> frm (put b x s) = frm s \<and>
        (\<forall>c m. holds s c m \<longrightarrow> holds (put b x s) c m)"
    and wr_law: "inv s \<Longrightarrow> holds s b n \<Longrightarrow>
      \<exists>s'. wr b s = Inr s' \<and> inv s' \<and> abs s' = v_write n (abs s) \<and> frm s' = frm s \<and>
        (\<forall>c m. holds s c m \<longrightarrow> holds s' c m)"
    and rel_law: "inv s \<Longrightarrow> holds s b n \<Longrightarrow>
      \<exists>s'. rel b s = Inr s' \<and> inv s' \<and> abs s' = v_rel n (abs s) \<and> frm s' = frm s \<and>
        (\<forall>c m. m \<noteq> n \<longrightarrow> holds s c m \<longrightarrow> holds s' c m)"
    and pin_law: "inv s \<Longrightarrow> holds s b n \<Longrightarrow>
      \<exists>s'. pin b s = Inr s' \<and> inv s' \<and> abs s' = v_pin n (abs s) \<and> frm s' = frm s \<and>
        (\<forall>c m. holds s c m \<longrightarrow> holds s' c m)"
    and unpin_law: "inv s \<Longrightarrow> holds s b n \<Longrightarrow>
      \<exists>s'. unpin b s = Inr s' \<and> inv s' \<and> abs s' = v_unpin n (abs s) \<and> frm s' = frm s \<and>
        (\<forall>c m. holds s c m \<longrightarrow> holds s' c m)"
    and size_law: "inv s \<Longrightarrow> length (vdata (abs s) n) = BSIZE"
begin

text \<open>Read a block and give it back.\<close>

lemma read_rel:
  assumes "inv s" and "room (abs s) n"
  shows "\<exists>b s1 s2. read n s = Inr (b, s1) \<and> get b s1 = vdata (abs s) n \<and> rel b s1 = Inr s2 \<and>
    inv s2 \<and> abs s2 = abs s \<and> frm s2 = frm s"
proof -
  from read_law [OF assms] obtain b s1 where 1: "read n s = Inr (b, s1)" "inv s1" "abs s1 = v_read n (abs s)"
    "frm s1 = frm s" "holds s1 b n" by auto
  from rel_law [OF 1(2,5)] obtain s2 where 2: "rel b s1 = Inr s2" "inv s2" "abs s2 = v_rel n (abs s1)"
    "frm s2 = frm s1" by auto
  from assms(2) have "\<not> vlkd (abs s) n" by (simp add: room_def)
  with 2(3) 1(3) have "abs s2 = abs s" by (simp add: v_defs fun_upd_idem)
  with 1 2 get_law [OF 1(2,5)] show ?thesis by (auto simp: v_defs)
qed

text \<open>Read a block, overwrite it, write it through to disk and give it back.\<close>

lemma read_put_write_rel:
  assumes "inv s" and "room (abs s) n" and "length (f (vdata (abs s) n)) = BSIZE"
  shows "\<exists>b s1 s2 s3. read n s = Inr (b, s1) \<and> frm s1 = frm s \<and> get b s1 = vdata (abs s) n \<and>
    wr b (put b (f (vdata (abs s) n)) s1) = Inr s2 \<and> rel b s2 = Inr s3 \<and> inv s3 \<and> frm s3 = frm s \<and>
    abs s3 = v_write n (v_put n (f (vdata (abs s) n)) (abs s))"
proof -
  let ?x = "f (vdata (abs s) n)"
  from read_law [OF assms(1,2)] obtain b s1 where 1: "read n s = Inr (b, s1)" "inv s1"
    "abs s1 = v_read n (abs s)" "frm s1 = frm s" "holds s1 b n" by auto
  from put_law [OF 1(2,5) assms(3)] have p: "inv (put b ?x s1)" "abs (put b ?x s1) = v_put n ?x (abs s1)"
    "frm (put b ?x s1) = frm s1" "holds (put b ?x s1) b n" using 1(5) by auto
  from wr_law [OF p(1,4)] obtain s2 where 2: "wr b (put b ?x s1) = Inr s2" "inv s2"
    "abs s2 = v_write n (abs (put b ?x s1))" "frm s2 = frm (put b ?x s1)" "holds s2 b n" using p(4) by auto
  from rel_law [OF 2(2,5)] obtain s3 where 3: "rel b s2 = Inr s3" "inv s3" "abs s3 = v_rel n (abs s2)"
    "frm s3 = frm s2" by auto
  from assms(2) have "\<not> vlkd (abs s) n" by (simp add: room_def)
  with 1 p 2 3 have "abs s3 = v_write n (v_put n ?x (abs s))"
    by (simp add: v_defs fun_upd_idem)
  with 1 p 2 3 get_law [OF 1(2,5)] show ?thesis by (auto simp: v_defs)
qed

text \<open>Copy block \<open>m\<close> over block \<open>n\<close> and write \<open>n\<close> through, as \<open>write_log\<close> does.\<close>

lemma copy_write:
  assumes "inv s" and "room (abs s) n" and "room (v_read n (abs s)) m" and "m \<noteq> n"
  shows "\<exists>b s1 a s2 s3 s4 s5. read n s = Inr (b, s1) \<and> read m s1 = Inr (a, s2) \<and>
    wr b (put b (get a s2) s2) = Inr s3 \<and> rel a s3 = Inr s4 \<and> rel b s4 = Inr s5 \<and>
    frm s1 = frm s \<and> inv s5 \<and> frm s5 = frm s \<and> abs s5 = v_write n (v_put n (vdata (abs s) m) (abs s))"
proof -
  from read_law [OF assms(1,2)] obtain b s1 where 1: "read n s = Inr (b, s1)" "inv s1"
    "abs s1 = v_read n (abs s)" "frm s1 = frm s" "holds s1 b n" by auto
  from read_law [OF 1(2)] 1(3,5) assms(3) obtain a s2 where 2: "read m s1 = Inr (a, s2)" "inv s2"
    "abs s2 = v_read m (abs s1)" "frm s2 = frm s1" "holds s2 a m" "holds s2 b n" by fastforce
  let ?x = "get a s2"
  have x: "?x = vdata (abs s) m" using get_law [OF 2(2,5)] 2(3) 1(3) by (simp add: v_defs)
  have "length ?x = BSIZE" unfolding x by (rule size_law [OF assms(1)])
  from put_law [OF 2(2,6) this] have p: "inv (put b ?x s2)" "abs (put b ?x s2) = v_put n ?x (abs s2)"
    "frm (put b ?x s2) = frm s2" "holds (put b ?x s2) b n" "holds (put b ?x s2) a m" using 2(5,6) by auto
  from wr_law [OF p(1,4)] p(4,5) obtain s3 where 3: "wr b (put b ?x s2) = Inr s3" "inv s3"
    "abs s3 = v_write n (abs (put b ?x s2))" "frm s3 = frm (put b ?x s2)" "holds s3 b n" "holds s3 a m" by auto
  from rel_law [OF 3(2,6)] 3(5) assms(4) obtain s4 where 4: "rel a s3 = Inr s4" "inv s4"
    "abs s4 = v_rel m (abs s3)" "frm s4 = frm s3" "holds s4 b n" by auto
  from rel_law [OF 4(2,5)] obtain s5 where 5: "rel b s4 = Inr s5" "inv s5" "abs s5 = v_rel n (abs s4)"
    "frm s5 = frm s4" by auto
  have "\<not> vlkd (abs s) n" "\<not> vlkd (abs s) m" using assms(2-4) by (auto simp: room_def v_read_def)
  with 1 2 p 3 4 5 x assms(4) have "abs s5 = v_write n (v_put n (vdata (abs s) m) (abs s))"
    by (simp add: v_defs fun_eq_iff)
  with 1 2 p 3 4 5 show ?thesis by auto
qed

text \<open>Copy block \<open>m\<close> to its home \<open>n\<close>, write and unpin it, as \<open>install_trans\<close> does.\<close>

lemma copy_install:
  assumes "inv s" and "room (abs s) m" and "room (v_read m (abs s)) n" and "m \<noteq> n"
  shows "\<exists>a s1 b s2 s3 s4 s5 s6. read m s = Inr (a, s1) \<and> read n s1 = Inr (b, s2) \<and>
    wr b (put b (get a s2) s2) = Inr s3 \<and> unpin b s3 = Inr s4 \<and> rel a s4 = Inr s5 \<and> rel b s5 = Inr s6 \<and>
    frm s1 = frm s \<and> inv s6 \<and> frm s6 = frm s \<and> abs s6 = v_unpin n (v_write n (v_put n (vdata (abs s) m) (abs s)))"
proof -
  from read_law [OF assms(1,2)] obtain a s1 where 1: "read m s = Inr (a, s1)" "inv s1"
    "abs s1 = v_read m (abs s)" "frm s1 = frm s" "holds s1 a m" by auto
  from read_law [OF 1(2)] 1(3,5) assms(3) obtain b s2 where 2: "read n s1 = Inr (b, s2)" "inv s2"
    "abs s2 = v_read n (abs s1)" "frm s2 = frm s1" "holds s2 b n" "holds s2 a m" by fastforce
  let ?x = "get a s2"
  have x: "?x = vdata (abs s) m" using get_law [OF 2(2,6)] 2(3) 1(3) by (simp add: v_defs)
  have "length ?x = BSIZE" unfolding x by (rule size_law [OF assms(1)])
  from put_law [OF 2(2,5) this] have p: "inv (put b ?x s2)" "abs (put b ?x s2) = v_put n ?x (abs s2)"
    "frm (put b ?x s2) = frm s2" "holds (put b ?x s2) b n" "holds (put b ?x s2) a m" using 2(5,6) by auto
  from wr_law [OF p(1,4)] p(4,5) obtain s3 where 3: "wr b (put b ?x s2) = Inr s3" "inv s3"
    "abs s3 = v_write n (abs (put b ?x s2))" "frm s3 = frm (put b ?x s2)" "holds s3 b n" "holds s3 a m" by auto
  from unpin_law [OF 3(2,5)] 3(5,6) obtain s4 where 4: "unpin b s3 = Inr s4" "inv s4"
    "abs s4 = v_unpin n (abs s3)" "frm s4 = frm s3" "holds s4 b n" "holds s4 a m" by auto
  from rel_law [OF 4(2,6)] 4(5) assms(4) obtain s5 where 5: "rel a s4 = Inr s5" "inv s5"
    "abs s5 = v_rel m (abs s4)" "frm s5 = frm s4" "holds s5 b n" by auto
  from rel_law [OF 5(2,5)] obtain s6 where 6: "rel b s5 = Inr s6" "inv s6" "abs s6 = v_rel n (abs s5)"
    "frm s6 = frm s5" by auto
  have "\<not> vlkd (abs s) n" "\<not> vlkd (abs s) m" using assms(2-4) by (auto simp: room_def v_read_def)
  with 1 2 p 3 4 5 6 x assms(4) have "abs s6 = v_unpin n (v_write n (v_put n (vdata (abs s) m) (abs s)))"
    by (simp add: v_defs fun_eq_iff)
  with 1 2 p 3 4 5 6 show ?thesis by auto
qed

end

section \<open>The cache as an instance\<close>

definition ROOTDEV :: u32 where "ROOTDEV = 1"

text \<open>The buffer assigned to block \<open>n\<close> of the root device.\<close>

definition idx :: "'a bio_scheme \<Rightarrow> u32 \<Rightarrow> nat option" where
  "idx s n = List.find (\<lambda>i. b_dev (bufs s ! i) = ROOTDEV \<and> b_blockno (bufs s ! i) = n) [0..<NBUF]"

definition bio_abs :: "'a bio_scheme \<Rightarrow> bview" where
  "bio_abs s = \<lparr>
     vdata = (\<lambda>n. case idx s n of None \<Rightarrow> disk s n
        | Some i \<Rightarrow> if b_valid (bufs s ! i) then b_data (bufs s ! i) else disk s n),
     vrefs = (\<lambda>n. case idx s n of None \<Rightarrow> 0 | Some i \<Rightarrow> b_refcnt (bufs s ! i)),
     vlkd = (\<lambda>n. case idx s n of None \<Rightarrow> False | Some i \<Rightarrow> sl_locked (slocks s (SlBuf i))),
     vdisk = disk s, vtrace = writes s\<rparr>"

definition bio_inv :: "'a bio_scheme \<Rightarrow> bool" where
  "bio_inv s \<longleftrightarrow> calm s \<and> length (bufs s) = NBUF \<and> (\<exists>ord. dll s ord) \<and>
     (\<forall>i<NBUF. \<forall>j<NBUF. b_dev (bufs s ! i) = ROOTDEV \<longrightarrow> b_dev (bufs s ! j) = ROOTDEV \<longrightarrow>
        b_blockno (bufs s ! i) = b_blockno (bufs s ! j) \<longrightarrow> i = j) \<and>
     (\<forall>i<NBUF. b_dev (bufs s ! i) \<noteq> ROOTDEV \<longrightarrow> b_refcnt (bufs s ! i) = 0 \<and> \<not> sl_locked (slocks s (SlBuf i))) \<and>
     (\<forall>i<NBUF. length (b_data (bufs s ! i)) = BSIZE) \<and> (\<forall>n. length (disk s n) = BSIZE)"

definition bio_holds :: "'a bio_scheme \<Rightarrow> nat \<Rightarrow> u32 \<Rightarrow> bool" where
  "bio_holds s b n \<longleftrightarrow> b < NBUF \<and> b_dev (bufs s ! b) = ROOTDEV \<and> b_blockno (bufs s ! b) = n \<and>
     b_valid (bufs s ! b) \<and> sl_locked (slocks s (SlBuf b)) \<and> sl_pid (slocks s (SlBuf b)) = the_pid s"

text \<open>The state with everything the cache owns, and the wakeups it makes, blotted out.\<close>

definition bio_frm :: "'a bio_scheme \<Rightarrow> 'a bio_scheme" where
  "bio_frm s = s\<lparr>procs := map (\<lambda>p. p\<lparr>p_state := UNUSED\<rparr>) (procs s), bufs := [], bnext := id, bprev := id,
     slocks := (\<lambda>l. case l of SlBuf i \<Rightarrow> \<lparr>sl_locked = False, sl_pid = 0\<rparr> | SlInode i \<Rightarrow> slocks s l),
     disk := (\<lambda>_. []), writes := []\<rparr>"

definition bio_get :: "nat \<Rightarrow> 'a bio_scheme \<Rightarrow> block" where
  "bio_get b s = b_data (bufs s ! b)"

definition bio_put :: "nat \<Rightarrow> block \<Rightarrow> 'a bio_scheme \<Rightarrow> 'a bio_scheme" where
  "bio_put b x s = upd_buf b (\<lambda>y. y\<lparr>b_data := x\<rparr>) s"

section \<open>Facts: the instance\<close>

lemma bio_invD:
  assumes "bio_inv s"
  shows "calm s" "length (bufs s) = NBUF" "\<exists>ord. dll s ord"
    "\<And>i j. i < NBUF \<Longrightarrow> j < NBUF \<Longrightarrow> b_dev (bufs s ! i) = ROOTDEV \<Longrightarrow> b_dev (bufs s ! j) = ROOTDEV \<Longrightarrow>
      b_blockno (bufs s ! i) = b_blockno (bufs s ! j) \<Longrightarrow> i = j"
    "\<And>i. i < NBUF \<Longrightarrow> b_dev (bufs s ! i) \<noteq> ROOTDEV \<Longrightarrow> b_refcnt (bufs s ! i) = 0 \<and> \<not> sl_locked (slocks s (SlBuf i))"
    "\<And>i. i < NBUF \<Longrightarrow> length (b_data (bufs s ! i)) = BSIZE" "\<And>n. length (disk s n) = BSIZE"
  using assms unfolding bio_inv_def by blast+

lemma idx_Some:
  assumes "bio_inv s"
  shows "idx s n = Some i \<longleftrightarrow> i < NBUF \<and> b_dev (bufs s ! i) = ROOTDEV \<and> b_blockno (bufs s ! i) = n"
proof -
  have "j = i" if "j < i" "i < NBUF" "b_dev (bufs s ! i) = ROOTDEV" "b_dev (bufs s ! j) = ROOTDEV"
    "b_blockno (bufs s ! i) = n" "b_blockno (bufs s ! j) = n" for j
    using bio_invD(4) [OF assms, of j i] that by simp
  then show ?thesis unfolding idx_def find_upt_Some by (auto dest: less_not_refl2)
qed

lemma idx_None: "idx s n = None \<longleftrightarrow> (\<forall>i<NBUF. \<not> (b_dev (bufs s ! i) = ROOTDEV \<and> b_blockno (bufs s ! i) = n))"
  unfolding idx_def find_upt_None ..

lemma find_cong_unique:
  assumes "\<And>i. i \<in> set xs \<Longrightarrow> P i \<Longrightarrow> i = k" and "k \<in> set xs" and "P k"
  shows "List.find P xs = Some k"
  using assms
proof (induction xs)
  case (Cons a xs)
  show ?case
  proof (cases "P a")
    case True
    with Cons.prems(1) [of a] show ?thesis by simp
  next
    case False
    with Cons.prems(2,3) have "k \<in> set xs" by auto
    with False Cons.IH Cons.prems(1,3) show ?thesis by (metis find.simps(2) list.set_intros(2))
  qed
qed simp

text \<open>Changing the buffer of block \<open>n\<close>, and its lock, changes the view of \<open>n\<close> alone.\<close>

lemma local_update:
  fixes s :: "'a bio_scheme"
  assumes inv: "bio_inv s" and b: "b < NBUF" "b_dev (bufs s ! b) = ROOTDEV" "b_blockno (bufs s ! b) = n"
    and x: "b_dev x = ROOTDEV" "b_blockno x = n" "length (b_data x) = BSIZE"
    and s': "s' = s\<lparr>bufs := (bufs s)[b := x], slocks := (slocks s)(SlBuf b := l)\<rparr>"
  shows "bio_inv s'" and "bio_frm s' = bio_frm s"
    and "bio_abs s' = (bio_abs s)\<lparr>
      vdata := (vdata (bio_abs s))(n := if b_valid x then b_data x else disk s n),
      vrefs := (vrefs (bio_abs s))(n := b_refcnt x), vlkd := (vlkd (bio_abs s))(n := sl_locked l)\<rparr>"
proof -
  note I = bio_invD [OF inv]
  have nth: "bufs s' ! i = (if i = b then x else bufs s ! i)" if "i < NBUF" for i
    using s' I(2) b(1) that by simp
  have same: "b_dev (bufs s' ! i) = b_dev (bufs s ! i)" "b_blockno (bufs s' ! i) = b_blockno (bufs s ! i)"
    if "i < NBUF" for i using nth [OF that] b x by auto
  have idx: "idx s' m = idx s m" for m
    unfolding idx_def by (rule find_cong) (auto simp: same)
  show inv': "bio_inv s'"
    unfolding bio_inv_def
  proof (intro conjI allI impI)
    show "calm s'" using I(1) s' by (simp add: calm_def)
    show "length (bufs s') = NBUF" using I(2) s' by simp
    show "\<exists>ord. dll s' ord" using I(3) s' by (simp add: dll_def)
    fix i assume i: "i < NBUF"
    show "length (b_data (bufs s' ! i)) = BSIZE" using I(6) [OF i] x(3) nth [OF i] by simp
    { fix j assume "j < NBUF" "b_dev (bufs s' ! i) = ROOTDEV" "b_dev (bufs s' ! j) = ROOTDEV"
        "b_blockno (bufs s' ! i) = b_blockno (bufs s' ! j)"
      then show "i = j" using I(4) [of i j] i same by simp }
    { assume d: "b_dev (bufs s' ! i) \<noteq> ROOTDEV"
      then have "i \<noteq> b" using same [OF i] b(2) by auto
      with I(5) [OF i] d same [OF i] nth [OF i] s'
      show "b_refcnt (bufs s' ! i) = 0" "\<not> sl_locked (slocks s' (SlBuf i))" by simp_all }
  next
    show "length (disk s' m) = BSIZE" for m using I(7) s' by simp
  qed
  show "bio_frm s' = bio_frm s" using s' by (auto simp: bio_frm_def fun_eq_iff split: sleepid.split)
  have bn: "idx s n = Some b" using idx_Some [OF inv] b by simp
  have other: "bufs s' ! i = bufs s ! i" "slocks s' (SlBuf i) = slocks s (SlBuf i)"
    if "idx s m = Some i" "m \<noteq> n" for m i
    using that b(3) nth s' by (auto simp: idx_Some [OF inv])
  have this_one: "bufs s' ! b = x" "slocks s' (SlBuf b) = l" "disk s' = disk s" "writes s' = writes s"
    using nth [OF b(1)] s' by simp_all
  have "vdata (bio_abs s') m = (if m = n then if b_valid x then b_data x else disk s n else vdata (bio_abs s) m)"
    "vrefs (bio_abs s') m = (if m = n then b_refcnt x else vrefs (bio_abs s) m)"
    "vlkd (bio_abs s') m = (if m = n then sl_locked l else vlkd (bio_abs s) m)" for m
    using bn this_one other [of m] by (cases "m = n"; cases "idx s m"; simp add: bio_abs_def idx)+
  then show "bio_abs s' = (bio_abs s)\<lparr>
      vdata := (vdata (bio_abs s))(n := if b_valid x then b_data x else disk s n),
      vrefs := (vrefs (bio_abs s))(n := b_refcnt x), vlkd := (vlkd (bio_abs s))(n := sl_locked l)\<rparr>"
    by (intro bview.equality) (auto simp: this_one fun_eq_iff bio_abs_def)
qed

abbreviation taken :: "'a bio_scheme \<Rightarrow> sleeplock" where
  "taken s \<equiv> \<lparr>sl_locked = True, sl_pid = the_pid s\<rparr>"

lemma find_ord:
  assumes inv: "bio_inv s" and "dll s ord"
  shows "List.find (\<lambda>b. b_dev (bufs s ! b) = ROOTDEV \<and> b_blockno (bufs s ! b) = n) ord = idx s n"
proof (cases "idx s n")
  case None
  show ?thesis unfolding None find_None_iff using None assms(2) by (auto simp: idx_None dll_def)
next
  case (Some b)
  show ?thesis unfolding Some
    by (rule find_cong_unique) (use Some assms bio_invD(4) [OF inv] in \<open>auto simp: idx_Some dll_def\<close>)
qed

lemma buf_forms:
  "y\<lparr>b_refcnt := r\<rparr> = \<lparr>b_valid = b_valid y, b_dev = b_dev y, b_blockno = b_blockno y, b_refcnt = r, b_data = b_data y\<rparr>"
  "y\<lparr>b_data := d\<rparr> = \<lparr>b_valid = b_valid y, b_dev = b_dev y, b_blockno = b_blockno y, b_refcnt = b_refcnt y, b_data = d\<rparr>"
  "y\<lparr>b_valid := v\<rparr> = \<lparr>b_valid = v, b_dev = b_dev y, b_blockno = b_blockno y, b_refcnt = b_refcnt y, b_data = b_data y\<rparr>"
  by (cases y; simp)+

lemma bread_cached:
  assumes inv: "bio_inv s" and b: "idx s n = Some b" and "\<not> sl_locked (slocks s (SlBuf b))"
  shows "bread ROOTDEV n s = Inr (b, s\<lparr>bufs := (bufs s)[b := \<lparr>b_valid = True, b_dev = ROOTDEV, b_blockno = n,
      b_refcnt = b_refcnt (bufs s ! b) + 1,
      b_data = if b_valid (bufs s ! b) then b_data (bufs s ! b) else disk s n\<rparr>],
    slocks := (slocks s)(SlBuf b := taken s)\<rparr>)"
proof -
  note I = bio_invD [OF inv]
  from I(3) obtain ord where ord: "dll s ord" by auto
  from b have bN: "b < NBUF" "b_dev (bufs s ! b) = ROOTDEV" "b_blockno (bufs s ! b) = n"
    by (simp_all add: idx_Some [OF inv])
  let ?s1 = "upd_buf b (\<lambda>x. x\<lparr>b_refcnt := b_refcnt x + 1\<rparr>) s"
  have h: "held s = []" using I(1) by (simp add: calm_def)
  have "dll (s\<lparr>held := [LBcache]\<rparr>) ord" using ord by (simp add: dll_def)
  then have scan: "bscan (Suc NBUF) (bnext s) P (bnext s NBUF) = Inr (List.find P ord)" for P
    using bscan_next by fastforce
  have "acquiresleep (SlBuf b) ?s1 = Inr (?s1\<lparr>slocks := (slocks s)(SlBuf b := taken s)\<rparr>)"
    using acquiresleep_eq [of ?s1 "SlBuf b"] I(1) assms(3) by (simp add: upd_buf_def)
  then have "bget ROOTDEV n s = Inr (b, ?s1\<lparr>slocks := (slocks s)(SlBuf b := taken s)\<rparr>)"
    using h b find_ord [OF inv ord, of n] unfolding bget_def
    by (simp add: scan upd_buf_def held_idem)
  then show ?thesis
    using bN I(2) by (auto simp: bread_def virtio_disk_rw_def upd_buf_def Let_def buf_forms intro!: bio.equality)
qed

lemma bread_recycled:
  assumes inv: "bio_inv s" and "idx s n = None" and "\<exists>i<NBUF. b_refcnt (bufs s ! i) = 0"
    and free: "\<And>i. i < NBUF \<Longrightarrow> b_refcnt (bufs s ! i) = 0 \<Longrightarrow> \<not> sl_locked (slocks s (SlBuf i))"
  shows "\<exists>b<NBUF. b_refcnt (bufs s ! b) = 0 \<and> bread ROOTDEV n s = Inr (b,
    s\<lparr>bufs := (bufs s)[b := \<lparr>b_valid = True, b_dev = ROOTDEV, b_blockno = n, b_refcnt = 1, b_data = disk s n\<rparr>],
    slocks := (slocks s)(SlBuf b := taken s)\<rparr>)"
proof -
  note I = bio_invD [OF inv]
  from I(3) obtain ord where ord: "dll s ord" by auto
  have h: "held s = []" using I(1) by (simp add: calm_def)
  have "dll (s\<lparr>held := [LBcache]\<rparr>) ord" using ord by (simp add: dll_def)
  then have scan: "bscan (Suc NBUF) (bnext s) P (bnext s NBUF) = Inr (List.find P ord)"
    "bscan (Suc NBUF) (bprev s) P (bprev s NBUF) = Inr (List.find P (rev ord))" for P
    using bscan_next bscan_prev by fastforce+
  have "List.find (\<lambda>b. b_refcnt (bufs s ! b) = 0) (rev ord) \<noteq> None"
    using assms(3) ord by (auto simp: find_None_iff dll_def)
  then obtain b where f: "List.find (\<lambda>b. b_refcnt (bufs s ! b) = 0) (rev ord) = Some b" by auto
  then have b: "b < NBUF" "b_refcnt (bufs s ! b) = 0"
    using ord by (auto simp: find_Some_iff dll_def) (metis atLeastLessThan_iff length_rev nth_mem set_rev)
  let ?s1 = "upd_buf b (\<lambda>x. x\<lparr>b_dev := ROOTDEV, b_blockno := n, b_valid := False, b_refcnt := 1\<rparr>) s"
  have "acquiresleep (SlBuf b) ?s1 = Inr (?s1\<lparr>slocks := (slocks s)(SlBuf b := taken s)\<rparr>)"
    using acquiresleep_eq [of ?s1 "SlBuf b"] I(1) free [OF b] by (simp add: upd_buf_def)
  then have "bget ROOTDEV n s = Inr (b, ?s1\<lparr>slocks := (slocks s)(SlBuf b := taken s)\<rparr>)"
    using h f assms(2) find_ord [OF inv ord, of n] unfolding bget_def
    by (simp add: scan upd_buf_def held_idem)
  then show ?thesis
    using b I(2) by (auto simp: bread_def virtio_disk_rw_def upd_buf_def Let_def intro!: exI [of _ b] bio.equality
        arg_cong [where f = "\<lambda>x. (bufs s)[b := x]"] buf.equality)
qed

lemma room_free:
  assumes inv: "bio_inv s" and "room (bio_abs s) n" and "idx s n = None"
  shows "\<exists>i<NBUF. b_refcnt (bufs s ! i) = 0"
proof (rule ccontr)
  assume none: "\<not> ?thesis"
  note I = bio_invD [OF inv]
  from assms(2,3) have few: "card {m. vrefs (bio_abs s) m \<noteq> 0} < NBUF" by (simp add: room_def bio_abs_def)
  have dev: "b_dev (bufs s ! i) = ROOTDEV" if "i < NBUF" for i using I(5) [OF that] none that by blast
  then have "inj_on (\<lambda>i. b_blockno (bufs s ! i)) {0..<NBUF}" using I(4) by (auto intro!: inj_onI)
  then have "card ((\<lambda>i. b_blockno (bufs s ! i)) ` {0..<NBUF}) = NBUF" by (simp add: card_image)
  moreover have "(\<lambda>i. b_blockno (bufs s ! i)) ` {0..<NBUF} \<subseteq> {m. vrefs (bio_abs s) m \<noteq> 0}"
  proof
    fix m assume "m \<in> (\<lambda>i. b_blockno (bufs s ! i)) ` {0..<NBUF}"
    then obtain i where "i < NBUF" "m = b_blockno (bufs s ! i)" by auto
    with dev have "idx s m = Some i" by (simp add: idx_Some [OF inv])
    with none \<open>i < NBUF\<close> show "m \<in> {m. vrefs (bio_abs s) m \<noteq> 0}" by (auto simp: bio_abs_def)
  qed
  moreover have "finite {m. vrefs (bio_abs s) m \<noteq> 0}" by (rule finite)
  ultimately have "NBUF \<le> card {m. vrefs (bio_abs s) m \<noteq> 0}" by (metis card_mono)
  with few show False by simp
qed

lemma tidy_free_unlocked:
  assumes inv: "bio_inv s" and "tidy (bio_abs s)" and "i < NBUF" and "b_refcnt (bufs s ! i) = 0"
  shows "\<not> sl_locked (slocks s (SlBuf i))"
proof (cases "b_dev (bufs s ! i) = ROOTDEV")
  case True
  then have "idx s (b_blockno (bufs s ! i)) = Some i" using assms(3) by (simp add: idx_Some [OF inv])
  moreover from assms(2) have "vrefs (bio_abs s) (b_blockno (bufs s ! i)) = 0 \<longrightarrow>
      \<not> vlkd (bio_abs s) (b_blockno (bufs s ! i))" by (simp add: tidy_def)
  ultimately show ?thesis using assms(4) by (simp add: bio_abs_def)
next
  case False
  with bio_invD(5) [OF inv assms(3)] show ?thesis by simp
qed

lemma recycle_update:
  fixes s :: "'a bio_scheme"
  assumes inv: "bio_inv s" and td: "tidy (bio_abs s)" and new: "idx s n = None"
    and b: "b < NBUF" "b_refcnt (bufs s ! b) = 0"
    and s': "s' = s\<lparr>bufs := (bufs s)[b := \<lparr>b_valid = True, b_dev = ROOTDEV, b_blockno = n, b_refcnt = 1,
      b_data = disk s n\<rparr>], slocks := (slocks s)(SlBuf b := l)\<rparr>"
  shows "bio_inv s'" and "bio_frm s' = bio_frm s"
    and "bio_abs s' = (bio_abs s)\<lparr>vrefs := (vrefs (bio_abs s))(n := 1), vlkd := (vlkd (bio_abs s))(n := sl_locked l)\<rparr>"
proof -
  note I = bio_invD [OF inv]
  let ?x = "\<lparr>b_valid = True, b_dev = ROOTDEV, b_blockno = n, b_refcnt = 1, b_data = disk s n\<rparr>"
  have nth: "bufs s' ! i = (if i = b then ?x else bufs s ! i)" if "i < NBUF" for i
    using s' I(2) b(1) that by simp
  have fld: "slocks s' = (slocks s)(SlBuf b := l)" "disk s' = disk s" "writes s' = writes s"
    using s' by simp_all
  have no: "\<not> (b_dev (bufs s ! i) = ROOTDEV \<and> b_blockno (bufs s ! i) = n)" if "i < NBUF" for i
    using new that by (simp add: idx_None)
  show inv': "bio_inv s'"
    unfolding bio_inv_def
  proof (intro conjI allI impI)
    show "calm s'" using I(1) s' by (simp add: calm_def)
    show "length (bufs s') = NBUF" using I(2) s' by simp
    show "\<exists>ord. dll s' ord" using I(3) s' by (simp add: dll_def)
    fix i assume i: "i < NBUF"
    show "length (b_data (bufs s' ! i)) = BSIZE" using I(6) [OF i] I(7) nth [OF i] by simp
    { fix j assume j: "j < NBUF" "b_dev (bufs s' ! i) = ROOTDEV" "b_dev (bufs s' ! j) = ROOTDEV"
        "b_blockno (bufs s' ! i) = b_blockno (bufs s' ! j)"
      then show "i = j" using I(4) [of i j] i nth no by (auto split: if_split_asm) }
    { assume d: "b_dev (bufs s' ! i) \<noteq> ROOTDEV"
      then have "i \<noteq> b" using nth [OF i] by auto
      with I(5) [OF i] d nth [OF i] s'
      show "b_refcnt (bufs s' ! i) = 0" "\<not> sl_locked (slocks s' (SlBuf i))" by simp_all }
  next
    show "length (disk s' m) = BSIZE" for m using I(7) s' by simp
  qed
  show "bio_frm s' = bio_frm s" using s' by (auto simp: bio_frm_def fun_eq_iff split: sleepid.split)
  have idxn: "idx s' n = Some b" using b(1) nth by (simp add: idx_Some [OF inv'])
  have keep: "idx s' m = Some i \<and> bufs s' ! i = bufs s ! i \<and> slocks s' (SlBuf i) = slocks s (SlBuf i)"
    if "m \<noteq> n" "idx s m = Some i" "i \<noteq> b" for m i
    using that nth fld by (auto simp: idx_Some [OF inv] idx_Some [OF inv'])
  have gone: "idx s' m = None" if "m \<noteq> n" "idx s m = None \<or> idx s m = Some b" for m
    using that nth bio_invD(4) [OF inv] b(1) by (auto simp: idx_None idx_Some [OF inv] split: if_split_asm)
  have free: "vdata (bio_abs s) m = disk s m \<and> vrefs (bio_abs s) m = 0 \<and> \<not> vlkd (bio_abs s) m"
    if "idx s m = None \<or> idx s m = Some b" for m
  proof -
    have "vrefs (bio_abs s) m = 0" using that b(2) by (auto simp: bio_abs_def)
    with td show ?thesis by (simp add: tidy_def) (simp add: bio_abs_def)
  qed
  have "vdata (bio_abs s') m = vdata (bio_abs s) m \<and>
    vrefs (bio_abs s') m = (if m = n then 1 else vrefs (bio_abs s) m) \<and>
    vlkd (bio_abs s') m = (if m = n then sl_locked l else vlkd (bio_abs s) m)" (is "?P m") for m
  proof (cases "m = n")
    case True
    with idxn nth [OF b(1)] fld free [of n] new show "?P m" by (simp add: bio_abs_def)
  next
    case False
    show "?P m"
    proof (cases "idx s m = None \<or> idx s m = Some b")
      case True
      with gone [OF False True] free [OF True] False fld show ?thesis by (simp add: bio_abs_def)
    next
      case nb: False
      then obtain i where "idx s m = Some i" "i \<noteq> b" by auto
      with keep [OF False] False fld show ?thesis by (simp add: bio_abs_def)
    qed
  qed
  then show "bio_abs s' = (bio_abs s)\<lparr>vrefs := (vrefs (bio_abs s))(n := 1), vlkd := (vlkd (bio_abs s))(n := sl_locked l)\<rparr>"
    by (intro bview.equality) (auto simp: fun_eq_iff bio_abs_def fld)
qed

lemma holdsD:
  assumes "bio_inv s" and "bio_holds s b n"
  shows "b < NBUF" "b_dev (bufs s ! b) = ROOTDEV" "b_blockno (bufs s ! b) = n" "b_valid (bufs s ! b)"
    "sl_locked (slocks s (SlBuf b))" "sl_pid (slocks s (SlBuf b)) = the_pid s" "idx s n = Some b"
    "calm s" "length (bufs s) = NBUF" "length (b_data (bufs s ! b)) = BSIZE"
  using assms bio_invD [OF assms(1)] by (auto simp: bio_holds_def idx_Some)

lemma bio_read:
  assumes inv: "bio_inv s" and rm: "room (bio_abs s) n"
  shows "\<exists>b s'. bread ROOTDEV n s = Inr (b, s') \<and> bio_inv s' \<and> bio_abs s' = v_read n (bio_abs s) \<and>
    bio_frm s' = bio_frm s \<and> bio_holds s' b n \<and> (\<forall>c m. bio_holds s c m \<longrightarrow> bio_holds s' c m)"
proof (cases "idx s n")
  case (Some b)
  then have bN: "b < NBUF" "b_dev (bufs s ! b) = ROOTDEV" "b_blockno (bufs s ! b) = n"
    by (simp_all add: idx_Some [OF inv])
  have "\<not> vlkd (bio_abs s) n" using rm by (simp add: room_def)
  then have un: "\<not> sl_locked (slocks s (SlBuf b))" using Some by (simp add: bio_abs_def)
  let ?x = "\<lparr>b_valid = True, b_dev = ROOTDEV, b_blockno = n, b_refcnt = b_refcnt (bufs s ! b) + 1,
      b_data = if b_valid (bufs s ! b) then b_data (bufs s ! b) else disk s n\<rparr>"
  let ?s = "s\<lparr>bufs := (bufs s)[b := ?x], slocks := (slocks s)(SlBuf b := taken s)\<rparr>"
  note I = bio_invD [OF inv]
  have x: "b_dev ?x = ROOTDEV" "b_blockno ?x = n" "length (b_data ?x) = BSIZE" using I(6) [OF bN(1)] I(7) by simp_all
  note L = local_update [OF inv bN x refl, of "taken s"]
  have "bio_abs ?s = v_read n (bio_abs s)"
    unfolding L(3) v_read_def by (rule bview.equality) (auto simp: fun_eq_iff bio_abs_def Some)
  moreover have "bio_holds ?s b n" using bN(1) I(2) by (simp add: bio_holds_def)
  moreover have "bio_holds ?s c m" if "bio_holds s c m" for c m
    using that un I(2) by (cases "c = b") (simp_all add: bio_holds_def)
  ultimately show ?thesis using bread_cached [OF inv Some un] L(1,2) by blast
next
  case None
  note I = bio_invD [OF inv]
  have td: "tidy (bio_abs s)" using rm by (simp add: room_def)
  from bread_recycled [OF inv None room_free [OF inv rm None] tidy_free_unlocked [OF inv td]]
  obtain b where b: "b < NBUF" "b_refcnt (bufs s ! b) = 0" and r: "bread ROOTDEV n s = Inr (b,
    s\<lparr>bufs := (bufs s)[b := \<lparr>b_valid = True, b_dev = ROOTDEV, b_blockno = n, b_refcnt = 1, b_data = disk s n\<rparr>],
    slocks := (slocks s)(SlBuf b := taken s)\<rparr>)" (is "_ = Inr (_, ?s)") by blast
  have un: "\<not> sl_locked (slocks s (SlBuf b))" by (rule tidy_free_unlocked [OF inv td b])
  note R = recycle_update [OF inv td None b refl, of "taken s"]
  have "bio_abs ?s = v_read n (bio_abs s)"
    unfolding R(3) v_read_def by (rule bview.equality) (auto simp: fun_eq_iff bio_abs_def None)
  moreover have "bio_holds ?s b n" using b I(2) by (simp add: bio_holds_def)
  moreover have "bio_holds ?s c m" if "bio_holds s c m" for c m
    using that un I(2) by (cases "c = b") (simp_all add: bio_holds_def)
  ultimately show ?thesis using r R(1,2) by blast
qed

text \<open>A client that has the buffer of block \<open>n\<close> changes its data or its reference count.\<close>

lemma holder_update:
  fixes s :: "'a bio_scheme"
  assumes inv: "bio_inv s" and h: "bio_holds s b n" and d: "length d = BSIZE"
    and s': "s' = s\<lparr>bufs := (bufs s)[b := (bufs s ! b)\<lparr>b_refcnt := r, b_data := d\<rparr>]\<rparr>"
  shows "bio_inv s'" and "bio_frm s' = bio_frm s" and "bio_holds s c m \<Longrightarrow> bio_holds s' c m"
    and "bio_abs s' = (bio_abs s)\<lparr>vdata := (vdata (bio_abs s))(n := d), vrefs := (vrefs (bio_abs s))(n := r)\<rparr>"
proof -
  note H = holdsD [OF inv h]
  let ?x = "(bufs s ! b)\<lparr>b_refcnt := r, b_data := d\<rparr>"
  have x: "b_dev ?x = ROOTDEV" "b_blockno ?x = n" "length (b_data ?x) = BSIZE" using H d by simp_all
  have s'': "s' = s\<lparr>bufs := (bufs s)[b := ?x], slocks := (slocks s)(SlBuf b := slocks s (SlBuf b))\<rparr>"
    using s' by simp
  note L = local_update [OF inv H(1-3) x s'']
  show "bio_inv s'" "bio_frm s' = bio_frm s" by (rule L)+
  show "bio_abs s' = (bio_abs s)\<lparr>vdata := (vdata (bio_abs s))(n := d), vrefs := (vrefs (bio_abs s))(n := r)\<rparr>"
    unfolding L(3) using H by (intro bview.equality) (auto simp: fun_eq_iff bio_abs_def)
  show "bio_holds s' c m" if "bio_holds s c m"
    using that H(9) unfolding s' by (cases "c = b") (auto simp: bio_holds_def the_pid_def)
qed

lemma bio_put_ok:
  assumes "bio_inv s" and "bio_holds s b n" and "length x = BSIZE"
  shows "bio_inv (bio_put b x s) \<and> bio_abs (bio_put b x s) = v_put n x (bio_abs s) \<and>
    bio_frm (bio_put b x s) = bio_frm s \<and> (\<forall>c m. bio_holds s c m \<longrightarrow> bio_holds (bio_put b x s) c m)"
proof -
  have s': "bio_put b x s = s\<lparr>bufs := (bufs s)[b := (bufs s ! b)\<lparr>b_refcnt := b_refcnt (bufs s ! b), b_data := x\<rparr>]\<rparr>"
    by (simp add: bio_put_def upd_buf_def)
  note U = holder_update [OF assms s']
  have "bio_abs (bio_put b x s) = v_put n x (bio_abs s)"
    unfolding U(4) v_put_def using holdsD [OF assms(1,2)]
    by (intro bview.equality) (auto simp: fun_eq_iff bio_abs_def)
  with U(1-3) show ?thesis by blast
qed

lemma bio_refcnt_ok:
  fixes s :: "'a bio_scheme"
  assumes inv: "bio_inv s" and h: "bio_holds s b n"
    and op: "op b s = bindE (acquire LBcache s) (\<lambda>s. release LBcache (upd_buf b (\<lambda>x. x\<lparr>b_refcnt := f (b_refcnt x)\<rparr>) s))"
  shows "\<exists>s'. op b s = Inr s' \<and> bio_inv s' \<and>
    bio_abs s' = (bio_abs s)\<lparr>vrefs := (vrefs (bio_abs s))(n := f (vrefs (bio_abs s) n))\<rparr> \<and> bio_frm s' = bio_frm s \<and>
    (\<forall>c m. bio_holds s c m \<longrightarrow> bio_holds s' c m)"
proof -
  note H = holdsD [OF inv h]
  let ?s = "s\<lparr>bufs := (bufs s)[b := (bufs s ! b)\<lparr>b_refcnt := f (b_refcnt (bufs s ! b)), b_data := b_data (bufs s ! b)\<rparr>]\<rparr>"
  note U = holder_update [OF inv h H(10) refl, where r = "f (b_refcnt (bufs s ! b))"]
  have "held s = []" using H(8) by (simp add: calm_def)
  then have "op b s = Inr ?s" unfolding op by (simp add: upd_buf_def)
  moreover have "bio_abs ?s = (bio_abs s)\<lparr>vrefs := (vrefs (bio_abs s))(n := f (vrefs (bio_abs s) n))\<rparr>"
    unfolding U(4) using H by (intro bview.equality) (auto simp: fun_eq_iff bio_abs_def)
  ultimately show ?thesis using U(1-3) by blast
qed

lemma bio_write_ok:
  assumes inv: "bio_inv s" and h: "bio_holds s b n"
  shows "\<exists>s'. bwrite b s = Inr s' \<and> bio_inv s' \<and> bio_abs s' = v_write n (bio_abs s) \<and> bio_frm s' = bio_frm s \<and>
    (\<forall>c m. bio_holds s c m \<longrightarrow> bio_holds s' c m)"
proof -
  note H = holdsD [OF inv h] and I = bio_invD [OF inv]
  let ?d = "b_data (bufs s ! b)"
  let ?s = "s\<lparr>disk := (disk s)(n := ?d), writes := writes s @ [(n, ?d)]\<rparr>"
  have "bwrite b s = Inr ?s"
    using H by (simp add: bwrite_def holdingsleep_eq virtio_disk_rw_def)
  moreover have "bio_inv ?s"
    using inv H(10) by (auto simp: bio_inv_def calm_def dll_def)
  moreover have "bio_abs ?s = v_write n (bio_abs s)"
    using H by (auto simp: v_write_def bio_abs_def idx_def fun_eq_iff split: option.split)
  moreover have "bio_frm ?s = bio_frm s" by (auto simp: bio_frm_def fun_eq_iff split: sleepid.split)
  moreover have "bio_holds s c m \<longrightarrow> bio_holds ?s c m" for c m by (simp add: bio_holds_def the_pid_def)
  ultimately show ?thesis by blast
qed

text \<open>Relinking the list and waking processes changes nothing a client can see.\<close>

lemma cosmetic:
  assumes inv: "bio_inv s" and "bufs s' = bufs s" "slocks s' = slocks s" "disk s' = disk s" "writes s' = writes s"
    and "calm s'" and "\<exists>ord. dll s' ord" and pid: "the_pid s' = the_pid s"
  shows "bio_inv s'" and "bio_abs s' = bio_abs s" and "bio_holds s' = bio_holds s"
proof -
  show "bio_inv s'" using inv assms unfolding bio_inv_def by simp
  have "idx s' = idx s" using assms(2) by (simp add: idx_def fun_eq_iff)
  then show "bio_abs s' = bio_abs s" using assms(2-5) unfolding bio_abs_def by (simp only:)
  show "bio_holds s' = bio_holds s" using assms by (simp add: bio_holds_def fun_eq_iff)
qed

lemma brelse_eq:
  assumes inv: "bio_inv s" and h: "bio_holds s b n"
  shows "brelse b s = Inr (let t = woken (ChSleeplock (SlBuf b))
      (s\<lparr>bufs := (bufs s)[b := (bufs s ! b)\<lparr>b_refcnt := b_refcnt (bufs s ! b) - 1\<rparr>],
        slocks := (slocks s)(SlBuf b := \<lparr>sl_locked = False, sl_pid = 0\<rparr>)\<rparr>) in
    if b_refcnt (bufs s ! b) = 1 then move_front b t else t)"
proof -
  note H = holdsD [OF inv h]
  have "held s = []" using H(8) by (simp add: calm_def)
  then show ?thesis
    using H by (simp add: brelse_def holdingsleep_eq releasesleep_eq woken_def upd_buf_def move_front_def
        link_front_def Let_def eq_diff_eq)
qed

lemma bio_rel_ok:
  fixes s :: "'a bio_scheme"
  assumes inv: "bio_inv s" and h: "bio_holds s b n"
  shows "\<exists>s'. brelse b s = Inr s' \<and> bio_inv s' \<and> bio_abs s' = v_rel n (bio_abs s) \<and> bio_frm s' = bio_frm s \<and>
    (\<forall>c m. m \<noteq> n \<longrightarrow> bio_holds s c m \<longrightarrow> bio_holds s' c m)"
proof -
  note H = holdsD [OF inv h]
  let ?x = "(bufs s ! b)\<lparr>b_refcnt := b_refcnt (bufs s ! b) - 1\<rparr>"
  define t where "t = s\<lparr>bufs := (bufs s)[b := ?x], slocks := (slocks s)(SlBuf b := \<lparr>sl_locked = False, sl_pid = 0\<rparr>)\<rparr>"
  define u where "u = woken (ChSleeplock (SlBuf b)) t"
  define s' where "s' = (if b_refcnt (bufs s ! b) = 1 then move_front b u else u)"
  have x: "b_dev ?x = ROOTDEV" "b_blockno ?x = n" "length (b_data ?x) = BSIZE" using H by simp_all
  note L = local_update [OF inv H(1-3) x t_def]
  have ct: "calm t" by (rule bio_invD(1) [OF L(1)])
  then have cu: "calm u" "the_pid u = the_pid t" unfolding u_def by simp_all
  from bio_invD(3) [OF L(1)] obtain ord where "dll t ord" ..
  then have du: "dll u ord" by (simp add: dll_def u_def woken_def)
  have ds: "\<exists>ord. dll s' ord" using du move_front_dll [OF du H(1)] unfolding s'_def by auto
  have f: "bufs s' = bufs t" "slocks s' = slocks t" "disk s' = disk t" "writes s' = writes t" "calm s'"
    "the_pid s' = the_pid t"
    using cu by (auto simp: s'_def u_def woken_def move_front_def Let_def calm_def the_pid_def)
  note C = cosmetic [OF L(1) f(1-5) ds f(6)]
  have "brelse b s = Inr s'" using brelse_eq [OF inv h] by (simp add: s'_def u_def t_def Let_def)
  moreover have "bio_abs s' = v_rel n (bio_abs s)"
    unfolding C(2) L(3) v_rel_def using H by (intro bview.equality) (auto simp: fun_eq_iff bio_abs_def)
  moreover have "bio_frm s' = bio_frm t"
    by (auto simp: s'_def u_def bio_frm_def woken_def move_front_def link_front_def Let_def fun_eq_iff wake_mark_def
        split: sleepid.split)
  moreover have "bio_holds s' c m" if "m \<noteq> n" "bio_holds s c m" for c m
    unfolding C(3) using that H(3,9) by (cases "c = b") (auto simp: bio_holds_def t_def the_pid_def)
  ultimately show ?thesis using C(1) L(2) by auto
qed

interpretation bc: block_cache bio_inv bio_abs bio_frm bio_holds "bread ROOTDEV" bio_get bio_put bwrite brelse bpin bunpin
proof
  fix s :: "'a bio_scheme" and b n x
  show "room (bio_abs s) n \<Longrightarrow> bio_inv s \<Longrightarrow> \<exists>b s'. bread ROOTDEV n s = Inr (b, s') \<and> bio_inv s' \<and>
      bio_abs s' = v_read n (bio_abs s) \<and> bio_frm s' = bio_frm s \<and> bio_holds s' b n \<and>
      (\<forall>c m. bio_holds s c m \<longrightarrow> bio_holds s' c m)"
    by (rule bio_read)
  show "bio_inv s \<Longrightarrow> length (vdata (bio_abs s) n) = BSIZE"
    using bio_invD(6,7) [of s] by (auto simp: bio_abs_def idx_Some split: option.split)
  assume h: "bio_inv s" "bio_holds s b n"
  show "bio_get b s = vdata (bio_abs s) n"
    using holdsD [OF h] by (simp add: bio_get_def bio_abs_def)
  show "length x = BSIZE \<Longrightarrow> bio_inv (bio_put b x s) \<and> bio_abs (bio_put b x s) = v_put n x (bio_abs s) \<and>
    bio_frm (bio_put b x s) = bio_frm s \<and> (\<forall>c m. bio_holds s c m \<longrightarrow> bio_holds (bio_put b x s) c m)"
    by (rule bio_put_ok [OF h])
  show "\<exists>s'. bwrite b s = Inr s' \<and> bio_inv s' \<and> bio_abs s' = v_write n (bio_abs s) \<and> bio_frm s' = bio_frm s \<and>
    (\<forall>c m. bio_holds s c m \<longrightarrow> bio_holds s' c m)"
    by (rule bio_write_ok [OF h])
  show "\<exists>s'. brelse b s = Inr s' \<and> bio_inv s' \<and> bio_abs s' = v_rel n (bio_abs s) \<and> bio_frm s' = bio_frm s \<and>
    (\<forall>c m. m \<noteq> n \<longrightarrow> bio_holds s c m \<longrightarrow> bio_holds s' c m)"
    by (rule bio_rel_ok [OF h])
  show "\<exists>s'. bpin b s = Inr s' \<and> bio_inv s' \<and> bio_abs s' = v_pin n (bio_abs s) \<and> bio_frm s' = bio_frm s \<and>
    (\<forall>c m. bio_holds s c m \<longrightarrow> bio_holds s' c m)"
    unfolding v_pin_def by (rule bio_refcnt_ok [where op = bpin and f = "\<lambda>r. r + 1", OF h bpin_def])
  show "\<exists>s'. bunpin b s = Inr s' \<and> bio_inv s' \<and> bio_abs s' = v_unpin n (bio_abs s) \<and> bio_frm s' = bio_frm s \<and>
    (\<forall>c m. bio_holds s c m \<longrightarrow> bio_holds s' c m)"
    unfolding v_unpin_def by (rule bio_refcnt_ok [where op = bunpin and f = "\<lambda>r. r - 1", OF h bunpin_def])
qed

end
