(* ===== verification/Block.thy ===== *)
theory Block
  imports Prelude
begin

text \<open>
  Structures kept inside disk blocks: reading and writing the little-endian
  16 and 32 bit fields that \<open>struct logheader\<close>, \<open>struct dinode\<close>,
  \<open>struct dirent\<close> and \<open>struct superblock\<close> place in the bytes of a block, and
  the loop that runs a kernel call for each element of a list.
\<close>

section \<open>Fields\<close>

definition get16 :: "u8 list \<Rightarrow> nat \<Rightarrow> u16" where
  "get16 d k = ucast (d ! k) OR push_bit 8 (ucast (d ! (k + 1)))"

definition put16 :: "u8 list \<Rightarrow> nat \<Rightarrow> u16 \<Rightarrow> u8 list" where
  "put16 d k v = d[k := ucast v, k + 1 := ucast (drop_bit 8 v)]"

definition get32 :: "u8 list \<Rightarrow> nat \<Rightarrow> u32" where
  "get32 d k = ucast (d ! k) OR push_bit 8 (ucast (d ! (k + 1))) OR push_bit 16 (ucast (d ! (k + 2))) OR
     push_bit 24 (ucast (d ! (k + 3)))"

definition put32 :: "u8 list \<Rightarrow> nat \<Rightarrow> u32 \<Rightarrow> u8 list" where
  "put32 d k v = d[k := ucast v, k + 1 := ucast (drop_bit 8 v), k + 2 := ucast (drop_bit 16 v),
     k + 3 := ucast (drop_bit 24 v)]"

text \<open>Bytes \<open>k\<close> to \<open>k + n\<close> of a block, and writing bytes at \<open>k\<close>.\<close>

definition slice :: "u8 list \<Rightarrow> nat \<Rightarrow> nat \<Rightarrow> u8 list" where
  "slice d k n = take n (drop k d)"

definition splice :: "u8 list \<Rightarrow> nat \<Rightarrow> u8 list \<Rightarrow> u8 list" where
  "splice d k x = take k d @ x @ drop (k + length x) d"

section \<open>Loops\<close>

fun foldE :: "('i \<Rightarrow> 's \<Rightarrow> 'e + 's) \<Rightarrow> 'i list \<Rightarrow> 's \<Rightarrow> 'e + 's" where
  "foldE f [] s = Inr s"
| "foldE f (x # xs) s = bindE (f x s) (foldE f xs)"

section \<open>Facts: fields\<close>

lemma length_put [simp]:
  "length (put16 d k v) = length d" "length (put32 d k w) = length d"
  by (simp_all add: put16_def put32_def)

lemma get16_put16 [simp]: "k + 1 < length d \<Longrightarrow> get16 (put16 d k v) k = v"
  by (rule bit_word_eqI) (auto simp: get16_def put16_def bit_simps nth_list_update)

lemma get16_put16_other: "k + 2 \<le> j \<or> j + 2 \<le> k \<Longrightarrow> get16 (put16 d k v) j = get16 d j"
  by (auto simp: get16_def put16_def)

lemma get32_put32 [simp]: "k + 3 < length d \<Longrightarrow> get32 (put32 d k v) k = v"
proof (rule bit_word_eqI)
  fix n assume "k + 3 < length d" "n < LENGTH(32)"
  then show "bit (get32 (put32 d k v) k) n = bit v n"
    by (cases "n < 16"; cases "n < 24") (auto simp: get32_def put32_def bit_simps nth_list_update)
qed

lemma get32_put32_other: "k + 4 \<le> j \<or> j + 4 \<le> k \<Longrightarrow> get32 (put32 d k v) j = get32 d j"
  by (auto simp: get32_def put32_def)

lemma get16_put32_other: "k + 4 \<le> j \<or> j + 2 \<le> k \<Longrightarrow> get16 (put32 d k v) j = get16 d j"
  by (auto simp: get16_def put32_def)

lemma get32_put16_other: "k + 2 \<le> j \<or> j + 4 \<le> k \<Longrightarrow> get32 (put16 d k v) j = get32 d j"
  by (auto simp: get32_def put16_def)

lemma length_splice [simp]: "k + length x \<le> length d \<Longrightarrow> length (splice d k x) = length d"
  by (simp add: splice_def)

lemma length_slice [simp]: "k + n \<le> length d \<Longrightarrow> length (slice d k n) = n"
  by (simp add: slice_def)

lemma slice_splice [simp]: "k + length x \<le> length d \<Longrightarrow> slice (splice d k x) k (length x) = x"
  by (simp add: slice_def splice_def)

text \<open>An array of 32 bit fields from offset \<open>k\<close>.\<close>

lemma length_fold_put32 [simp]: "length (fold (\<lambda>i d. put32 d (f i) (g i)) is d) = length d"
  by (induction "is" arbitrary: d) simp_all

lemma get32_fold_put32:
  assumes "k + 4 * n \<le> length d" and "j < n"
  shows "get32 (fold (\<lambda>i d. put32 d (k + 4 * i) (v i)) [0..<n] d) (k + 4 * j) = v j"
  using assms
proof (induction n)
  case (Suc n)
  show ?case
  proof (cases "j = n")
    case True
    then show ?thesis using Suc.prems by simp
  next
    case False
    with Suc show ?thesis by (simp add: get32_put32_other)
  qed
qed simp

lemma get32_fold_put32_before:
  "j + 4 \<le> k \<Longrightarrow> get32 (fold (\<lambda>i d. put32 d (k + 4 * i) (v i)) [0..<n] d) j = get32 d j"
  by (induction n) (simp_all add: get32_put32_other)

section \<open>Facts: loops\<close>

lemma foldE_append: "foldE f (xs @ ys) s = bindE (foldE f xs s) (foldE f ys)"
  by (induction xs arbitrary: s) (simp_all add: bindE_def split: sum.split)

text \<open>A loop that establishes \<open>I n\<close> after \<open>n\<close> rounds returns.\<close>

lemma foldE_upt:
  assumes "I 0 s" and "\<And>i t. i < n \<Longrightarrow> I i t \<Longrightarrow> \<exists>t'. f i t = Inr t' \<and> I (Suc i) t'"
  shows "\<exists>t. foldE f [0..<n] s = Inr t \<and> I n t"
  using assms
proof (induction n)
  case (Suc n)
  then obtain t where "foldE f [0..<n] s = Inr t" "I n t" by auto
  with Suc.prems(2) [of n t] show ?case by (auto simp: foldE_append)
qed simp

end
