(* ===== verification/Log.thy ===== *)
theory Log
  imports Bcache Block
begin

text \<open>
  The write-ahead log (\<open>kernel/log.c\<close>).

  A system call brackets its block writes with \<open>begin_op\<close> and \<open>end_op\<close>;
  \<open>log_write\<close> only notes the block and pins it in the cache.  When the last
  running call ends, \<open>commit\<close> copies the noted blocks to the log area, writes
  the log header, copies the blocks to their homes and erases the header.  At
  boot \<open>initlog\<close> replays a log whose header was written.

  Block numbers that the code keeps in \<open>int\<close> variables are the 32 bit words
  they are converted to at every use; counters are integers.
\<close>

section \<open>State\<close>

definition MAXOPBLOCKS :: nat where "MAXOPBLOCKS = 10"
definition LOGSIZE :: nat where "LOGSIZE = MAXOPBLOCKS * 3"

record superblock =
  sb_magic :: u32
  sb_size :: u32
  sb_nblocks :: u32
  sb_ninodes :: u32
  sb_nlog :: u32
  sb_logstart :: u32
  sb_inodestart :: u32
  sb_bmapstart :: u32

record logheader =
  lh_n :: int
  lh_block :: "u32 list"

record log_state =
  log_start :: u32
  log_size :: int
  log_outstanding :: int
  log_committing :: bool
  log_dev :: u32
  log_lh :: logheader

record logk = bio +
  log :: log_state

definition upd_log :: "(log_state \<Rightarrow> log_state) \<Rightarrow> 'a logk_scheme \<Rightarrow> 'a logk_scheme" where
  "upd_log f s = s\<lparr>log := f (log s)\<rparr>"

definition set_n :: "int \<Rightarrow> log_state \<Rightarrow> log_state" where
  "set_n n l = l\<lparr>log_lh := (log_lh l)\<lparr>lh_n := n\<rparr>\<rparr>"

text \<open>\<open>lh->n\<close> is at offset 0 of the header block and \<open>lh->block[i]\<close> at offset \<open>4 + 4 i\<close>.\<close>

section \<open>Recovery and commit\<close>

definition install_trans :: "'a logk_scheme \<Rightarrow> 'a logk_scheme kres" where
  "install_trans s =
     foldE (\<lambda>tail s.
       bindE (bread (log_dev (log s)) (log_start (log s) + of_nat tail + 1) s) (\<lambda>(lbuf, s).
       bindE (bread (log_dev (log s)) (lh_block (log_lh (log s)) ! tail) s) (\<lambda>(dbuf, s).
       let s = bio_put dbuf (bio_get lbuf s) s in
       bindE (bwrite dbuf s) (\<lambda>s.
       bindE (bunpin dbuf s) (\<lambda>s.
       bindE (brelse lbuf s) (\<lambda>s.
       brelse dbuf s))))))
     [0..<nat (lh_n (log_lh (log s)))] s"

text \<open>A count beyond the array makes the loop write past \<open>log.lh.block\<close>.\<close>

definition read_head :: "'a logk_scheme \<Rightarrow> 'a logk_scheme kres" where
  "read_head s =
     bindE (bread (log_dev (log s)) (log_start (log s)) s) (\<lambda>(b, s).
     let s = upd_log (set_n (sint (get32 (bio_get b s) 0))) s in
     bindE (foldE (\<lambda>i s.
         if LOGSIZE \<le> i then Inl Fault
         else Inr (upd_log (\<lambda>l. l\<lparr>log_lh := (log_lh l)\<lparr>lh_block := (lh_block (log_lh l))
                [i := get32 (bio_get b s) (4 + 4 * i)]\<rparr>\<rparr>) s))
       [0..<nat (lh_n (log_lh (log s)))] s) (\<lambda>s.
     brelse b s))"

definition write_head :: "'a logk_scheme \<Rightarrow> 'a logk_scheme kres" where
  "write_head s =
     bindE (bread (log_dev (log s)) (log_start (log s)) s) (\<lambda>(b, s).
     let lh = log_lh (log s);
         hb = put32 (bio_get b s) 0 (word_of_int (lh_n lh));
         hb = fold (\<lambda>i d. put32 d (4 + 4 * i) (lh_block lh ! i)) [0..<nat (lh_n lh)] hb;
         s = bio_put b hb s in
     bindE (bwrite b s) (\<lambda>s.
     brelse b s))"

definition recover_from_log :: "'a logk_scheme \<Rightarrow> 'a logk_scheme kres" where
  "recover_from_log s =
     bindE (read_head s) (\<lambda>s.
     bindE (install_trans s) (\<lambda>s.
     let s = upd_log (set_n 0) s in
     write_head s))"

definition initlog :: "u32 \<Rightarrow> superblock \<Rightarrow> 'a logk_scheme \<Rightarrow> 'a logk_scheme kres" where
  "initlog dev sb s =
     (if BSIZE \<le> 4 + 4 * LOGSIZE then Inl (Panic ''initlog: too big logheader'')
      else
        let s = upd_log (\<lambda>l. l\<lparr>log_start := sb_logstart sb\<rparr>) s;
            s = upd_log (\<lambda>l. l\<lparr>log_size := sint (sb_nlog sb)\<rparr>) s;
            s = upd_log (\<lambda>l. l\<lparr>log_dev := dev\<rparr>) s in
        recover_from_log s)"

definition write_log :: "'a logk_scheme \<Rightarrow> 'a logk_scheme kres" where
  "write_log s =
     foldE (\<lambda>tail s.
       bindE (bread (log_dev (log s)) (log_start (log s) + of_nat tail + 1) s) (\<lambda>(to, s).
       bindE (bread (log_dev (log s)) (lh_block (log_lh (log s)) ! tail) s) (\<lambda>(from, s).
       let s = bio_put to (bio_get from s) s in
       bindE (bwrite to s) (\<lambda>s.
       bindE (brelse from s) (\<lambda>s.
       brelse to s)))))
     [0..<nat (lh_n (log_lh (log s)))] s"

definition commit :: "'a logk_scheme \<Rightarrow> 'a logk_scheme kres" where
  "commit s =
     (if lh_n (log_lh (log s)) > 0 then
        bindE (write_log s) (\<lambda>s.
        bindE (write_head s) (\<lambda>s.
        bindE (install_trans s) (\<lambda>s.
        let s = upd_log (set_n 0) s in
        write_head s)))
      else Inr s)"

section \<open>Transactions\<close>

definition begin_op :: "'a logk_scheme \<Rightarrow> 'a logk_scheme kres" where
  "begin_op s =
     bindE (acquire LLog s) (\<lambda>s.
     if log_committing (log s) then Inl (Sleeps ChLog)
     else if lh_n (log_lh (log s)) + (log_outstanding (log s) + 1) * int MAXOPBLOCKS > int LOGSIZE
     then Inl (Sleeps ChLog)
     else
       let s = upd_log (\<lambda>l. l\<lparr>log_outstanding := log_outstanding l + 1\<rparr>) s in
       release LLog s)"

definition end_op :: "'a logk_scheme \<Rightarrow> 'a logk_scheme kres" where
  "end_op s =
     bindE (acquire LLog s) (\<lambda>s.
     let s = upd_log (\<lambda>l. l\<lparr>log_outstanding := log_outstanding l - 1\<rparr>) s in
     if log_committing (log s) then Inl (Panic ''log.committing'')
     else
       bindE (if log_outstanding (log s) = 0
              then Inr (True, upd_log (\<lambda>l. l\<lparr>log_committing := True\<rparr>) s)
              else bindE (wakeup ChLog s) (\<lambda>s. Inr (False, s))) (\<lambda>(do_commit, s).
       bindE (release LLog s) (\<lambda>s.
       if do_commit then
         bindE (commit s) (\<lambda>s.
         bindE (acquire LLog s) (\<lambda>s.
         let s = upd_log (\<lambda>l. l\<lparr>log_committing := False\<rparr>) s in
         bindE (wakeup ChLog s) (\<lambda>s.
         release LLog s)))
       else Inr s)))"

definition log_write :: "nat \<Rightarrow> 'a logk_scheme \<Rightarrow> 'a logk_scheme kres" where
  "log_write b s =
     (let lh = log_lh (log s) in
      if lh_n lh \<ge> int LOGSIZE \<or> lh_n lh \<ge> log_size (log s) - 1 then Inl (Panic ''too big a transaction'')
      else if log_outstanding (log s) < 1 then Inl (Panic ''log_write outside of trans'')
      else
        bindE (acquire LLog s) (\<lambda>s.
        let n = nat (lh_n (log_lh (log s)));
            i = (case List.find (\<lambda>i. lh_block (log_lh (log s)) ! i = b_blockno (bufs s ! b)) [0..<n] of
                   Some i \<Rightarrow> i | None \<Rightarrow> n);
            s = upd_log (\<lambda>l. l\<lparr>log_lh := (log_lh l)\<lparr>lh_block := (lh_block (log_lh l))[i := b_blockno (bufs s ! b)]\<rparr>\<rparr>) s in
        bindE (if i = n then bindE (bpin b s) (\<lambda>s. Inr (upd_log (set_n (lh_n (log_lh (log s)) + 1)) s))
               else Inr s) (\<lambda>s.
        release LLog s)))"

end
