(* ===== verification/Logprops.thy ===== *)
theory Logprops
  imports Log
begin

text \<open>
  Crash safety of the log.  The commands the log gives the cache are followed
  on the abstract store of \<open>Bcache\<close>: \<open>commit\<close> and recovery write a sequence of
  blocks to disk, a crash keeps a prefix of it, and recovery from every
  prefix gives the old contents or the new ones.
\<close>

section \<open>Sequences of block writes\<close>

definition apply_writes :: "(u32 \<times> block) list \<Rightarrow> (u32 \<Rightarrow> block) \<Rightarrow> u32 \<Rightarrow> block" where
  "apply_writes tr d = fold (\<lambda>(n, x) d. d(n := x)) tr d"

text \<open>Blocks put in the cache and written through.\<close>

definition v_flush :: "(u32 \<times> block) list \<Rightarrow> bview \<Rightarrow> bview" where
  "v_flush tr v = v\<lparr>vdata := apply_writes tr (vdata v), vdisk := apply_writes tr (vdisk v), vtrace := vtrace v @ tr\<rparr>"

text \<open>The block of the log that holds entry \<open>i\<close>; the header and the first \<open>k - 1\<close> entries.\<close>

definition log_blk :: "u32 \<Rightarrow> nat \<Rightarrow> u32" where
  "log_blk st i = st + of_nat i + 1"

definition log_area :: "u32 \<Rightarrow> nat \<Rightarrow> u32 set" where
  "log_area st k = (\<lambda>i. st + of_nat i) ` {..<k}"

definition layout :: "u32 \<Rightarrow> nat \<Rightarrow> u32 list \<Rightarrow> bool" where
  "layout st k bs \<longleftrightarrow> length bs < k \<and> k \<le> LOGSIZE \<and> distinct bs \<and> set bs \<inter> log_area st k = {}"

definition hdr :: "u32 list \<Rightarrow> block \<Rightarrow> block" where
  "hdr bs d = fold (\<lambda>i d. put32 d (4 + 4 * i) (bs ! i)) [0..<length bs] (put32 d 0 (of_nat (length bs)))"

definition log_tr :: "u32 \<Rightarrow> u32 list \<Rightarrow> (u32 \<Rightarrow> block) \<Rightarrow> nat \<Rightarrow> (u32 \<times> block) list" where
  "log_tr st bs d i = map (\<lambda>j. (log_blk st j, d (bs ! j))) [0..<i]"

definition home_tr :: "u32 \<Rightarrow> u32 list \<Rightarrow> (u32 \<Rightarrow> block) \<Rightarrow> nat \<Rightarrow> (u32 \<times> block) list" where
  "home_tr st bs d i = map (\<lambda>j. (bs ! j, d (log_blk st j))) [0..<i]"

lemma apply_writes_simps [simp]:
  "apply_writes [] d = d" "apply_writes ((n, x) # tr) d = apply_writes tr (d(n := x))"
  "apply_writes (tr @ tr') d = apply_writes tr' (apply_writes tr d)"
  by (simp_all add: apply_writes_def)

lemma apply_writes_map_of: "apply_writes tr d m = (case map_of (rev tr) m of None \<Rightarrow> d m | Some x \<Rightarrow> x)"
  by (induction tr rule: rev_induct) auto

lemma apply_writes_other [simp]: "m \<notin> fst ` set tr \<Longrightarrow> apply_writes tr d m = d m"
  using map_of_eq_None_iff [of "rev tr" m] by (simp add: apply_writes_map_of)

lemma apply_writes_cong: "d m = d' m \<or> m \<in> fst ` set tr \<Longrightarrow> apply_writes tr d m = apply_writes tr d' m"
  using map_of_eq_None_iff [of "rev tr" m] by (auto simp: apply_writes_map_of split: option.split)

lemma apply_writes_in:
  "distinct (map fst tr) \<Longrightarrow> (n, x) \<in> set tr \<Longrightarrow> apply_writes tr d n = x"
  by (simp add: apply_writes_map_of rev_map [symmetric])

lemma v_flush_simps [simp]:
  "v_flush [] v = v" "v_flush tr' (v_flush tr v) = v_flush (tr @ tr') v"
  "vdata (v_flush tr v) = apply_writes tr (vdata v)" "vdisk (v_flush tr v) = apply_writes tr (vdisk v)"
  "vrefs (v_flush tr v) = vrefs v" "vlkd (v_flush tr v) = vlkd v" "vtrace (v_flush tr v) = vtrace v @ tr"
  by (simp_all add: v_flush_def)

lemma v_write_put: "v_write n (v_put n x v) = v_flush [(n, x)] v"
  by (simp add: v_defs v_flush_def)

lemma tidy_flush: "tidy v \<Longrightarrow> tidy (v_flush tr v)"
  by (auto simp: tidy_def intro!: apply_writes_cong)

lemma v_read_sel [simp]:
  "vrefs (v_read n v) = (vrefs v)(n := vrefs v n + 1)" "vlkd (v_read n v) = (vlkd v)(n := True)"
  by (simp_all add: v_read_def)

lemma tidy_read: "tidy v \<Longrightarrow> vrefs v n + 1 \<noteq> 0 \<Longrightarrow> tidy (v_read n v)"
  by (auto simp: tidy_def v_read_def)

lemma log_blk_eq: "i < LOGSIZE \<Longrightarrow> j < LOGSIZE \<Longrightarrow> log_blk st i = log_blk st j \<longleftrightarrow> i = j"
  by (auto simp: log_blk_def LOGSIZE_def MAXOPBLOCKS_def word_of_nat_eq_iff take_bit_nat_eq_self)

lemma log_blk_area: "i + 1 < k \<Longrightarrow> log_blk st i \<in> log_area st k"
  unfolding log_area_def log_blk_def by (rule image_eqI [of _ _ "Suc i"]) (simp_all add: algebra_simps)

lemma start_area: "0 < k \<Longrightarrow> st \<in> log_area st k"
  unfolding log_area_def by (rule image_eqI [of _ _ 0]) simp_all

lemma log_blk_start: "i < LOGSIZE \<Longrightarrow> log_blk st i \<noteq> st"
proof
  assume a: "i < LOGSIZE" "log_blk st i = st"
  then have "(of_nat (Suc i) :: u32) = of_nat 0" by (simp add: log_blk_def algebra_simps)
  then have "Suc i = 0" using a(1) unfolding word_of_nat_eq_iff
    by (simp add: take_bit_nat_eq_self LOGSIZE_def MAXOPBLOCKS_def)
  then show False by simp
qed

lemma layoutD:
  assumes "layout st k bs"
  shows "length bs < k" "length bs < LOGSIZE" "distinct bs" "set bs \<inter> log_area st k = {}" "st \<notin> set bs"
    "\<And>i b. i < length bs \<Longrightarrow> b \<in> set bs \<Longrightarrow> log_blk st i \<noteq> b"
    "\<And>i. i < length bs \<Longrightarrow> log_blk st i \<in> log_area st k" "st \<in> log_area st k"
proof -
  show l: "length bs < k" "length bs < LOGSIZE" "distinct bs" and d: "set bs \<inter> log_area st k = {}"
    using assms by (auto simp: layout_def)
  show st: "st \<in> log_area st k" by (rule start_area) (use l in simp)
  with d show "st \<notin> set bs" by auto
  show blk: "log_blk st i \<in> log_area st k" if "i < length bs" for i
    by (rule log_blk_area) (use that l in simp)
  show "log_blk st i \<noteq> b" if "i < length bs" "b \<in> set bs" for i b
    using blk [OF that(1)] that(2) d by auto
qed

lemma log_tr_dom: "fst ` set (log_tr st bs d i) = log_blk st ` {..<i}"
  by (simp add: log_tr_def image_image lessThan_atLeast0)

lemma home_tr_dom: "i \<le> length bs \<Longrightarrow> fst ` set (home_tr st bs d i) = set (take i bs)"
  by (simp add: home_tr_def image_image nth_image)

lemma log_tr_start:
  assumes "layout st k bs"
  shows "st \<notin> fst ` set (log_tr st bs d (length bs))"
proof -
  have "log_blk st j \<noteq> st" if "j < length bs" for j
    by (rule log_blk_start) (use that layoutD(2) [OF assms] in simp)
  then show ?thesis unfolding log_tr_dom by force
qed

lemma log_tr_avoids:
  assumes "layout st k bs" and "i \<le> length bs" and "b \<notin> log_area st k \<or> b \<in> set bs"
  shows "b \<notin> fst ` set (log_tr st bs d i)"
proof -
  note L = layoutD [OF assms(1)]
  have "log_blk st j \<noteq> b" if "j < i" for j using assms(2,3) L(4) L(7) [of j] that by auto
  then show ?thesis unfolding log_tr_dom by auto
qed

section \<open>The loops\<close>

lemma frm_log: "bio_frm t = bio_frm s \<Longrightarrow> log t = log s"
  by (drule arg_cong [where f = log]) (simp add: bio_frm_def)

text \<open>What \<open>commit\<close> needs of the store: the blocks of the transaction are pinned, and a buffer is free.\<close>

definition ready :: "u32 \<Rightarrow> nat \<Rightarrow> u32 list \<Rightarrow> bview \<Rightarrow> bool" where
  "ready st k bs v \<longleftrightarrow> layout st k bs \<and> tidy v \<and> card {m. vrefs v m \<noteq> 0} < NBUF \<and>
     (\<forall>m \<in> log_area st k \<union> set bs. \<not> vlkd v m \<and> vrefs v m + 1 \<noteq> 0) \<and> (\<forall>m \<in> set bs. vrefs v m \<noteq> 0)"

lemma readyD:
  assumes "ready st k bs v"
  shows "layout st k bs" "tidy v" "card {m. vrefs v m \<noteq> 0} < NBUF"
    "\<And>m. m \<in> log_area st k \<Longrightarrow> \<not> vlkd v m \<and> vrefs v m + 1 \<noteq> 0"
    "\<And>m. m \<in> set bs \<Longrightarrow> \<not> vlkd v m \<and> vrefs v m + 1 \<noteq> 0" "\<And>m. m \<in> set bs \<Longrightarrow> vrefs v m \<noteq> 0"
  using assms unfolding ready_def by blast+

lemma ready_flush: "ready st k bs v \<Longrightarrow> ready st k bs (v_flush tr v)"
  using tidy_flush by (simp add: ready_def)

lemma ready_room:
  assumes "ready st k bs v" and "m \<in> log_area st k"
  shows "room v m" and "b \<in> set bs \<Longrightarrow> room (v_read m v) b"
proof -
  note R = readyD [OF assms(1)]
  show "room v m" using R(2,3) R(4) [OF assms(2)] by (simp add: room_def)
  assume b: "b \<in> set bs"
  moreover have "b \<noteq> m" using b assms(2) R(1) by (auto simp: layout_def)
  ultimately show "room (v_read m v) b"
    using tidy_read [OF R(2)] R(4) [OF assms(2)] R(5) [OF b] R(6) [OF b] by (simp add: room_def v_read_def)
qed

text \<open>The transaction the in-memory header describes.\<close>

definition tx :: "'a logk_scheme \<Rightarrow> u32 list" where
  "tx s = take (nat (lh_n (log_lh (log s)))) (lh_block (log_lh (log s)))"

definition tx_ok :: "'a logk_scheme \<Rightarrow> bool" where
  "tx_ok s \<longleftrightarrow> log_dev (log s) = ROOTDEV \<and> 0 \<le> lh_n (log_lh (log s)) \<and>
     nat (lh_n (log_lh (log s))) \<le> length (lh_block (log_lh (log s)))"

lemma tx_okD:
  assumes "tx_ok s"
  shows "log_dev (log s) = ROOTDEV" "lh_n (log_lh (log s)) = int (length (tx s))"
    "\<And>i. i < length (tx s) \<Longrightarrow> lh_block (log_lh (log s)) ! i = tx s ! i"
  using assms by (simp_all add: tx_ok_def tx_def)

lemma write_log_ok:
  assumes inv: "bio_inv s" and t: "tx_ok s" and r: "ready (log_start (log s)) k (tx s) (bio_abs s)"
  shows "\<exists>s'. write_log s = Inr s' \<and> bio_inv s' \<and> bio_frm s' = bio_frm s \<and>
    bio_abs s' = v_flush (log_tr (log_start (log s)) (tx s) (vdata (bio_abs s)) (length (tx s))) (bio_abs s)"
proof -
  let ?st = "log_start (log s)" and ?bs = "tx s" and ?v = "bio_abs s"
  note T = tx_okD [OF t] and L = layoutD [OF readyD(1) [OF r]]
  define I where "I i t \<longleftrightarrow> bio_inv t \<and> bio_frm t = bio_frm s \<and> bio_abs t = v_flush (log_tr ?st ?bs (vdata ?v) i) ?v"
    for i and t :: "'a logk_scheme"
  have step: "\<exists>t'. (bindE (bread (log_dev (log t)) (log_start (log t) + of_nat i + 1) t) (\<lambda>(to, s).
       bindE (bread (log_dev (log s)) (lh_block (log_lh (log s)) ! i) s) (\<lambda>(from, s).
       let s = bio_put to (bio_get from s) s in
       bindE (bwrite to s) (\<lambda>s. bindE (brelse from s) (\<lambda>s. brelse to s))))) = Inr t' \<and> I (Suc i) t'"
    if i: "i < length ?bs" and It: "I i t" for i t
  proof -
    from It have inv_t: "bio_inv t" and f: "bio_frm t = bio_frm s"
      and a: "bio_abs t = v_flush (log_tr ?st ?bs (vdata ?v) i) ?v" by (simp_all add: I_def)
    note R = ready_flush [OF r, of "log_tr ?st ?bs (vdata ?v) i", folded a]
    have m: "log_blk ?st i \<in> log_area ?st k" "?bs ! i \<in> set ?bs" "?bs ! i \<noteq> log_blk ?st i"
      using L(7) [OF i] L(6) [OF i nth_mem [OF i]] i by simp_all
    have d: "vdata (bio_abs t) (?bs ! i) = vdata ?v (?bs ! i)"
      unfolding a using log_tr_avoids [OF readyD(1) [OF r]] i m(2) by simp
    from bc.copy_write [OF inv_t ready_room(1) [OF R m(1)] ready_room(2) [OF R m(1,2)] m(3)]
    obtain b s1 c s2 s3 s4 s5 where e: "bread ROOTDEV (log_blk ?st i) t = Inr (b, s1)"
      "bread ROOTDEV (?bs ! i) s1 = Inr (c, s2)" "bwrite b (bio_put b (bio_get c s2) s2) = Inr s3"
      "brelse c s3 = Inr s4" "brelse b s4 = Inr s5" "bio_frm s1 = bio_frm t" "bio_inv s5" "bio_frm s5 = bio_frm t"
      "bio_abs s5 = v_write (log_blk ?st i) (v_put (log_blk ?st i) (vdata (bio_abs t) (?bs ! i)) (bio_abs t))"
      by blast
    have "I (Suc i) s5"
      using e(7-9) f a d by (simp add: I_def v_write_put log_tr_def)
    moreover have "log t = log s" "log s1 = log s" using frm_log [OF f] frm_log [OF e(6)] by simp_all
    ultimately show ?thesis using e(1-5) T(1) T(3) [OF i] by (simp add: log_blk_def)
  qed
  have "I 0 s" using inv by (simp add: I_def log_tr_def)
  from foldE_upt [where I = I, OF this step] show ?thesis
    using T(2) by (simp add: write_log_def I_def)
qed

lemma length_hdr [simp]: "length (hdr bs d) = length d"
  by (simp add: hdr_def)

lemma write_head_ok:
  fixes s :: "'a logk_scheme"
  assumes inv: "bio_inv s" and t: "tx_ok s" and r: "room (bio_abs s) (log_start (log s))"
  shows "\<exists>s'. write_head s = Inr s' \<and> bio_inv s' \<and> bio_frm s' = bio_frm s \<and>
    bio_abs s' = v_flush [(log_start (log s), hdr (tx s) (vdata (bio_abs s) (log_start (log s))))] (bio_abs s)"
proof -
  note T = tx_okD [OF t]
  have len: "length (hdr (tx s) (vdata (bio_abs s) (log_start (log s)))) = BSIZE"
    using bc.size_law [OF inv] by simp
  from bc.read_put_write_rel [where f = "hdr (tx s)", OF inv r len]
  obtain b s1 s2 s3 where e: "bread ROOTDEV (log_start (log s)) s = Inr (b, s1)" "bio_frm s1 = bio_frm s"
    "bio_get b s1 = vdata (bio_abs s) (log_start (log s))"
    "bwrite b (bio_put b (hdr (tx s) (vdata (bio_abs s) (log_start (log s)))) s1) = Inr s2" "brelse b s2 = Inr s3"
    "bio_inv s3" "bio_frm s3 = bio_frm s"
    "bio_abs s3 = v_write (log_start (log s)) (v_put (log_start (log s))
       (hdr (tx s) (vdata (bio_abs s) (log_start (log s)))) (bio_abs s))" by blast
  have "hdr (tx s) d = fold (\<lambda>i d. put32 d (4 + 4 * i) (lh_block (log_lh (log s)) ! i))
      [0..<nat (lh_n (log_lh (log s)))] (put32 d 0 (word_of_int (lh_n (log_lh (log s)))))" for d
    unfolding hdr_def using T(2,3) by (intro fold_cong) auto
  then have "write_head s = Inr s3"
    using e(1-5) T(1) frm_log [OF e(2)] by (simp add: write_head_def Let_def)
  with e(6-8) show ?thesis by (auto simp: v_write_put)
qed

lemma bio_upd_log [simp]:
  "bio_inv (s\<lparr>log := x\<rparr>) = bio_inv s" "bio_abs (s\<lparr>log := x\<rparr>) = bio_abs s" "bio_holds (s\<lparr>log := x\<rparr>) = bio_holds s"
  "bio_get b (s\<lparr>log := x\<rparr>) = bio_get b s"
  by (simp_all add: bio_inv_def bio_abs_def bio_holds_def bio_get_def calm_def dll_def idx_def the_pid_def fun_eq_iff
      split: option.split)

lemma read_head_loop:
  assumes "n \<le> LOGSIZE" and "length (lh_block (log_lh (log s))) = LOGSIZE"
  shows "foldE (\<lambda>i s. if LOGSIZE \<le> i then Inl Fault
      else Inr (upd_log (\<lambda>l. l\<lparr>log_lh := (log_lh l)\<lparr>lh_block := (lh_block (log_lh l))
             [i := get32 (bio_get b s) (4 + 4 * i)]\<rparr>\<rparr>) s)) [0..<n] s =
    Inr (upd_log (\<lambda>l. l\<lparr>log_lh := (log_lh l)\<lparr>lh_block := map (\<lambda>i. get32 (bio_get b s) (4 + 4 * i)) [0..<n] @
      drop n (lh_block (log_lh (log s)))\<rparr>\<rparr>) s)"
  using assms(1)
proof (induction n)
  case 0
  then show ?case by (simp add: upd_log_def)
next
  case (Suc n)
  let ?g = "\<lambda>i. get32 (bio_get b s) (4 + 4 * i)" and ?x = "lh_block (log_lh (log s))"
  have "(map ?g [0..<n] @ drop n ?x)[n := ?g n] = map ?g [0..<Suc n] @ drop (Suc n) ?x"
    using Suc.prems assms(2) by (simp add: list_update_append Cons_nth_drop_Suc [symmetric])
  then show ?case using Suc by (simp add: foldE_append upd_log_def)
qed

lemma read_head_ok:
  fixes s :: "'a logk_scheme"
  assumes inv: "bio_inv s" and d: "log_dev (log s) = ROOTDEV" and r: "room (bio_abs s) (log_start (log s))"
    and n: "sint (get32 (vdata (bio_abs s) (log_start (log s))) 0) = int n" "n \<le> LOGSIZE"
    and len: "length (lh_block (log_lh (log s))) = LOGSIZE"
  shows "\<exists>s'. read_head s = Inr s' \<and> bio_inv s' \<and> bio_abs s' = bio_abs s \<and>
    log s' = (log s)\<lparr>log_lh := (log_lh (log s))\<lparr>lh_n := int n, lh_block := map (\<lambda>i. get32 (vdata (bio_abs s) (log_start (log s))) (4 + 4 * i)) [0..<n]
      @ drop n (lh_block (log_lh (log s)))\<rparr>\<rparr>"
proof -
  let ?hd = "vdata (bio_abs s) (log_start (log s))"
  from bc.read_law [OF inv r] obtain b s1 where 1: "bread ROOTDEV (log_start (log s)) s = Inr (b, s1)" "bio_inv s1"
    "bio_abs s1 = v_read (log_start (log s)) (bio_abs s)" "bio_frm s1 = bio_frm s" "bio_holds s1 b (log_start (log s))"
    by blast
  have g: "bio_get b s1 = ?hd" using bc.get_law [OF 1(2,5)] 1(3) by (simp add: v_read_def)
  note l1 = frm_log [OF 1(4)]
  define l where "l = (log s)\<lparr>log_lh := (log_lh (log s))\<lparr>lh_n := int n, lh_block := map (\<lambda>i. get32 ?hd (4 + 4 * i)) [0..<n]
      @ drop n (lh_block (log_lh (log s)))\<rparr>\<rparr>"
  let ?s2 = "s1\<lparr>log := l\<rparr>"
  from bc.rel_law [of ?s2 b "log_start (log s)"] 1(2,5) obtain s3 where 3: "brelse b ?s2 = Inr s3" "bio_inv s3"
    "bio_abs s3 = v_rel (log_start (log s)) (bio_abs s1)" "bio_frm s3 = bio_frm ?s2" by auto
  have "read_head s = brelse b ?s2"
    using 1(1) d n len g l1 read_head_loop [OF n(2), of "upd_log (set_n (int n)) s1" b]
    by (simp add: read_head_def Let_def upd_log_def set_n_def l_def)
  moreover have "bio_abs s3 = bio_abs s"
    using r 3(3) 1(3) by (simp add: v_defs room_def fun_upd_idem)
  moreover have "log s3 = l" using frm_log [OF 3(4)] by simp
  ultimately show ?thesis using 3(1,2) by (simp add: l_def)
qed

text \<open>The store after the first \<open>i\<close> rounds of \<open>install_trans\<close>.\<close>

definition v_installed :: "u32 \<Rightarrow> u32 list \<Rightarrow> nat \<Rightarrow> bview \<Rightarrow> bview" where
  "v_installed st bs i v = (v_flush (home_tr st bs (vdata v) i) v)
     \<lparr>vrefs := (\<lambda>m. if m \<in> set (take i bs) then vrefs v m - 1 else vrefs v m)\<rparr>"

lemma home_tr_avoids: "layout st k bs \<Longrightarrow> i \<le> length bs \<Longrightarrow> m \<in> log_area st k \<Longrightarrow>
    m \<notin> fst ` set (home_tr st bs d i)"
  using set_take_subset [of i bs] unfolding layout_def by (auto simp: home_tr_dom)

lemma nth_notin_take: "distinct xs \<Longrightarrow> i < length xs \<Longrightarrow> xs ! i \<notin> set (take i xs)"
  by (auto simp: in_set_conv_nth nth_eq_iff_index_eq)

lemma v_installed_Suc:
  assumes "layout st k bs" and "i < length bs"
  shows "v_installed st bs (Suc i) v = v_unpin (bs ! i) (v_flush [(bs ! i, vdata v (log_blk st i))] (v_installed st bs i v))"
proof -
  have "bs ! i \<notin> set (take i bs)"
    using assms by (intro nth_notin_take) (simp_all add: layout_def)
  then show ?thesis
    using assms(2) by (auto simp: v_installed_def v_unpin_def v_flush_def home_tr_def take_Suc_conv_app_nth fun_eq_iff)
qed

lemma install_trans_ok:
  fixes s :: "'a logk_scheme"
  assumes inv: "bio_inv s" and t: "tx_ok s" and lay: "layout (log_start (log s)) k (tx s)"
    and rm: "\<And>i. i < length (tx s) \<Longrightarrow>
      room (v_installed (log_start (log s)) (tx s) i (bio_abs s)) (log_blk (log_start (log s)) i) \<and>
      room (v_read (log_blk (log_start (log s)) i) (v_installed (log_start (log s)) (tx s) i (bio_abs s))) (tx s ! i)"
  shows "\<exists>s'. install_trans s = Inr s' \<and> bio_inv s' \<and> bio_frm s' = bio_frm s \<and>
    bio_abs s' = v_installed (log_start (log s)) (tx s) (length (tx s)) (bio_abs s)"
proof -
  let ?st = "log_start (log s)" and ?bs = "tx s" and ?v = "bio_abs s"
  note T = tx_okD [OF t] and L = layoutD [OF lay]
  define I where "I i t \<longleftrightarrow> bio_inv t \<and> bio_frm t = bio_frm s \<and> bio_abs t = v_installed ?st ?bs i ?v"
    for i and t :: "'a logk_scheme"
  have step: "\<exists>t'. (bindE (bread (log_dev (log t)) (log_start (log t) + of_nat i + 1) t) (\<lambda>(lbuf, s).
       bindE (bread (log_dev (log s)) (lh_block (log_lh (log s)) ! i) s) (\<lambda>(dbuf, s).
       let s = bio_put dbuf (bio_get lbuf s) s in
       bindE (bwrite dbuf s) (\<lambda>s. bindE (bunpin dbuf s) (\<lambda>s. bindE (brelse lbuf s) (\<lambda>s. brelse dbuf s)))))) = Inr t' \<and>
       I (Suc i) t'"
    if i: "i < length ?bs" and It: "I i t" for i t
  proof -
    from It have inv_t: "bio_inv t" and f: "bio_frm t = bio_frm s" and a: "bio_abs t = v_installed ?st ?bs i ?v"
      by (simp_all add: I_def)
    have ne: "log_blk ?st i \<noteq> ?bs ! i" using L(6) [OF i nth_mem [OF i]] .
    have d: "vdata (bio_abs t) (log_blk ?st i) = vdata ?v (log_blk ?st i)"
      unfolding a v_installed_def using home_tr_avoids [OF lay _ L(7) [OF i], of i] i by simp
    from bc.copy_install [OF inv_t _ _ ne] rm [OF i] obtain b s1 c s2 s3 s4 s5 s6 where
      e: "bread ROOTDEV (log_blk ?st i) t = Inr (b, s1)" "bread ROOTDEV (?bs ! i) s1 = Inr (c, s2)"
      "bwrite c (bio_put c (bio_get b s2) s2) = Inr s3" "bunpin c s3 = Inr s4" "brelse b s4 = Inr s5"
      "brelse c s5 = Inr s6" "bio_frm s1 = bio_frm t" "bio_inv s6" "bio_frm s6 = bio_frm t"
      "bio_abs s6 = v_unpin (?bs ! i) (v_write (?bs ! i) (v_put (?bs ! i) (vdata (bio_abs t) (log_blk ?st i)) (bio_abs t)))"
      unfolding a by blast
    have "I (Suc i) s6"
      using e(8-10) f d by (simp add: I_def v_write_put v_installed_Suc [OF lay i] a)
    moreover have "log t = log s" "log s1 = log s" using frm_log [OF f] frm_log [OF e(7)] by simp_all
    ultimately show ?thesis using e(1-6) T(1) T(3) [OF i] by (simp add: log_blk_def)
  qed
  have "I 0 s" using inv by (simp add: I_def v_installed_def home_tr_def)
  from foldE_upt [where I = I, OF this step] show ?thesis
    using T(2) by (simp add: install_trans_def I_def)
qed

text \<open>With the blocks pinned, as in \<open>commit\<close>.\<close>

lemma card_refs_mono:
  "(\<And>m. vrefs v m = 0 \<Longrightarrow> vrefs v' m = 0) \<Longrightarrow> card {m. vrefs v' m \<noteq> 0} \<le> card {m. vrefs v m \<noteq> 0}"
  by (rule card_mono) auto

lemma installed_tidy:
  assumes "ready st k bs v" and "i \<le> length bs"
  shows "tidy (v_installed st bs i v)"
proof -
  note R = readyD [OF assms(1)]
  have sub: "m \<in> set (take i bs) \<Longrightarrow> m \<in> set bs" for m by (rule in_set_takeD)
  show ?thesis
    unfolding tidy_def
  proof (intro allI impI conjI)
    fix m assume z: "vrefs (v_installed st bs i v) m = 0"
    have "vdata v m = vdisk v m \<or> m \<in> fst ` set (home_tr st bs (vdata v) i)"
      using z R(2) assms(2) by (auto simp: v_installed_def home_tr_dom tidy_def split: if_split_asm)
    then show "vdata (v_installed st bs i v) m = vdisk (v_installed st bs i v) m"
      unfolding v_installed_def by (simp add: apply_writes_cong)
    show "\<not> vlkd (v_installed st bs i v) m"
      using z R(2) R(5) [of m] sub by (auto simp: v_installed_def tidy_def split: if_split_asm)
  qed
qed

lemma installed_room_area:
  assumes r: "ready st k bs v" and i: "i \<le> length bs" and m: "m \<in> log_area st k"
  shows "room (v_installed st bs i v) m"
proof -
  note R = readyD [OF r]
  have "vrefs (v_installed st bs i v) x = 0" if "vrefs v x = 0" for x
    using that R(6) [of x] in_set_takeD [of x i bs] by (auto simp: v_installed_def)
  from card_refs_mono [of v "v_installed st bs i v", OF this] R(3)
  have "card {m. vrefs (v_installed st bs i v) m \<noteq> 0} < NBUF" by simp
  moreover have "m \<notin> set (take i bs)" using m layoutD(4) [OF R(1)] in_set_takeD [of m i bs] by auto
  ultimately show ?thesis
    using installed_tidy [OF r i] R(4) [OF m] by (simp add: room_def v_installed_def)
qed

lemma installed_room_home:
  assumes r: "ready st k bs v" and i: "i < length bs"
  shows "room (v_read (log_blk st i) (v_installed st bs i v)) (bs ! i)"
proof -
  note R = readyD [OF r] and L = layoutD [OF readyD(1) [OF r]]
  let ?w = "v_installed st bs i v"
  have td: "tidy ?w" by (rule installed_tidy [OF r]) (use i in simp)
  have m: "log_blk st i \<in> log_area st k" "bs ! i \<in> set bs" "log_blk st i \<noteq> bs ! i" "bs ! i \<notin> set (take i bs)"
    "log_blk st i \<notin> set (take i bs)"
    using L(7) [OF i] L(6) [OF i nth_mem [OF i]] i nth_notin_take [OF L(3) i] L(6) [OF i] in_set_takeD [of _ i bs]
    by auto
  have w: "vrefs ?w (log_blk st i) = vrefs v (log_blk st i)" "vrefs ?w (bs ! i) = vrefs v (bs ! i)" "vlkd ?w = vlkd v"
    using m by (simp_all add: v_installed_def)
  have "tidy (v_read (log_blk st i) ?w)" by (rule tidy_read [OF td]) (use w R(4) [OF m(1)] in simp)
  then show ?thesis using w m(3) R(5) [OF m(2)] R(6) [OF m(2)] by (simp add: room_def)
qed

section \<open>Commit\<close>

text \<open>The disk writes of one commit, in order.\<close>

definition commit_tr :: "u32 \<Rightarrow> u32 list \<Rightarrow> (u32 \<Rightarrow> block) \<Rightarrow> (u32 \<times> block) list" where
  "commit_tr st bs d = log_tr st bs d (length bs) @ (st, hdr bs (d st)) #
     map (\<lambda>b. (b, d b)) bs @ [(st, hdr [] (hdr bs (d st)))]"

lemma home_tr_logged:
  assumes "layout st k bs"
  shows "home_tr st bs (apply_writes (log_tr st bs d (length bs) @ [(st, x)]) d) (length bs) = map (\<lambda>b. (b, d b)) bs"
proof -
  note L = layoutD [OF assms]
  have "apply_writes (log_tr st bs d (length bs)) d (log_blk st j) = d (bs ! j)" if j: "j < length bs" for j
  proof (rule apply_writes_in)
    show "distinct (map fst (log_tr st bs d (length bs)))"
      using L(2) by (auto simp: log_tr_def distinct_map inj_on_def log_blk_eq)
    show "(log_blk st j, d (bs ! j)) \<in> set (log_tr st bs d (length bs))" using j by (auto simp: log_tr_def)
  qed
  moreover have "log_blk st j \<noteq> st" if "j < length bs" for j by (rule log_blk_start) (use that L(2) in simp)
  ultimately show ?thesis by (intro nth_equalityI) (simp_all add: home_tr_def)
qed

lemma commit_ok:
  fixes s :: "'a logk_scheme"
  assumes inv: "bio_inv s" and t: "tx_ok s" and r: "ready (log_start (log s)) k (tx s) (bio_abs s)" and ne: "tx s \<noteq> []"
  shows "\<exists>s'. commit s = Inr s' \<and> bio_inv s' \<and> log s' = set_n 0 (log s) \<and> bio_abs s' =
    (v_flush (commit_tr (log_start (log s)) (tx s) (vdata (bio_abs s))) (bio_abs s))
      \<lparr>vrefs := (\<lambda>m. if m \<in> set (tx s) then vrefs (bio_abs s) m - 1 else vrefs (bio_abs s) m)\<rparr>"
proof -
  define st bs v where "st = log_start (log s)" and "bs = tx s" and "v = bio_abs s"
  note r' = r [folded st_def bs_def v_def] and L = layoutD [OF readyD(1) [OF r], folded st_def bs_def]
  have stbs: "log_start (log u) = st" "tx u = bs" "tx_ok u" if "log u = log s" for u :: "'a logk_scheme"
    using that t by (simp_all add: st_def bs_def tx_def tx_ok_def)
  from write_log_ok [OF inv t r] obtain s1 where 1: "write_log s = Inr s1" "bio_inv s1" "bio_frm s1 = bio_frm s"
    "bio_abs s1 = v_flush (log_tr st bs (vdata v) (length bs)) v" by (auto simp: st_def bs_def v_def)
  note l1 = frm_log [OF 1(3)] and r1 = ready_flush [OF r', of "log_tr st bs (vdata v) (length bs)", folded 1(4)]
  from write_head_ok [OF 1(2) stbs(3) [OF l1]] ready_room(1) [OF r1 L(8)] stbs [OF l1]
  obtain s2 where 2: "write_head s1 = Inr s2" "bio_inv s2" "bio_frm s2 = bio_frm s1"
    "bio_abs s2 = v_flush [(st, hdr bs (vdata (bio_abs s1) st))] (bio_abs s1)" by auto
  note l2 = trans [OF frm_log [OF 2(3)] l1]
  have d1: "vdata (bio_abs s1) st = vdata v st"
    unfolding 1(4) using log_tr_start [OF readyD(1) [OF r']] by simp
  let ?tr = "log_tr st bs (vdata v) (length bs) @ [(st, hdr bs (vdata v st))]"
  have a2: "bio_abs s2 = v_flush ?tr v" using 2(4) d1 by (simp add: 1(4))
  note r2 = ready_flush [OF r', of ?tr, folded a2]
  have "layout (log_start (log s2)) k (tx s2)" using stbs [OF l2] readyD(1) [OF r'] by simp
  from install_trans_ok [OF 2(2) stbs(3) [OF l2] this] installed_room_area [OF r2] installed_room_home [OF r2]
    L(7) stbs [OF l2]
  obtain s3 where 3: "install_trans s2 = Inr s3" "bio_inv s3" "bio_frm s3 = bio_frm s2"
    "bio_abs s3 = v_installed st bs (length bs) (bio_abs s2)" by fastforce
  note l3 = trans [OF frm_log [OF 3(3)] l2]
  let ?s4 = "upd_log (set_n 0) s3"
  have 4: "bio_inv ?s4" "tx_ok ?s4" "tx ?s4 = []" "log_start (log ?s4) = st" "bio_abs ?s4 = bio_abs s3"
    using 3(2) t l3 by (simp_all add: upd_log_def tx_ok_def tx_def set_n_def st_def)
  have "room (bio_abs ?s4) st" unfolding 4(5) 3(4) by (rule installed_room_area [OF r2 _ L(8)]) simp
  from write_head_ok [OF 4(1,2)] this 4(3-5)
  obtain s5 where 5: "write_head ?s4 = Inr s5" "bio_inv s5" "bio_frm s5 = bio_frm ?s4"
    "bio_abs s5 = v_flush [(st, hdr [] (vdata (bio_abs s3) st))] (bio_abs s3)" by auto
  have h: "home_tr st bs (vdata (bio_abs s2)) (length bs) = map (\<lambda>b. (b, vdata v b)) bs"
    unfolding a2 using home_tr_logged [OF readyD(1) [OF r']] by simp
  have "st \<notin> fst ` set (map (\<lambda>b. (b, vdata v b)) bs)" using L(5) by auto
  then have "vdata (bio_abs s3) st = hdr bs (vdata v st)"
    unfolding 3(4) v_installed_def h by (simp add: a2)
  then have a5: "bio_abs s5 = v_flush [(st, hdr [] (hdr bs (vdata v st)))] (bio_abs s3)" using 5(4) by simp
  have "commit s = Inr s5"
    using 1(1) 2(1) 3(1) 5(1) ne tx_okD(2) [OF t] by (simp add: commit_def)
  moreover have "bio_abs s5 = (v_flush (commit_tr st bs (vdata v)) v)
      \<lparr>vrefs := (\<lambda>m. if m \<in> set bs then vrefs v m - 1 else vrefs v m)\<rparr>"
    unfolding a5 3(4) v_installed_def h unfolding a2 by (rule bview.equality) (simp_all add: v_flush_def commit_tr_def fun_eq_iff)
  moreover have "log s5 = set_n 0 (log s)" using frm_log [OF 5(3)] l3 by (simp add: upd_log_def)
  ultimately show ?thesis using 5(2) unfolding st_def bs_def v_def by blast
qed

section \<open>Recovery\<close>

definition describes :: "block \<Rightarrow> u32 list \<Rightarrow> bool" where
  "describes h bs \<longleftrightarrow> get32 h 0 = of_nat (length bs) \<and> (\<forall>i<length bs. get32 h (4 + 4 * i) = bs ! i)"

text \<open>The cache as \<open>binit\<close> leaves it at boot, before any block is referenced.\<close>

definition fresh :: "bview \<Rightarrow> bool" where
  "fresh v \<longleftrightarrow> (\<forall>m. vrefs v m = 0 \<and> \<not> vlkd v m \<and> vdata v m = vdisk v m)"

lemma describes_hdr:
  assumes "length d = BSIZE" and "length bs < LOGSIZE"
  shows "describes (hdr bs d) bs"
proof -
  have "4 + 4 * length bs \<le> length (put32 d 0 (of_nat (length bs)))"
    using assms by (simp add: BSIZE_def LOGSIZE_def MAXOPBLOCKS_def)
  from get32_fold_put32 [OF this] assms(1) show ?thesis
    unfolding describes_def hdr_def by (simp add: get32_fold_put32_before BSIZE_def)
qed

lemma sint_of_nat_small: "n < LOGSIZE \<Longrightarrow> sint (of_nat n :: u32) = int n"
  by (simp add: signed_of_nat LOGSIZE_def MAXOPBLOCKS_def) (rule signed_take_bit_int_eq_self; simp)

lemma fresh_installed:
  assumes "fresh v" and "layout st k bs" and "i \<le> length bs"
  shows "tidy (v_installed st bs i v)" and "card {m. vrefs (v_installed st bs i v) m \<noteq> 0} = i"
    and "vrefs (v_installed st bs i v) m = (if m \<in> set (take i bs) then -1 else 0)"
    and "\<not> vlkd (v_installed st bs i v) m"
proof -
  show r: "vrefs (v_installed st bs i v) m = (if m \<in> set (take i bs) then -1 else 0)" for m
    using assms(1) by (simp add: v_installed_def fresh_def)
  show "\<not> vlkd (v_installed st bs i v) m" for m using assms(1) by (simp add: v_installed_def fresh_def)
  then show "tidy (v_installed st bs i v)"
    using assms(1) unfolding tidy_def by (auto simp: v_installed_def fresh_def intro!: apply_writes_cong)
  have "{m. vrefs (v_installed st bs i v) m \<noteq> 0} = set (take i bs)" by (auto simp: r)
  moreover have "card (set (take i bs)) = i"
    using assms(2,3) by (simp add: distinct_card layout_def)
  ultimately show "card {m. vrefs (v_installed st bs i v) m \<noteq> 0} = i" by simp
qed

lemma fresh_room:
  assumes f: "fresh v" and l: "layout st k bs"
  shows "i \<le> length bs \<Longrightarrow> m \<in> log_area st k \<Longrightarrow> room (v_installed st bs i v) m"
    and "i < length bs \<Longrightarrow> room (v_read (log_blk st i) (v_installed st bs i v)) (bs ! i)"
proof -
  note L = layoutD [OF l]
  { assume i: "i \<le> length bs" and m: "m \<in> log_area st k"
    note F = fresh_installed [OF f l i]
    have "m \<notin> set (take i bs)" using m L(4) in_set_takeD [of m i bs] by auto
    then show "room (v_installed st bs i v) m"
      using F i L(2) by (simp add: room_def LOGSIZE_def MAXOPBLOCKS_def NBUF_def) }
  assume i: "i < length bs"
  note F = fresh_installed [OF f l less_imp_le [OF i]]
  let ?w = "v_installed st bs i v" and ?m = "log_blk st i"
  have n: "?m \<notin> set (take i bs)" "bs ! i \<notin> set (take i bs)" "?m \<noteq> bs ! i"
    using L(6) [OF i] in_set_takeD [of ?m i bs] nth_notin_take [OF L(3) i] i by auto
  have "tidy (v_read ?m ?w)" by (rule tidy_read [OF F(1)]) (use F(3) n in simp)
  moreover have "{m. vrefs (v_read ?m ?w) m \<noteq> 0} = insert ?m {m. vrefs ?w m \<noteq> 0}"
    using n by (auto simp: F(3))
  then have "card {m. vrefs (v_read ?m ?w) m \<noteq> 0} \<le> Suc i"
    using card_insert_le_m1 [of "Suc i" "{m. vrefs ?w m \<noteq> 0}" ?m] F(2) by simp
  then have "card {m. vrefs (v_read ?m ?w) m \<noteq> 0} < NBUF"
    using i L(2) by (simp add: LOGSIZE_def MAXOPBLOCKS_def NBUF_def)
  ultimately show "room (v_read ?m ?w) (bs ! i)" using n F(3,4) by (simp add: room_def)
qed

lemma recover_ok:
  fixes s :: "'a logk_scheme"
  assumes inv: "bio_inv s" and dev: "log_dev (log s) = ROOTDEV" and len: "length (lh_block (log_lh (log s))) = LOGSIZE"
    and f: "fresh (bio_abs s)" and l: "layout (log_start (log s)) k bs"
    and h: "describes (disk s (log_start (log s))) bs"
  shows "\<exists>s'. recover_from_log s = Inr s' \<and> bio_inv s' \<and> lh_n (log_lh (log s')) = 0 \<and>
    disk s' = apply_writes (home_tr (log_start (log s)) bs (disk s) (length bs) @
      [(log_start (log s), hdr [] (disk s (log_start (log s))))]) (disk s) \<and>
    writes s' = writes s @ home_tr (log_start (log s)) bs (disk s) (length bs) @
      [(log_start (log s), hdr [] (disk s (log_start (log s))))] \<and>
    vrefs (bio_abs s') = (\<lambda>m. if m \<in> set bs then -1 else 0)"
proof -
  define st v where "st = log_start (log s)" and "v = bio_abs s"
  note l' = l [folded st_def] and f' = f [folded v_def]
  note L = layoutD [OF l'] and R = fresh_room [OF f' l']
  have d: "vdisk v = disk s" "vdata v = disk s" using f' by (auto simp: v_def bio_abs_def fresh_def fun_eq_iff)
  have rst: "room v st" using R(1) [of 0 st] L(8) by (simp add: v_installed_def home_tr_def)
  have n: "sint (get32 (vdata (bio_abs s) (log_start (log s))) 0) = int (length bs)"
    using h sint_of_nat_small [OF L(2)] d by (simp add: describes_def v_def [symmetric])
  from read_head_ok [OF inv dev rst [unfolded st_def v_def] n _ len] L(2)
  obtain s1 where 1: "read_head s = Inr s1" "bio_inv s1" "bio_abs s1 = v" "log s1 = (log s)\<lparr>log_lh := (log_lh (log s))
      \<lparr>lh_n := int (length bs), lh_block := map (\<lambda>i. get32 (disk s st) (4 + 4 * i)) [0..<length bs] @
         drop (length bs) (lh_block (log_lh (log s)))\<rparr>\<rparr>"
    using d by (auto simp: v_def [symmetric] st_def [symmetric])
  have bs: "map (\<lambda>i. get32 (disk s st) (4 + 4 * i)) [0..<length bs] = bs"
    using h by (intro nth_equalityI) (simp_all add: describes_def st_def)
  have t1: "tx s1 = bs" "tx_ok s1" "log_start (log s1) = st"
    unfolding tx_def tx_ok_def 1(4) using bs dev len L(2) by (simp_all add: st_def)
  from install_trans_ok [OF 1(2) t1(2)] l' R L(7) t1 1(3)
  obtain s2 where 2: "install_trans s1 = Inr s2" "bio_inv s2" "bio_frm s2 = bio_frm s1"
    "bio_abs s2 = v_installed st bs (length bs) v" by fastforce
  let ?s3 = "upd_log (set_n 0) s2"
  have 3: "bio_inv ?s3" "tx_ok ?s3" "tx ?s3 = []" "log_start (log ?s3) = st" "bio_abs ?s3 = bio_abs s2"
    using 2(2) t1(2,3) frm_log [OF 2(3)] by (simp_all add: upd_log_def tx_ok_def tx_def set_n_def)
  have "room (bio_abs ?s3) st" unfolding 3(5) 2(4) by (rule R(1) [OF _ L(8)]) simp
  from write_head_ok [OF 3(1,2)] this 3(3-5) obtain s4 where 4: "write_head ?s3 = Inr s4" "bio_inv s4"
    "bio_frm s4 = bio_frm ?s3" "bio_abs s4 = v_flush [(st, hdr [] (vdata (bio_abs s2) st))] (bio_abs s2)" by auto
  have "vdata (bio_abs s2) st = disk s st"
    unfolding 2(4) v_installed_def using home_tr_avoids [OF l' order_refl L(8)] d by simp
  moreover have "disk s4 = vdisk (bio_abs s4)" "writes s4 = vtrace (bio_abs s4)" "vtrace v = writes s"
    by (simp_all add: bio_abs_def v_def)
  ultimately have "disk s4 = apply_writes (home_tr st bs (disk s) (length bs) @ [(st, hdr [] (disk s st))]) (disk s)"
    "writes s4 = writes s @ home_tr st bs (disk s) (length bs) @ [(st, hdr [] (disk s st))]"
    using 4(4) 2(4) d by (simp_all add: v_installed_def)
  moreover have "vrefs (bio_abs s4) = (\<lambda>m. if m \<in> set bs then -1 else 0)"
    using 4(4) 2(4) fresh_installed(3) [OF f' l' order_refl] by (simp add: fun_eq_iff)
  moreover have "lh_n (log_lh (log s4)) = 0" using frm_log [OF 4(3)] by (simp add: upd_log_def set_n_def)
  moreover have "recover_from_log s = Inr s4" using 1(1) 2(1) 4(1) by (simp add: recover_from_log_def)
  ultimately show ?thesis using 4(2) by (simp add: st_def)
qed

section \<open>A crash in the middle of a commit\<close>

lemma take_commit_tr:
  "j \<le> length bs \<Longrightarrow> take j (commit_tr st bs d) = log_tr st bs d j"
  "i \<le> length bs \<Longrightarrow> take (length bs + Suc i) (commit_tr st bs d) =
     log_tr st bs d (length bs) @ (st, hdr bs (d st)) # map (\<lambda>b. (b, d b)) (take i bs)"
  by (simp_all add: commit_tr_def log_tr_def take_map)

text \<open>The contents of the home blocks and the header after a crash that left \<open>j\<close> of the writes.\<close>

lemma crash_before:
  assumes "layout st k bs" and "j \<le> length bs" and "m \<notin> log_area st k \<or> m = st"
  shows "apply_writes (take j (commit_tr st bs d)) D m = D m"
proof -
  have "m \<notin> fst ` set (log_tr st bs d j)"
  proof (cases "m = st")
    case True
    then show ?thesis using log_tr_start [OF assms(1), of d] assms(2) by (auto simp: log_tr_def)
  next
    case False
    then show ?thesis using log_tr_avoids [OF assms(1,2)] assms(3) by auto
  qed
  then show ?thesis by (simp add: take_commit_tr(1) [OF assms(2)])
qed

lemma crash_after:
  fixes d D :: "u32 \<Rightarrow> block"
  assumes lay: "layout st k bs" and i: "i \<le> length bs"
  defines "c \<equiv> apply_writes (take (length bs + Suc i) (commit_tr st bs d)) D"
  shows "c st = hdr bs (d st)" and "m \<notin> log_area st k \<Longrightarrow> m \<notin> set bs \<Longrightarrow> c m = D m"
    and "j < length bs \<Longrightarrow> c (log_blk st j) = d (bs ! j)"
proof -
  note L = layoutD [OF lay]
  let ?t = "map (\<lambda>b. (b, d b)) (take i bs)"
  have dom: "fst ` set ?t \<subseteq> set bs" using in_set_takeD [of _ i bs] by auto
  have c: "c = apply_writes ?t ((apply_writes (log_tr st bs d (length bs)) D)(st := hdr bs (d st)))"
    unfolding c_def take_commit_tr(2) [OF i] by simp
  have "st \<notin> fst ` set ?t" using dom L(5) by auto
  then show "c st = hdr bs (d st)" unfolding c by simp
  { assume m: "m \<notin> log_area st k" "m \<notin> set bs"
    then have "m \<notin> fst ` set ?t" "m \<noteq> st" using dom L(8) by auto
    then show "c m = D m" unfolding c using log_tr_avoids [OF lay, of "length bs" m] m(1) by simp }
  assume j: "j < length bs"
  have "log_blk st j \<notin> fst ` set ?t" using dom L(6) [OF j] by auto
  moreover have "log_blk st j \<noteq> st" by (rule log_blk_start) (use j L(2) in simp)
  moreover have "apply_writes (log_tr st bs d (length bs)) D (log_blk st j) = d (bs ! j)"
  proof (rule apply_writes_in)
    show "distinct (map fst (log_tr st bs d (length bs)))"
      using L(2) by (auto simp: log_tr_def distinct_map inj_on_def log_blk_eq)
    show "(log_blk st j, d (bs ! j)) \<in> set (log_tr st bs d (length bs))" using j by (auto simp: log_tr_def)
  qed
  ultimately show "c (log_blk st j) = d (bs ! j)" unfolding c by simp
qed

lemma crash_done:
  fixes d D :: "u32 \<Rightarrow> block"
  assumes lay: "layout st k bs" and j: "length bs + Suc (length bs) < j"
  defines "c \<equiv> apply_writes (take j (commit_tr st bs d)) D"
  shows "c st = hdr [] (hdr bs (d st))" and "m \<notin> log_area st k \<Longrightarrow> m \<notin> set bs \<Longrightarrow> c m = D m"
    and "m \<in> set bs \<Longrightarrow> c m = d m"
proof -
  note L = layoutD [OF lay] and A = crash_after [OF lay order_refl, where d = d and D = D]
  let ?c = "apply_writes (take (length bs + Suc (length bs)) (commit_tr st bs d)) D"
  have "take j (commit_tr st bs d) = take (length bs + Suc (length bs)) (commit_tr st bs d) @ [(st, hdr [] (hdr bs (d st)))]"
    using j by (simp add: commit_tr_def log_tr_def)
  then have c: "c = ?c(st := hdr [] (hdr bs (d st)))" unfolding c_def by simp
  show "c st = hdr [] (hdr bs (d st))" unfolding c by simp
  show "c m = D m" if "m \<notin> log_area st k" "m \<notin> set bs" using A(2) [OF that] that L(8) unfolding c by auto
  assume m: "m \<in> set bs"
  then have "?c m = d m" unfolding take_commit_tr(2) [OF order_refl]
    using L(3) by (auto intro!: apply_writes_in simp: distinct_map inj_on_def comp_def)
  then show "c m = d m" using m L(5) unfolding c by auto
qed

text \<open>Whatever prefix of the writes reached the disk, recovery gives the old blocks or the new ones.\<close>

lemma recovered:
  assumes lay: "layout st k bs" and size: "\<And>m. length (d m) = BSIZE" and clean: "\<And>m. m \<notin> set bs \<Longrightarrow> d m = D m"
    and empty: "describes (D st) []" and c: "c = apply_writes (take j (commit_tr st bs d)) D"
  shows "\<exists>bs'. layout st k bs' \<and> describes (c st) bs' \<and> (\<forall>m. m \<notin> log_area st k \<longrightarrow>
    apply_writes (home_tr st bs' c (length bs') @ [(st, hdr [] (c st))]) c m = (if j \<le> length bs then D m else d m))"
proof -
  note L = layoutD [OF lay]
  have nil: "layout st k []" using lay by (auto simp: layout_def)
  have st: "m \<noteq> st" if "m \<notin> log_area st k" for m using that L(8) by auto
  consider "j \<le> length bs" | i where "j = length bs + Suc i" "i \<le> length bs" | "length bs + Suc (length bs) < j"
  proof (cases "j \<le> length bs \<or> length bs + Suc (length bs) < j")
    case False
    then have "j = length bs + Suc (j - length bs - 1)" "j - length bs - 1 \<le> length bs" by auto
    then show ?thesis by (rule that(2))
  qed (use that in auto)
  then show ?thesis
  proof cases
    case 1
    with crash_before [OF lay 1] empty nil st show ?thesis
      unfolding c by (intro exI [of _ "[]"]) (simp add: home_tr_def)
  next
    case (2 i)
    note A = crash_after [OF lay 2(2), where d = d and D = D, folded 2(1), folded c]
    have h: "home_tr st bs c (length bs) = map (\<lambda>b. (b, d b)) bs"
      using A(3) by (intro nth_equalityI) (simp_all add: home_tr_def)
    have "apply_writes (map (\<lambda>b. (b, d b)) bs) c m = d m" if "m \<notin> log_area st k" for m
    proof (cases "m \<in> set bs")
      case True
      then show ?thesis using L(3) by (auto intro!: apply_writes_in simp: comp_def)
    next
      case False
      then show ?thesis using A(2) [OF that False] clean by (subst apply_writes_other) auto
    qed
    then show ?thesis using describes_hdr [OF size L(2), of st] A(1) lay h 2 st
      by (intro exI [of _ bs]) simp
  next
    case 3
    note A = crash_done [OF lay 3, where d = d and D = D, folded c]
    have "c m = d m" if "m \<notin> log_area st k" for m using A(2) [OF that] A(3) clean by (cases "m \<in> set bs") auto
    moreover have "describes (c st) []" using describes_hdr [of "hdr bs (d st)" "[]"] A(1) size by (simp add: LOGSIZE_def MAXOPBLOCKS_def)
    ultimately show ?thesis using nil 3 st by (intro exI [of _ "[]"]) (simp add: home_tr_def)
  qed
qed

text \<open>The state of the log between two system calls, with \<open>k\<close> blocks for the log on disk.\<close>

definition log_inv :: "nat \<Rightarrow> 'a logk_scheme \<Rightarrow> bool" where
  "log_inv k s \<longleftrightarrow> bio_inv s \<and> tx_ok s \<and> length (lh_block (log_lh (log s))) = LOGSIZE \<and> log_size (log s) = int k \<and>
     ready (log_start (log s)) k (tx s) (bio_abs s) \<and> (\<forall>m. m \<notin> set (tx s) \<longrightarrow> vdata (bio_abs s) m = disk s m) \<and>
     describes (disk s (log_start (log s))) []"

text \<open>A machine that starts on disk \<open>d\<close>.\<close>

definition booted :: "(u32 \<Rightarrow> block) \<Rightarrow> 'a logk_scheme \<Rightarrow> bool" where
  "booted d r \<longleftrightarrow> bio_inv r \<and> fresh (bio_abs r) \<and> disk r = d \<and> length (lh_block (log_lh (log r))) = LOGSIZE"

lemma initlog_eq:
  "initlog dev sb s = recover_from_log (s\<lparr>log := (log s)\<lparr>log_start := sb_logstart sb, log_size := sint (sb_nlog sb), log_dev := dev\<rparr>\<rparr>)"
  by (simp add: initlog_def upd_log_def BSIZE_def LOGSIZE_def MAXOPBLOCKS_def)

lemma initlog_booted:
  fixes r :: "'a logk_scheme"
  assumes "booted c r" and "layout (sb_logstart sb) k bs" and "describes (c (sb_logstart sb)) bs"
  shows "\<exists>r'. initlog ROOTDEV sb r = Inr r' \<and> bio_inv r' \<and> lh_n (log_lh (log r')) = 0 \<and>
    disk r' = apply_writes (home_tr (sb_logstart sb) bs c (length bs) @ [(sb_logstart sb, hdr [] (c (sb_logstart sb)))]) c \<and>
    writes r' = writes r @ home_tr (sb_logstart sb) bs c (length bs) @ [(sb_logstart sb, hdr [] (c (sb_logstart sb)))] \<and>
    vrefs (bio_abs r') = (\<lambda>m. if m \<in> set bs then -1 else 0)"
proof -
  let ?r = "r\<lparr>log := (log r)\<lparr>log_start := sb_logstart sb, log_size := sint (sb_nlog sb), log_dev := ROOTDEV\<rparr>\<rparr>"
  have "bio_inv ?r" "log_dev (log ?r) = ROOTDEV" "length (lh_block (log_lh (log ?r))) = LOGSIZE" "fresh (bio_abs ?r)"
    "layout (log_start (log ?r)) k bs" "describes (disk ?r (log_start (log ?r))) bs"
    using assms by (simp_all add: booted_def)
  from recover_ok [OF this] show ?thesis using assms(1) by (simp add: initlog_eq booted_def)
qed

section \<open>Transactions\<close>

text \<open>No buffer is in use except those the log has pinned.\<close>

definition alone :: "'a logk_scheme \<Rightarrow> bool" where
  "alone s \<longleftrightarrow> (\<forall>m. vrefs (bio_abs s) m = (if m \<in> set (tx s) then 1 else 0) \<and> \<not> vlkd (bio_abs s) m)"

lemma vdisk_abs [simp]: "vdisk (bio_abs s) = disk s" "vtrace (bio_abs s) = writes s"
  by (simp_all add: bio_abs_def)

lemma alone_ready:
  assumes "alone s" and l: "layout (log_start (log s)) k (tx s)" and "\<And>m. m \<notin> set (tx s) \<Longrightarrow> vdata (bio_abs s) m = disk s m"
  shows "ready (log_start (log s)) k (tx s) (bio_abs s)" and "room (bio_abs s) n"
proof -
  have r: "vrefs (bio_abs s) m = (if m \<in> set (tx s) then 1 else 0)" and u: "\<not> vlkd (bio_abs s) m" for m
    using assms(1) by (simp_all add: alone_def)
  have td: "tidy (bio_abs s)" unfolding tidy_def using r u assms(3) by simp
  have "{m. vrefs (bio_abs s) m \<noteq> 0} = set (tx s)" by (auto simp: r)
  then have c: "card {m. vrefs (bio_abs s) m \<noteq> 0} < NBUF"
    using layoutD(2) [OF l] card_length [of "tx s"] by (simp add: LOGSIZE_def MAXOPBLOCKS_def NBUF_def)
  show "ready (log_start (log s)) k (tx s) (bio_abs s)" using l td c r u unfolding ready_def by simp
  show "room (bio_abs s) n" using td c u r by (simp add: room_def)
qed

lemma bpin_any: "LBcache \<notin> set (held s) \<Longrightarrow>
    bpin b s = Inr (upd_buf b (\<lambda>x. x\<lparr>b_refcnt := b_refcnt x + 1\<rparr>) s)"
  by (simp add: bpin_def upd_buf_def)

definition push_tx :: "u32 \<Rightarrow> log_state \<Rightarrow> log_state" where
  "push_tx n l = l\<lparr>log_lh := (log_lh l)\<lparr>lh_block := (lh_block (log_lh l))[nat (lh_n (log_lh l)) := n],
     lh_n := lh_n (log_lh l) + 1\<rparr>\<rparr>"

lemma log_write_eq:
  assumes t: "tx_ok s" and h: "held s = []" and g: "length (tx s) < LOGSIZE" "int (length (tx s)) < log_size (log s) - 1"
    "1 \<le> log_outstanding (log s)"
  shows "log_write b s = (if b_blockno (bufs s ! b) \<in> set (tx s) then Inr s
    else bindE (bpin b s) (\<lambda>s'. Inr (upd_log (push_tx (b_blockno (bufs s ! b))) s')))"
proof -
  let ?n = "b_blockno (bufs s ! b)"
  note T = tx_okD [OF t]
  let ?f = "List.find (\<lambda>i. lh_block (log_lh (log s)) ! i = ?n) [0..<length (tx s)]"
  show ?thesis
  proof (cases ?f)
    case None
    then have "?n \<notin> set (tx s)" using T(3) by (auto simp: find_upt_None in_set_conv_nth)
    then show ?thesis
      using None h g T(2) by (simp add: log_write_def Let_def bpin_any upd_log_def set_n_def push_tx_def upd_buf_def logk.equality)
  next
    case (Some i)
    then have i: "i < length (tx s)" "lh_block (log_lh (log s)) ! i = ?n" by (auto simp: find_upt_Some)
    with T(3) have "?n \<in> set (tx s)" by (metis nth_mem)
    moreover have "(lh_block (log_lh (log s)))[i := ?n] = lh_block (log_lh (log s))" using i(2) by (metis list_update_id)
    ultimately show ?thesis
      using Some i h g T(2) by (simp add: log_write_def Let_def upd_log_def)
  qed
qed

end
