(* ===== verification/Logtx.thy ===== *)
theory Logtx
  imports Logprops
begin

text \<open>
  Whole transactions: block updates between \<open>begin_op\<close> and \<open>end_op\<close>, as the
  file system makes them, are read back by later reads and reach the disk
  together or not at all.
\<close>

section \<open>Updating a block\<close>

text \<open>The use of the log that \<open>log.c\<close> documents: read a block, modify it, log it, release it.\<close>

definition tx_update :: "u32 \<times> block \<Rightarrow> 'a logk_scheme \<Rightarrow> 'a logk_scheme kres" where
  "tx_update = (\<lambda>(n, x) s.
     bindE (bread (log_dev (log s)) n s) (\<lambda>(b, s).
     bindE (log_write b (bio_put b x s)) (\<lambda>s.
     brelse b s)))"

definition transaction :: "(u32 \<times> block) list \<Rightarrow> 'a logk_scheme \<Rightarrow> 'a logk_scheme kres" where
  "transaction us s = bindE (begin_op s) (\<lambda>s. bindE (foldE tx_update us s) end_op)"

definition log_quiet :: "nat \<Rightarrow> 'a logk_scheme \<Rightarrow> bool" where
  "log_quiet k s \<longleftrightarrow> log_inv k s \<and> alone s"

lemma log_invD:
  assumes "log_inv k s"
  shows "bio_inv s" "tx_ok s" "length (lh_block (log_lh (log s))) = LOGSIZE" "log_size (log s) = int k"
    "ready (log_start (log s)) k (tx s) (bio_abs s)" "\<And>m. m \<notin> set (tx s) \<Longrightarrow> vdata (bio_abs s) m = disk s m"
    "describes (disk s (log_start (log s))) []" "layout (log_start (log s)) k (tx s)"
  using assms readyD(1) unfolding log_inv_def by blast+

lemma tx_push:
  assumes "tx_ok s" and "length (tx s) < LOGSIZE" and "length (lh_block (log_lh (log s))) = LOGSIZE"
    and "log s' = push_tx n (log s)"
  shows "tx_ok s'" and "tx s' = tx s @ [n]"
proof -
  define m where "m = length (tx s)"
  have T: "lh_n (log_lh (log s)) = int m" "tx s = take m (lh_block (log_lh (log s)))" "log_dev (log s) = ROOTDEV"
    using tx_okD(1,2) [OF assms(1)] by (simp_all add: m_def) (simp add: tx_def)
  have m: "m < LOGSIZE" using assms(2) by (simp add: m_def)
  show "tx_ok s'" using assms(3,4) T(1,3) m by (simp add: tx_ok_def push_tx_def)
  have "tx s' = take (Suc m) ((lh_block (log_lh (log s)))[m := n])"
    using assms(4) T(1) by (simp add: push_tx_def tx_def nat_add_distrib)
  then show "tx s' = tx s @ [n]" unfolding T(2) using assms(3) m by (simp add: take_Suc_conv_app_nth)
qed

lemma layout_snoc: "layout st k bs \<Longrightarrow> Suc (length bs) < k \<Longrightarrow> n \<notin> log_area st k \<Longrightarrow> n \<notin> set bs \<Longrightarrow> layout st k (bs @ [n])"
  by (auto simp: layout_def)

text \<open>The state after an update, seen abstractly.\<close>

definition updated :: "u32 \<Rightarrow> block \<Rightarrow> 'a logk_scheme \<Rightarrow> 'a logk_scheme \<Rightarrow> bool" where
  "updated n x s s' \<longleftrightarrow> vdata (bio_abs s') = (vdata (bio_abs s))(n := x) \<and> disk s' = disk s \<and> writes s' = writes s \<and>
     tx s' = (if n \<in> set (tx s) then tx s else tx s @ [n]) \<and>
     log_start (log s') = log_start (log s) \<and> log_size (log s') = log_size (log s) \<and>
     log_outstanding (log s') = log_outstanding (log s) \<and> log_committing (log s') = log_committing (log s)"

lemma log_quiet_updated:
  fixes s s' :: "'a logk_scheme"
  assumes q: "log_quiet k s" and u: "updated n x s s'" and "bio_inv s'" and "tx_ok s'"
    and "length (lh_block (log_lh (log s'))) = LOGSIZE" and "n \<notin> log_area (log_start (log s)) k"
    and "Suc (length (tx s)) < k" and al: "alone s'"
  shows "log_quiet k s'"
proof -
  note Q = log_invD [OF conjunct1 [OF q [unfolded log_quiet_def]]]
  note U = u [unfolded updated_def]
  have lay: "layout (log_start (log s')) k (tx s')"
    using U Q(8) layout_snoc [OF Q(8) assms(7,6)] by auto
  have cl: "vdata (bio_abs s') m = disk s' m" if "m \<notin> set (tx s')" for m
    using that U Q(6) [of m] by (auto split: if_split_asm)
  note R = alone_ready [OF al lay cl]
  show ?thesis
    unfolding log_quiet_def log_inv_def using assms(3-5) R(1) U Q(4,7) cl al by auto
qed

lemma tx_cong: "log s' = log s \<Longrightarrow> tx s' = tx s \<and> tx_ok s' = tx_ok s"
  by (simp add: tx_def tx_ok_def)

lemma frm_upd_log: "bio_frm t = bio_frm s \<Longrightarrow> log s' = f (log t) \<Longrightarrow> log s' = f (log s)"
  using frm_log by metis

text \<open>\<open>log_write\<close> on the buffer of block \<open>n\<close>: logged once, pinned when first logged.\<close>

lemma log_write_ok:
  fixes s :: "'a logk_scheme"
  assumes inv: "bio_inv s" and h: "bio_holds s b n" and t: "tx_ok s" and len: "length (lh_block (log_lh (log s))) = LOGSIZE"
    and g: "length (tx s) < LOGSIZE" "int (length (tx s)) < log_size (log s) - 1" "1 \<le> log_outstanding (log s)"
  shows "\<exists>s'. log_write b s = Inr s' \<and> bio_inv s' \<and> bio_holds s' b n \<and>
    log s' = (if n \<in> set (tx s) then log s else push_tx n (log s)) \<and>
    bio_abs s' = (if n \<in> set (tx s) then bio_abs s else v_pin n (bio_abs s))"
proof -
  have e: "held s = []" "b_blockno (bufs s ! b) = n"
    using holdsD [OF inv h] by (simp_all add: calm_def)
  note W = log_write_eq [OF t e(1) g, of b, unfolded e(2)]
  show ?thesis
  proof (cases "n \<in> set (tx s)")
    case True
    then show ?thesis using W inv h by simp
  next
    case False
    from bc.pin_law [OF inv h] h obtain s' where p: "bpin b s = Inr s'" "bio_inv s'" "bio_abs s' = v_pin n (bio_abs s)"
      "bio_frm s' = bio_frm s" "bio_holds s' b n" by auto
    have "log (upd_log (push_tx n) s') = push_tx n (log s)" using frm_log [OF p(4)] by (simp add: upd_log_def)
    then show ?thesis using W p False by (simp add: upd_log_def)
  qed
qed

lemma tx_update_ok:
  fixes s :: "'a logk_scheme"
  assumes q: "log_quiet k s" and n: "n \<notin> log_area (log_start (log s)) k" and room_left: "Suc (length (tx s)) < k"
    and o: "1 \<le> log_outstanding (log s)" and x: "length x = BSIZE"
  shows "\<exists>s'. tx_update (n, x) s = Inr s' \<and> log_quiet k s' \<and> updated n x s s'"
proof -
  have al: "alone s" and Q': "log_inv k s" using q by (simp_all add: log_quiet_def)
  note Q = log_invD [OF Q']
  have v: "vrefs (bio_abs s) m = (if m \<in> set (tx s) then 1 else 0)" "\<not> vlkd (bio_abs s) m" for m
    using al by (simp_all add: alone_def)
  have "room (bio_abs s) n" by (rule alone_ready(2) [OF al Q(8,6)])
  from bc.read_law [OF Q(1) this] obtain b s1 where 1: "bread ROOTDEV n s = Inr (b, s1)" "bio_inv s1"
    "bio_abs s1 = v_read n (bio_abs s)" "bio_frm s1 = bio_frm s" "bio_holds s1 b n" by blast
  let ?s2 = "bio_put b x s1"
  from bc.put_law [OF 1(2,5) x] 1(5) have 2: "bio_inv ?s2" "bio_abs ?s2 = v_put n x (bio_abs s1)"
    "bio_frm ?s2 = bio_frm s1" "bio_holds ?s2 b n" by auto
  have l2: "log ?s2 = log s" using frm_log [OF 1(4)] frm_log [OF 2(3)] by simp
  note t2 = tx_cong [OF l2]
  have L: "k \<le> LOGSIZE" using Q(8) by (simp add: layout_def)
  have "\<exists>s3. log_write b ?s2 = Inr s3 \<and> bio_inv s3 \<and> bio_holds s3 b n \<and>
      log s3 = (if n \<in> set (tx s) then log s else push_tx n (log s)) \<and>
      bio_abs s3 = (if n \<in> set (tx s) then bio_abs ?s2 else v_pin n (bio_abs ?s2))"
    by (rule log_write_ok [OF 2(1,4), unfolded l2 conjunct1 [OF t2]]) (use t2 Q(2,3,4) room_left L o in simp_all)
  then obtain s3 where 3: "log_write b ?s2 = Inr s3" "bio_inv s3" "bio_holds s3 b n"
    "log s3 = (if n \<in> set (tx s) then log s else push_tx n (log s))"
    "bio_abs s3 = (if n \<in> set (tx s) then bio_abs ?s2 else v_pin n (bio_abs ?s2))" by blast
  from bc.rel_law [OF 3(2,3)] obtain s4 where 4: "brelse b s3 = Inr s4" "bio_inv s4" "bio_abs s4 = v_rel n (bio_abs s3)"
    "bio_frm s4 = bio_frm s3" by blast
  have l4: "log s4 = (if n \<in> set (tx s) then log s else push_tx n (log s))" using frm_log [OF 4(4)] 3(4) by simp
  have t4: "tx s4 = (if n \<in> set (tx s) then tx s else tx s @ [n]) \<and> tx_ok s4"
  proof (cases "n \<in> set (tx s)")
    case True
    then show ?thesis using tx_cong [of s4 s] l4 Q(2) by simp
  next
    case False
    then show ?thesis using tx_push [OF Q(2) _ Q(3), of s4 n] l4 room_left L by simp
  qed
  have a4: "vdata (bio_abs s4) = (vdata (bio_abs s))(n := x)" "vdisk (bio_abs s4) = disk s" "vtrace (bio_abs s4) = writes s"
    "vrefs (bio_abs s4) = (vrefs (bio_abs s))(n := 1)" "vlkd (bio_abs s4) = (vlkd (bio_abs s))(n := False)"
    unfolding 4(3) 3(5) 2(2) 1(3) using v [of n] by (auto simp: v_defs fun_eq_iff)
  have "updated n x s s4" using a4(1-3) t4 l4 by (simp add: updated_def push_tx_def)
  moreover have "alone s4" using a4(4,5) v t4 by (auto simp: alone_def)
  moreover have "length (lh_block (log_lh (log s4))) = LOGSIZE" using l4 Q(3) by (simp add: push_tx_def)
  ultimately have "log_quiet k s4" using log_quiet_updated [OF q _ 4(2) conjunct2 [OF t4] _ n room_left] by blast
  moreover have "tx_update (n, x) s = Inr s4"
    using 1(1) 3(1) 4(1) tx_okD(1) [OF Q(2)] by (simp add: tx_update_def)
  ultimately show ?thesis using \<open>updated n x s s4\<close> by blast
qed

lemma tx_updates_ok:
  fixes s :: "'a logk_scheme"
  assumes "log_quiet k s" and "\<And>n x. (n, x) \<in> set us \<Longrightarrow> n \<notin> log_area (log_start (log s)) k \<and> length x = BSIZE"
    and "length (tx s) + length us < k" and "1 \<le> log_outstanding (log s)"
  shows "\<exists>s'. foldE tx_update us s = Inr s' \<and> log_quiet k s' \<and> vdata (bio_abs s') = apply_writes us (vdata (bio_abs s)) \<and>
    disk s' = disk s \<and> writes s' = writes s \<and> set (tx s') = set (tx s) \<union> fst ` set us \<and>
    log_start (log s') = log_start (log s) \<and> log_size (log s') = log_size (log s) \<and>
    log_outstanding (log s') = log_outstanding (log s) \<and> log_committing (log s') = log_committing (log s)"
  using assms
proof (induction us arbitrary: s)
  case Nil
  then show ?case by simp
next
  case (Cons u us)
  obtain n x where u: "u = (n, x)" by (cases u)
  from tx_update_ok [OF Cons.prems(1), of n x] Cons.prems(2) [of n x] Cons.prems(3,4) u
  obtain s1 where 1: "tx_update (n, x) s = Inr s1" "log_quiet k s1" "updated n x s s1" by auto
  note U = 1(3) [unfolded updated_def]
  have "length (tx s1) + length us < k" using U Cons.prems(3) by auto
  with Cons.IH [OF 1(2)] Cons.prems(2,4) U
  obtain s' where "foldE tx_update us s1 = Inr s'" "log_quiet k s'" "vdata (bio_abs s') = apply_writes us (vdata (bio_abs s1))"
    "disk s' = disk s1" "writes s' = writes s1" "set (tx s') = set (tx s1) \<union> fst ` set us"
    "log_start (log s') = log_start (log s1)" "log_size (log s') = log_size (log s1)"
    "log_outstanding (log s') = log_outstanding (log s1)" "log_committing (log s') = log_committing (log s1)"
    by (metis list.set_intros(2))
  with 1(1) U u show ?case by auto
qed

section \<open>Committing\<close>

lemma woken_bio:
  assumes "bio_inv s"
  shows "bio_inv (woken ch s)" "bio_abs (woken ch s) = bio_abs s"
proof -
  have "calm s" "\<exists>ord. dll s ord" using bio_invD(1,3) [OF assms] .
  then show "bio_inv (woken ch s)" "bio_abs (woken ch s) = bio_abs s"
    by (auto intro!: cosmetic [OF assms] simp: woken_def dll_def) (auto simp: woken_def [symmetric])
qed

lemma end_op_eq:
  fixes s s2 :: "'a logk_scheme"
  assumes "held s = []" and "length (procs s) = NPROC" and "log_outstanding (log s) = 1" and "\<not> log_committing (log s)"
    and c: "commit (s\<lparr>log := (log s)\<lparr>log_outstanding := 0, log_committing := True\<rparr>\<rparr>) = Inr s2"
    and "held s2 = []" and "length (procs s2) = NPROC"
  shows "end_op s = Inr (woken ChLog (s2\<lparr>log := (log s2)\<lparr>log_committing := False\<rparr>\<rparr>))"
proof -
  have h: "t\<lparr>log := l, held := []\<rparr> = t\<lparr>log := l\<rparr>" if "held t = []" for t :: "'a logk_scheme" and l
    using that by (intro logk.equality) simp_all
  show ?thesis
    using assms by (simp add: end_op_def upd_log_def wakeup_eq no_proc_lock_def woken_def h logk.equality)
qed

definition commit_writes :: "'a logk_scheme \<Rightarrow> (u32 \<times> block) list" where
  "commit_writes s = (if tx s = [] then [] else commit_tr (log_start (log s)) (tx s) (vdata (bio_abs s)))"

lemma commit_quiet:
  fixes s :: "'a logk_scheme"
  assumes q: "log_quiet k s"
  shows "\<exists>s'. commit s = Inr s' \<and> bio_inv s' \<and> log s' = set_n 0 (log s) \<and> writes s' = writes s @ commit_writes s \<and>
    (\<forall>m. vrefs (bio_abs s') m = 0 \<and> \<not> vlkd (bio_abs s') m \<and> vdata (bio_abs s') m = disk s' m) \<and>
    (\<forall>m. m \<notin> log_area (log_start (log s)) k \<longrightarrow> disk s' m = vdata (bio_abs s) m) \<and>
    describes (disk s' (log_start (log s))) []"
proof -
  have al: "alone s" and Q': "log_inv k s" using q by (simp_all add: log_quiet_def)
  note Q = log_invD [OF Q']
  have v: "vrefs (bio_abs s) m = (if m \<in> set (tx s) then 1 else 0)" "\<not> vlkd (bio_abs s) m" for m
    using al by (simp_all add: alone_def)
  show ?thesis
  proof (cases "tx s = []")
    case True
    have n0: "lh_n (log_lh (log s)) = 0" using tx_okD(2) [OF Q(2)] True by simp
    then have "set_n 0 (log s) = log s" by (simp add: set_n_def)
    with True v Q(1,6,7) n0 show ?thesis by (intro exI [of _ s]) (simp add: commit_def commit_writes_def)
  next
    case False
    let ?tr = "commit_tr (log_start (log s)) (tx s) (vdata (bio_abs s))"
    from commit_ok [OF Q(1,2,5) False] obtain s' where c: "commit s = Inr s'" "bio_inv s'" "log s' = set_n 0 (log s)"
      and a: "bio_abs s' = (v_flush ?tr (bio_abs s))
        \<lparr>vrefs := (\<lambda>m. if m \<in> set (tx s) then vrefs (bio_abs s) m - 1 else vrefs (bio_abs s) m)\<rparr>" by blast
    have d: "disk s' = apply_writes ?tr (disk s)" "writes s' = writes s @ ?tr"
      "vdata (bio_abs s') = apply_writes ?tr (vdata (bio_abs s))"
      using a vdisk_abs [of s'] by simp_all
    have "vrefs (bio_abs s') m = 0 \<and> \<not> vlkd (bio_abs s') m" for m using a v by simp
    moreover have "vdata (bio_abs s') m = disk s' m" for m
      unfolding d using Q(6) [of m]
      by (intro apply_writes_cong, cases "m \<in> set (tx s)") (simp_all add: commit_tr_def image_Un image_image)
    moreover note D = crash_done [OF Q(8) less_Suc_eq [THEN iffD2], OF disjI2 [OF refl], where d = "vdata (bio_abs s)" and D = "disk s"]
    have t: "take (Suc (length (tx s) + Suc (length (tx s)))) ?tr = ?tr" by (simp add: commit_tr_def log_tr_def)
    have "disk s' m = vdata (bio_abs s) m" if "m \<notin> log_area (log_start (log s)) k" for m
      using D(2) [OF that] D(3) [of m] Q(6) [of m] unfolding d t by (cases "m \<in> set (tx s)") auto
    moreover have "describes (disk s' (log_start (log s))) []"
      using D(1) describes_hdr [of _ "[]"] bc.size_law [OF Q(1)] unfolding d t by (simp add: LOGSIZE_def MAXOPBLOCKS_def)
    ultimately show ?thesis using c d False by (auto simp: commit_writes_def)
  qed
qed

lemma end_op_ok:
  fixes s :: "'a logk_scheme"
  assumes q: "log_quiet k s" and o: "log_outstanding (log s) = 1" "\<not> log_committing (log s)"
  shows "\<exists>s'. end_op s = Inr s' \<and> log_quiet k s' \<and> tx s' = [] \<and> writes s' = writes s @ commit_writes s \<and>
    log_outstanding (log s') = 0 \<and> \<not> log_committing (log s') \<and> log_start (log s') = log_start (log s) \<and>
    (\<forall>m. m \<notin> log_area (log_start (log s)) k \<longrightarrow>
       disk s' m = vdata (bio_abs s) m \<and> vdata (bio_abs s') m = vdata (bio_abs s) m)"
proof -
  let ?s1 = "s\<lparr>log := (log s)\<lparr>log_outstanding := 0, log_committing := True\<rparr>\<rparr>"
  have Q': "log_inv k s" using q by (simp add: log_quiet_def)
  note Q = log_invD [OF Q']
  have t1: "tx ?s1 = tx s" by (simp add: tx_def)
  then have cw: "commit_writes ?s1 = commit_writes s" by (simp add: commit_writes_def)
  have "log_quiet k ?s1" using q by (simp add: log_quiet_def log_inv_def alone_def tx_ok_def tx_def)
  from commit_quiet [OF this] cw obtain s2 where c: "commit ?s1 = Inr s2" "bio_inv s2" "log s2 = set_n 0 (log ?s1)"
    "writes s2 = writes s @ commit_writes s"
    "\<And>m. vrefs (bio_abs s2) m = 0 \<and> \<not> vlkd (bio_abs s2) m \<and> vdata (bio_abs s2) m = disk s2 m"
    "\<And>m. m \<notin> log_area (log_start (log s)) k \<Longrightarrow> disk s2 m = vdata (bio_abs s) m"
    "describes (disk s2 (log_start (log s))) []" by auto
  define s3 where "s3 = woken ChLog (s2\<lparr>log := (log s2)\<lparr>log_committing := False\<rparr>\<rparr>)"
  have "calm s" "calm s2" using bio_invD(1) Q(1) c(2) by blast+
  then have e: "end_op s = Inr s3" using end_op_eq [OF _ _ o c(1)] by (simp add: calm_def s3_def)
  have a3: "bio_inv s3" "bio_abs s3 = bio_abs s2" using c(2) by (simp_all add: s3_def woken_bio)
  have l3: "log s3 = (set_n 0 (log ?s1))\<lparr>log_committing := False\<rparr>" "disk s3 = disk s2" "writes s3 = writes s2"
    using c(3) by (simp_all add: s3_def woken_def)
  have t3: "tx s3 = []" "tx_ok s3" using Q(2) by (simp_all add: tx_def tx_ok_def l3 set_n_def)
  have st: "log_start (log s3) = log_start (log s)" by (simp add: l3 set_n_def)
  have al: "alone s3" using c(5) by (simp add: alone_def a3 t3)
  have lay: "layout (log_start (log s3)) k (tx s3)" using Q(8) by (auto simp: st t3 layout_def)
  have "log_quiet k s3"
    using al alone_ready(1) [OF al lay] a3 t3 st c(5,7) Q(3,4) by (simp add: log_quiet_def log_inv_def l3 set_n_def)
  with e c(4-6) t3 st show ?thesis by (intro exI [of _ s3]) (simp add: a3 l3 set_n_def)
qed

section \<open>Whole transactions\<close>

text \<open>Between system calls, nothing is in the log.\<close>

definition log_idle :: "nat \<Rightarrow> 'a logk_scheme \<Rightarrow> bool" where
  "log_idle k s \<longleftrightarrow> log_quiet k s \<and> tx s = [] \<and> log_outstanding (log s) = 0 \<and> \<not> log_committing (log s)"

text \<open>Updates a transaction may make: whole blocks, outside the log, fewer than the log has room for.\<close>

definition tx_fits :: "nat \<Rightarrow> u32 \<Rightarrow> (u32 \<times> block) list \<Rightarrow> bool" where
  "tx_fits k st us \<longleftrightarrow> length us < k \<and> (\<forall>(n, x) \<in> set us. n \<notin> log_area st k \<and> length x = BSIZE)"

lemma idle_data:
  assumes "log_idle k s"
  shows "vdata (bio_abs s) = disk s"
  using assms log_invD(6) [of k s] by (auto simp: log_idle_def log_quiet_def fun_eq_iff)

lemma begin_op_idle:
  assumes "log_idle k s"
  shows "begin_op s = Inr (s\<lparr>log := (log s)\<lparr>log_outstanding := 1\<rparr>\<rparr>)"
proof -
  from assms have q: "log_inv k s" and t: "tx s = []" "log_outstanding (log s) = 0" "\<not> log_committing (log s)"
    by (simp_all add: log_idle_def log_quiet_def)
  have "held s = []" using bio_invD(1) [OF log_invD(1) [OF q]] by (simp add: calm_def)
  moreover have "lh_n (log_lh (log s)) = 0" using tx_okD(2) [OF log_invD(2) [OF q]] t by simp
  ultimately show ?thesis
    using t by (simp add: begin_op_def upd_log_def MAXOPBLOCKS_def LOGSIZE_def logk.equality)
qed

lemma transaction_ok:
  fixes s :: "'a logk_scheme"
  assumes i: "log_idle k s" and f: "tx_fits k (log_start (log s)) us"
  shows "\<exists>(t :: 'a logk_scheme) s'. transaction us s = Inr s' \<and> log_idle k s' \<and> log_start (log s') = log_start (log s) \<and>
    log_quiet k t \<and> log_start (log t) = log_start (log s) \<and> disk t = disk s \<and> set (tx t) = fst ` set us \<and>
    vdata (bio_abs t) = apply_writes us (disk s) \<and> writes s' = writes s @ commit_writes t \<and>
    (\<forall>m. m \<notin> log_area (log_start (log s)) k \<longrightarrow> vdata (bio_abs s') m = apply_writes us (disk s) m)"
proof -
  let ?s1 = "s\<lparr>log := (log s)\<lparr>log_outstanding := 1\<rparr>\<rparr>"
  from i have q: "log_quiet k s" and t: "tx s = []" "\<not> log_committing (log s)" by (simp_all add: log_idle_def)
  have q1: "log_quiet k ?s1" using q by (simp add: log_quiet_def log_inv_def alone_def tx_ok_def tx_def)
  have fit: "n \<notin> log_area (log_start (log ?s1)) k \<and> length x = BSIZE" if "(n, x) \<in> set us" for n x
    using f that by (auto simp: tx_fits_def)
  have t1: "tx ?s1 = []" using t(1) by (simp add: tx_def)
  moreover have "length (tx ?s1) + length us < k" "1 \<le> log_outstanding (log ?s1)"
    using f by (simp_all add: t1 tx_fits_def)
  ultimately obtain u where
    u: "foldE tx_update us ?s1 = Inr u" "log_quiet k u" "vdata (bio_abs u) = apply_writes us (vdata (bio_abs s))"
      "disk u = disk s" "writes u = writes s" "set (tx u) = fst ` set us" "log_start (log u) = log_start (log s)"
      "log_outstanding (log u) = 1" "\<not> log_committing (log u)"
    using tx_updates_ok [of k ?s1 us, OF q1 fit] t(2) by auto
  from end_op_ok [OF u(2,8,9)] obtain s' where
    e: "end_op u = Inr s'" "log_quiet k s'" "tx s' = []" "writes s' = writes u @ commit_writes u"
      "log_outstanding (log s') = 0" "\<not> log_committing (log s')" "log_start (log s') = log_start (log u)"
      "\<forall>m. m \<notin> log_area (log_start (log u)) k \<longrightarrow>
         disk s' m = vdata (bio_abs u) m \<and> vdata (bio_abs s') m = vdata (bio_abs u) m" by blast
  have "transaction us s = Inr s'"
    using begin_op_idle [OF i] u(1) e(1) by (simp add: transaction_def)
  with u e idle_data [OF i] show ?thesis
    by (intro exI [of _ u] exI [of _ s']) (simp add: log_idle_def)
qed

lemma recover_commit_writes:
  fixes t :: "'a logk_scheme" and r :: "'b logk_scheme"
  assumes q: "log_quiet k t" and sb: "sb_logstart sb = log_start (log t)"
    and r: "booted (apply_writes (take j (commit_writes t)) (disk t)) r"
  shows "\<exists>r'. initlog ROOTDEV sb r = Inr r' \<and> bio_inv r' \<and> (\<forall>m. m \<notin> log_area (log_start (log t)) k \<longrightarrow>
    disk r' m = (if j \<le> length (tx t) \<and> tx t \<noteq> [] then disk t m else vdata (bio_abs t) m))"
proof -
  have "log_inv k t" using q by (simp add: log_quiet_def)
  note Q = log_invD [OF this]
  let ?st = "log_start (log t)" and ?d = "vdata (bio_abs t)"
  show ?thesis
  proof (cases "tx t = []")
    case True
    then have l: "layout (sb_logstart sb) k []" and h: "describes (apply_writes (take j (commit_writes t)) (disk t) (sb_logstart sb)) []"
      using Q(7,8) sb by (simp_all add: commit_writes_def)
    from initlog_booted [OF r l h] obtain r' where "initlog ROOTDEV sb r = Inr r'" "bio_inv r'"
      "disk r' = (disk t)(?st := hdr [] (disk t ?st))" using True sb by (auto simp: commit_writes_def home_tr_def)
    moreover have "?st \<in> log_area ?st k" by (rule layoutD(8) [OF Q(8)])
    ultimately show ?thesis using True Q(6) by auto
  next
    case False
    define c where "c = apply_writes (take j (commit_tr ?st (tx t) ?d)) (disk t)"
    from recovered [OF Q(8) bc.size_law [OF Q(1)] Q(6,7) c_def] obtain bs where
      b: "layout ?st k bs" "describes (c ?st) bs" "\<forall>m. m \<notin> log_area ?st k \<longrightarrow>
        apply_writes (home_tr ?st bs c (length bs) @ [(?st, hdr [] (c ?st))]) c m = (if j \<le> length (tx t) then disk t m else ?d m)"
      by blast
    have "booted c r" using r False by (simp add: commit_writes_def c_def)
    from initlog_booted [OF this] b(1,2) sb obtain r' where "initlog ROOTDEV sb r = Inr r'" "bio_inv r'"
      "disk r' = apply_writes (home_tr ?st bs c (length bs) @ [(?st, hdr [] (c ?st))]) c" by metis
    then show ?thesis using b(3) False by auto
  qed
qed

text \<open>
  C1: a transaction is atomic and durable.  Started on an idle log with
  updates that fit, it runs to completion, later reads see its updates, and a
  machine that crashes after any number of its disk writes comes up, once
  \<open>initlog\<close> has run, with all blocks outside the log as they were before, or
  all of them as the updates left them; the latter when all writes were made.
\<close>

theorem transaction_crash_safe:
  fixes s :: "'a logk_scheme" and sb :: superblock
  assumes "log_idle k s" and "tx_fits k (log_start (log s)) us" and "sb_logstart sb = log_start (log s)"
  shows "\<exists>s' ws. transaction us s = Inr s' \<and> log_idle k s' \<and> writes s' = writes s @ ws \<and>
    (\<forall>m. m \<notin> log_area (log_start (log s)) k \<longrightarrow> vdata (bio_abs s') m = apply_writes us (disk s) m) \<and>
    (\<forall>j (r :: 'b logk_scheme). booted (apply_writes (take j ws) (disk s)) r \<longrightarrow> (\<exists>r'. initlog ROOTDEV sb r = Inr r' \<and>
       ((\<forall>m. m \<notin> log_area (log_start (log s)) k \<longrightarrow> disk r' m = disk s m) \<and> j < length ws \<or>
        (\<forall>m. m \<notin> log_area (log_start (log s)) k \<longrightarrow> disk r' m = apply_writes us (disk s) m))))"
proof -
  from transaction_ok [OF assms(1,2)] obtain t :: "'a logk_scheme" and s' where 1: "transaction us s = Inr s'" "log_idle k s'"
    "log_quiet k t" "log_start (log t) = log_start (log s)" "disk t = disk s"
    "vdata (bio_abs t) = apply_writes us (disk s)" "writes s' = writes s @ commit_writes t"
    "\<forall>m. m \<notin> log_area (log_start (log s)) k \<longrightarrow> vdata (bio_abs s') m = apply_writes us (disk s) m" by blast
  have len: "j < length (commit_writes t)" if "j \<le> length (tx t)" "tx t \<noteq> []" for j
    using that by (simp add: commit_writes_def commit_tr_def log_tr_def)
  have "\<exists>r'. initlog ROOTDEV sb r = Inr r' \<and>
       ((\<forall>m. m \<notin> log_area (log_start (log s)) k \<longrightarrow> disk r' m = disk s m) \<and> j < length (commit_writes t) \<or>
        (\<forall>m. m \<notin> log_area (log_start (log s)) k \<longrightarrow> disk r' m = apply_writes us (disk s) m))"
    if "booted (apply_writes (take j (commit_writes t)) (disk s)) r" for j and r :: "'b logk_scheme"
    using recover_commit_writes [OF 1(3) _ that [folded 1(5)]] assms(3) 1(4-6) len [of j]
    by (cases "j \<le> length (tx t) \<and> tx t \<noteq> []") fastforce+
  with 1 show ?thesis by blast
qed

section \<open>A concrete machine\<close>

lemma binit_simps [simp]:
  "bufs (binit s) = bufs s" "disk (binit s) = disk s" "writes (binit s) = writes s" "held (binit s) = held s"
  "procs (binit s) = procs s" "curproc (binit s) = curproc s"
proof -
  have "P (fold (\<lambda>b s. initsleeplock (SlBuf b) (link_front b s)) xs t) = P t"
    if "\<And>b s. P (initsleeplock (SlBuf b) (link_front b s)) = P s" for P :: "'a bio_scheme \<Rightarrow> 'x" and xs t
    using that by (induction xs arbitrary: t) auto
  note f = this
  show "bufs (binit s) = bufs s" "disk (binit s) = disk s" "writes (binit s) = writes s" "held (binit s) = held s"
    "procs (binit s) = procs s" "curproc (binit s) = curproc s"
    unfolding binit_def Let_def by (subst f; simp add: initsleeplock_def)+
qed

lemma binit_log [simp]: "log (binit s) = log s"
proof -
  have "log (fold (\<lambda>b s. initsleeplock (SlBuf b) (link_front b s)) xs t) = log t" for xs and t :: "'a logk_scheme"
    by (induction xs arbitrary: t) (simp_all add: initsleeplock_def link_front_def Let_def)
  then show ?thesis by (simp add: binit_def Let_def)
qed

lemma binit_unlocked:
  assumes "\<And>l. \<not> sl_locked (slocks s l)"
  shows "\<not> sl_locked (slocks (binit s) l)"
proof -
  have "(\<forall>l. \<not> sl_locked (slocks t l)) \<Longrightarrow>
      \<forall>l. \<not> sl_locked (slocks (fold (\<lambda>b s. initsleeplock (SlBuf b) (link_front b s)) xs t) l)" for xs and t :: "'a bio_scheme"
    by (induction xs arbitrary: t) (simp_all add: initsleeplock_def)
  then show ?thesis using assms by (simp add: binit_def Let_def)
qed

text \<open>A machine just after \<open>binit\<close>, with the log in blocks 2 to 31 and process 0 running.\<close>

definition ex_log :: "(u32 \<Rightarrow> block) \<Rightarrow> logk" where
  "ex_log d = binit \<lparr>held = [], procs = replicate NPROC proc0, conts = replicate NCONT cont0, nextpid = 1,
     curproc = Some 0, initproc = None, ticks = 0, mem = (\<lambda>_. 0), freelist = 0, kend = KERNBASE,
     bufs = replicate NBUF buf0, bnext = id, bprev = id, slocks = (\<lambda>_. \<lparr>sl_locked = False, sl_pid = 0\<rparr>),
     disk = d, writes = [], log = \<lparr>log_start = 2, log_size = 30, log_outstanding = 0, log_committing = False,
       log_dev = ROOTDEV, log_lh = \<lparr>lh_n = 0, lh_block = replicate LOGSIZE 0\<rparr>\<rparr>\<rparr>"

lemma ex_log_simps [simp]:
  "bufs (ex_log d) = replicate NBUF buf0" "disk (ex_log d) = d" "writes (ex_log d) = []"
  "log (ex_log d) = \<lparr>log_start = 2, log_size = 30, log_outstanding = 0, log_committing = False,
       log_dev = ROOTDEV, log_lh = \<lparr>lh_n = 0, lh_block = replicate LOGSIZE 0\<rparr>\<rparr>"
  by (simp_all add: ex_log_def)

lemma ex_log_idx: "idx (ex_log d) n = None"
  by (simp add: idx_None buf0_def ROOTDEV_def)

lemma ex_booted:
  assumes "\<And>n. length (d n) = BSIZE"
  shows "booted d (ex_log d)"
proof -
  have u: "\<not> sl_locked (slocks (ex_log d) l)" for l unfolding ex_log_def by (rule binit_unlocked) simp
  have "calm (ex_log d)" by (simp add: calm_def ex_log_def NPROC_def)
  moreover have "\<exists>ord. dll (ex_log d) ord" unfolding ex_log_def using binit_dll by blast
  ultimately have "bio_inv (ex_log d)"
    using u assms by (simp add: bio_inv_def buf0_def ROOTDEV_def)
  moreover have "fresh (bio_abs (ex_log d))" by (simp add: fresh_def bio_abs_def ex_log_idx)
  ultimately show ?thesis by (simp add: booted_def)
qed

lemma ex_idle:
  assumes "\<And>n. length (d n) = BSIZE" and "get32 (d 2) 0 = 0"
  shows "log_idle 30 (ex_log d)"
proof -
  note b = ex_booted [of d, OF assms(1), unfolded booted_def]
  have t: "tx (ex_log d) = []" "tx_ok (ex_log d)" by (simp_all add: tx_def tx_ok_def)
  have al: "alone (ex_log d)" using b t by (simp add: alone_def fresh_def)
  have lay: "layout (log_start (log (ex_log d))) 30 (tx (ex_log d))" by (simp add: t layout_def LOGSIZE_def MAXOPBLOCKS_def)
  have cl: "vdata (bio_abs (ex_log d)) m = disk (ex_log d) m" for m using b by (simp add: fresh_def)
  from alone_ready(1) [OF al lay cl] show ?thesis
    using al b t cl assms(2) by (simp add: log_idle_def log_quiet_def log_inv_def describes_def)
qed

lemma log_area_iff: "k \<le> LOGSIZE \<Longrightarrow> m \<in> log_area st k \<longleftrightarrow> unat (m - st) < k"
proof
  assume k: "k \<le> LOGSIZE"
  { assume "m \<in> log_area st k"
    then obtain i where "i < k" "m = st + of_nat i" by (auto simp: log_area_def)
    then show "unat (m - st) < k" using k by (simp add: unat_of_nat_u32 LOGSIZE_def MAXOPBLOCKS_def) }
  assume "unat (m - st) < k"
  then show "m \<in> log_area st k" unfolding log_area_def by (intro image_eqI [of _ _ "unat (m - st)"]) simp_all
qed

lemma apply_writes_size:
  assumes "\<And>n. length (d n) = BSIZE" and "\<And>n x. (n, x) \<in> set tr \<Longrightarrow> length x = BSIZE"
  shows "length (apply_writes tr d n) = BSIZE"
  using assms by (auto simp: apply_writes_map_of dest!: map_of_SomeD split: option.split)

lemma commit_writes_size:
  assumes "log_quiet k t" and "(n, x) \<in> set (commit_writes t)"
  shows "length x = BSIZE"
proof -
  have "bio_inv t" using assms(1) by (simp add: log_quiet_def log_inv_def)
  from bc.size_law [OF this] show ?thesis
    using assms(2) by (auto simp: commit_writes_def commit_tr_def log_tr_def split: if_split_asm)
qed

definition ex_sb :: superblock where
  "ex_sb = \<lparr>sb_magic = 0x10203040, sb_size = 5000, sb_nblocks = 4954, sb_ninodes = 200, sb_nlog = 30, sb_logstart = 2,
     sb_inodestart = 32, sb_bmapstart = 45\<rparr>"

definition zero_disk :: "u32 \<Rightarrow> block" where "zero_disk = (\<lambda>_. replicate BSIZE 0)"

lemma ex_zero: "log_idle 30 (ex_log zero_disk)"
  by (rule ex_idle) (simp_all add: zero_disk_def get32_def BSIZE_def)

theorem transaction_crash_safe_witness:
  "\<exists>s' ws r'. transaction [(40, replicate BSIZE 7)] (ex_log zero_disk) = Inr s' \<and> writes s' = ws \<and>
    vdata (bio_abs s') 40 = replicate BSIZE 7 \<and>
    initlog ROOTDEV ex_sb (ex_log (apply_writes ws zero_disk)) = Inr r' \<and> disk r' 40 = replicate BSIZE 7"
proof -
  let ?us = "[(40 :: u32, replicate BSIZE 7 :: block)]"
  have out: "40 \<notin> log_area 2 30" by (simp add: log_area_iff LOGSIZE_def MAXOPBLOCKS_def)
  have f: "tx_fits 30 (log_start (log (ex_log zero_disk))) ?us" using out by (simp add: tx_fits_def)
  from transaction_ok [OF ex_zero f] obtain t :: logk and s1 where t: "transaction ?us (ex_log zero_disk) = Inr s1"
    "log_quiet 30 t" "writes s1 = commit_writes t" by auto
  have sb: "sb_logstart ex_sb = log_start (log (ex_log zero_disk))" by (simp add: ex_sb_def)
  from transaction_crash_safe [where ?'b = unit, OF ex_zero f sb] t(1) obtain ws where
    ws: "writes s1 = ws" "vdata (bio_abs s1) 40 = replicate BSIZE 7"
      "\<And>j r :: logk. booted (apply_writes (take j ws) zero_disk) r \<Longrightarrow> \<exists>r'. initlog ROOTDEV ex_sb r = Inr r' \<and>
        (disk r' 40 = zero_disk 40 \<and> j < length ws \<or> disk r' 40 = replicate BSIZE 7)"
    using out by fastforce
  have "booted (apply_writes ws zero_disk) (ex_log (apply_writes ws zero_disk))"
    using commit_writes_size [OF t(2)] ws(1) t(3)
    by (intro ex_booted apply_writes_size) (auto simp: zero_disk_def)
  with ws(3) [of "length ws"] obtain r' where "initlog ROOTDEV ex_sb (ex_log (apply_writes ws zero_disk)) = Inr r'"
    "disk r' 40 = replicate BSIZE 7" by auto
  with t(1) ws(1,2) show ?thesis by blast
qed

section \<open>A crash during recovery\<close>

lemma recrash:
  assumes lay: "layout st k bs" and h: "describes (c st) bs" and size: "length (c st) = BSIZE"
    and tr: "tr = home_tr st bs c (length bs) @ [(st, hdr [] (c st))]" and c': "c' = apply_writes (take j tr) c"
  shows "\<exists>bs'. layout st k bs' \<and> describes (c' st) bs' \<and> (\<forall>m. m \<notin> log_area st k \<longrightarrow>
    apply_writes (home_tr st bs' c' (length bs') @ [(st, hdr [] (c' st))]) c' m = apply_writes tr c m)"
proof (cases "j \<le> length bs")
  case True
  note L = layoutD [OF lay]
  have t: "take j tr = home_tr st bs c j" using True by (simp add: tr home_tr_def take_map)
  have same: "c' m = c m" if "m \<in> log_area st k" for m
    unfolding c' t using home_tr_avoids [OF lay True that] by simp
  then have st: "c' st = c st" using L(8) by simp
  have ht: "home_tr st bs c' (length bs) = home_tr st bs c (length bs)"
    using same L(7) by (auto simp: home_tr_def)
  have "apply_writes (home_tr st bs c (length bs)) c' m = apply_writes (home_tr st bs c (length bs)) c m" for m
  proof (rule apply_writes_cong)
    show "c' m = c m \<or> m \<in> fst ` set (home_tr st bs c (length bs))"
      unfolding c' t using home_tr_dom [of j bs st c, OF True] home_tr_dom [of "length bs" bs st c] in_set_takeD [of m j bs]
      by (cases "m \<in> set (take j bs)") auto
  qed
  then show ?thesis using lay h st ht by (intro exI [of _ bs]) (simp add: tr)
next
  case False
  then have c: "c' = apply_writes tr c" by (simp add: c' tr home_tr_def)
  then have "c' st = hdr [] (c st)" by (simp add: tr)
  then have "describes (c' st) []" using describes_hdr [OF size, of "[]"] by (simp add: LOGSIZE_def MAXOPBLOCKS_def)
  moreover have "layout st k []" using lay by (auto simp: layout_def)
  moreover have "m \<noteq> st" if "m \<notin> log_area st k" for m using that layoutD(8) [OF lay] by auto
  ultimately show ?thesis using c by (intro exI [of _ "[]"]) (simp add: home_tr_def)
qed

text \<open>
  C2: recovery can be interrupted.  If the machine crashes again after any
  number of the writes recovery makes, the next \<open>initlog\<close> leaves every block
  outside the log as the uninterrupted recovery would have.
\<close>

theorem recovery_restartable:
  fixes r :: "'a logk_scheme" and r2 :: "'b logk_scheme"
  assumes "booted c r" and "layout (sb_logstart sb) k bs" and "describes (c (sb_logstart sb)) bs"
  shows "\<exists>r' ws. initlog ROOTDEV sb r = Inr r' \<and> writes r' = writes r @ ws \<and>
    (\<forall>j r2. booted (apply_writes (take j ws) c) (r2 :: 'b logk_scheme) \<longrightarrow>
      (\<exists>r2'. initlog ROOTDEV sb r2 = Inr r2' \<and> (\<forall>m. m \<notin> log_area (sb_logstart sb) k \<longrightarrow> disk r2' m = disk r' m)))"
proof -
  let ?st = "sb_logstart sb"
  define tr where "tr = home_tr ?st bs c (length bs) @ [(?st, hdr [] (c ?st))]"
  from initlog_booted [OF assms] obtain r' where r': "initlog ROOTDEV sb r = Inr r'" "disk r' = apply_writes tr c"
    "writes r' = writes r @ tr" unfolding tr_def by blast
  have size: "length (c ?st) = BSIZE" using assms(1) bio_invD(7) [of r] by (simp add: booted_def)
  have "\<exists>r2'. initlog ROOTDEV sb r2 = Inr r2' \<and> (\<forall>m. m \<notin> log_area ?st k \<longrightarrow> disk r2' m = disk r' m)"
    if b: "booted (apply_writes (take j tr) c) r2" for j and r2 :: "'b logk_scheme"
  proof -
    from recrash [OF assms(2,3) size tr_def refl, of j] obtain bs' where
      bs': "layout ?st k bs'" "describes (apply_writes (take j tr) c ?st) bs'"
        "\<forall>m. m \<notin> log_area ?st k \<longrightarrow> apply_writes (home_tr ?st bs' (apply_writes (take j tr) c) (length bs') @
           [(?st, hdr [] (apply_writes (take j tr) c ?st))]) (apply_writes (take j tr) c) m = apply_writes tr c m" by blast
    from initlog_booted [OF b bs'(1,2)] bs'(3) r'(2) show ?thesis by metis
  qed
  with r' show ?thesis by blast
qed

text \<open>A disk whose log holds one committed block, to be installed in block 40.\<close>

definition ex_disk :: "u32 \<Rightarrow> block" where
  "ex_disk = zero_disk(2 := hdr [40] (replicate BSIZE 0), 3 := replicate BSIZE 7)"

lemma ex_disk_ok: "booted ex_disk (ex_log ex_disk)" "layout (sb_logstart ex_sb) 30 [40]"
  "describes (ex_disk (sb_logstart ex_sb)) [40]"
proof -
  show "booted ex_disk (ex_log ex_disk)"
    by (rule ex_booted) (simp add: ex_disk_def zero_disk_def)
  show "layout (sb_logstart ex_sb) 30 [40]"
    by (simp add: layout_def ex_sb_def log_area_iff LOGSIZE_def MAXOPBLOCKS_def)
  show "describes (ex_disk (sb_logstart ex_sb)) [40]"
    by (simp add: ex_disk_def ex_sb_def describes_hdr LOGSIZE_def MAXOPBLOCKS_def)
qed

theorem recovery_restartable_witness:
  "\<exists>r' ws r2'. initlog ROOTDEV ex_sb (ex_log ex_disk) = Inr r' \<and> writes r' = ws \<and>
    initlog ROOTDEV ex_sb (ex_log (apply_writes (take 0 ws) ex_disk)) = Inr r2' \<and> disk r2' 40 = disk r' 40"
proof -
  from recovery_restartable [where ?'b = unit, OF ex_disk_ok] obtain r' ws where
    r: "initlog ROOTDEV ex_sb (ex_log ex_disk) = Inr r'" "writes r' = ws"
      "\<And>j r2 :: logk. booted (apply_writes (take j ws) ex_disk) r2 \<Longrightarrow>
        \<exists>r2'. initlog ROOTDEV ex_sb r2 = Inr r2' \<and> (\<forall>m. m \<notin> log_area (sb_logstart ex_sb) 30 \<longrightarrow> disk r2' m = disk r' m)"
    by auto
  have "booted (apply_writes (take 0 ws) ex_disk) (ex_log (apply_writes (take 0 ws) ex_disk))" using ex_disk_ok(1) by simp
  from r(3) [OF this] r(1,2) ex_disk_ok(2) show ?thesis by (auto simp: layout_def)
qed



end
