(* ===== verification/Bioprops.thy ===== *)
theory Bioprops
  imports Logtx
begin

text \<open>
  Properties of the buffer cache and of sleep locks, stated on the code.
\<close>

section \<open>Running out of buffers\<close>

lemma bget_none:
  assumes inv: "bio_inv s" and "idx s n = None" and "\<And>i. i < NBUF \<Longrightarrow> b_refcnt (bufs s ! i) \<noteq> 0"
  shows "bget ROOTDEV n s = Inl (Panic ''bget: no buffers'')"
proof -
  note I = bio_invD [OF inv]
  from I(3) obtain ord where ord: "dll s ord" by auto
  have h: "held s = []" using I(1) by (simp add: calm_def)
  have scan: "bscan (Suc NBUF) (bnext s) P (bnext s NBUF) = Inr (List.find P ord)"
    "bscan (Suc NBUF) (bprev s) P (bprev s NBUF) = Inr (List.find P (rev ord))" for P
    using bscan_next [OF ord] bscan_prev [OF ord] by auto
  have "List.find (\<lambda>b. b_refcnt (bufs s ! b) = 0) (rev ord) = None"
    using assms(3) ord by (auto simp: find_None_iff dll_def)
  then show ?thesis
    using h assms(2) find_ord [OF inv ord, of n] unfolding bget_def by (simp add: scan)
qed

section \<open>Properties\<close>

text \<open>
  C6: the LRU cache is a store.  With a buffer to spare, \<open>bread\<close> of an
  unlocked block returns, whatever the state of the list, a buffer locked by
  the caller that contains the block's current contents: what was last put
  in it, or else what is on disk.  The contents of every block, the disk and
  the locks and counts of the other blocks do not change, and the cache's
  invariant (the circular list, one buffer per block) is kept.
\<close>

theorem bread_reads_store:
  assumes "bio_inv s" and "room (bio_abs s) n"
  shows "\<exists>b s'. bread ROOTDEV n s = Inr (b, s') \<and> bio_inv s' \<and> b_data (bufs s' ! b) = vdata (bio_abs s) n \<and>
    sl_locked (slocks s' (SlBuf b)) \<and> sl_pid (slocks s' (SlBuf b)) = the_pid s' \<and> bio_abs s' = v_read n (bio_abs s)"
proof -
  from bc.read_law [OF assms] obtain b s' where s': "bread ROOTDEV n s = Inr (b, s')" "bio_inv s'"
    "bio_abs s' = v_read n (bio_abs s)" "bio_holds s' b n" by blast
  moreover from bc.get_law [OF s'(2,4)] s'(3) have "b_data (bufs s' ! b) = vdata (bio_abs s) n"
    by (simp add: bio_get_def v_read_def)
  ultimately show ?thesis by (auto simp: bio_holds_def)
qed

theorem bread_reads_store_witness:
  "\<exists>b s'. bread ROOTDEV 7 (ex_log zero_disk) = Inr (b, s') \<and> b_data (bufs s' ! b) = replicate BSIZE 0"
proof -
  have "log_quiet 30 (ex_log zero_disk)" using ex_zero by (simp add: log_idle_def)
  then have i: "log_inv 30 (ex_log zero_disk)" "alone (ex_log zero_disk)" by (simp_all add: log_quiet_def)
  have "room (bio_abs (ex_log zero_disk)) 7" by (rule alone_ready(2) [OF i(2) log_invD(8,6) [OF i(1)]])
  from bread_reads_store [OF log_invD(1) [OF i(1)] this] show ?thesis
    using idle_data [OF ex_zero] by (auto simp: zero_disk_def)
qed

text \<open>
  C32: \<open>bread\<close> of a block that is not cached panics with ``bget: no buffers''
  exactly when every buffer is referenced; otherwise it recycles one that is not.
\<close>

theorem bread_panics_iff_full:
  assumes inv: "bio_inv s" and "tidy (bio_abs s)" and "idx s n = None"
  shows "bread ROOTDEV n s = Inl (Panic ''bget: no buffers'') \<longleftrightarrow> (\<forall>i<NBUF. b_refcnt (bufs s ! i) \<noteq> 0)"
proof
  assume "\<forall>i<NBUF. b_refcnt (bufs s ! i) \<noteq> 0"
  then show "bread ROOTDEV n s = Inl (Panic ''bget: no buffers'')"
    using bget_none [OF inv assms(3)] by (simp add: bread_def)
next
  assume p: "bread ROOTDEV n s = Inl (Panic ''bget: no buffers'')"
  show "\<forall>i<NBUF. b_refcnt (bufs s ! i) \<noteq> 0"
  proof (rule ccontr)
    assume "\<not> ?thesis"
    then have "\<exists>i<NBUF. b_refcnt (bufs s ! i) = 0" by blast
    from bread_recycled [OF inv assms(3) this tidy_free_unlocked [OF inv assms(2)]] p show False by auto
  qed
qed

theorem bread_panics_iff_full_witness:
  "bread ROOTDEV 7 (ex_log zero_disk) \<noteq> Inl (Panic ''bget: no buffers'')"
proof -
  have b: "booted zero_disk (ex_log zero_disk)" by (rule ex_booted) (simp add: zero_disk_def)
  have "tidy (bio_abs (ex_log zero_disk))" using b by (simp add: booted_def fresh_def tidy_def)
  moreover have "b_refcnt (bufs (ex_log zero_disk) ! 0) = 0" by (simp add: buf0_def NBUF_def)
  moreover have "0 < NBUF" by (simp add: NBUF_def)
  ultimately show ?thesis
    using bread_panics_iff_full [of "ex_log zero_disk" 7] b ex_log_idx by (auto simp: booted_def)
qed

end
