(* ===== verification/Vm.thy ===== *)
theory Vm
  imports Kalloc Block
begin

text \<open>
  Virtual memory (\<open>kernel/vm.c\<close>): three-level Sv39 page tables kept in
  physical memory, user address spaces, and copying between the kernel and a
  user address space.

  A page table is the physical address of its root page.  The kernel buffer
  at the kernel's end of \<open>copyout\<close>, \<open>copyin\<close> and \<open>copyinstr\<close> is a list of
  bytes; \<open>copyin\<close> and \<open>copyinstr\<close> return what they have stored in it.  The
  global \<open>kernel_pagetable\<close> is an argument of the functions that use it.
\<close>

section \<open>Access through pointers\<close>

definition rd64 :: "u64 \<Rightarrow> 'a kmem_scheme \<Rightarrow> u64 kres" where
  "rd64 a s = (if in_ram a then Inr (load64 (mem s) a) else Inl Fault)"

definition wr64 :: "u64 \<Rightarrow> u64 \<Rightarrow> 'a kmem_scheme \<Rightarrow> 'a kmem_scheme kres" where
  "wr64 a v s = (if in_ram a then Inr (s\<lparr>mem := store64 (mem s) a v\<rparr>) else Inl Fault)"

definition zero_page :: "u64 \<Rightarrow> 'a kmem_scheme \<Rightarrow> 'a kmem_scheme kres" where
  "zero_page pa s = (if in_ram pa then Inr (s\<lparr>mem := memset (mem s) pa 0 4096\<rparr>) else Inl Fault)"

definition read_bytes :: "memory \<Rightarrow> u64 \<Rightarrow> nat \<Rightarrow> u8 list" where
  "read_bytes m a n = map (\<lambda>i. m (a + of_nat i)) [0..<n]"

fun write_bytes :: "memory \<Rightarrow> u64 \<Rightarrow> u8 list \<Rightarrow> memory" where
  "write_bytes m a [] = m"
| "write_bytes m a (x # xs) = write_bytes (m(a := x)) (a + 1) xs"

section \<open>Page tables\<close>

fun walk_loop :: "nat \<Rightarrow> u64 \<Rightarrow> u64 \<Rightarrow> bool \<Rightarrow> 'a kmem_scheme \<Rightarrow> (u64 \<times> 'a kmem_scheme) kres" where
  "walk_loop 0 pagetable va alloc s = Inr (pagetable + 8 * PX 0 va, s)"
| "walk_loop (Suc l) pagetable va alloc s =
     (let pte = pagetable + 8 * PX (Suc l) va in
      bindE (rd64 pte s) (\<lambda>e.
      if e AND PTE_V \<noteq> 0 then walk_loop l (PTE2PA e) va alloc s
      else if \<not> alloc then Inr (0, s)
      else
        bindE (kalloc s) (\<lambda>(pagetable, s).
        if pagetable = 0 then Inr (0, s)
        else
          bindE (zero_page pagetable s) (\<lambda>s.
          bindE (wr64 pte (PA2PTE pagetable OR PTE_V) s) (\<lambda>s.
          walk_loop l pagetable va alloc s)))))"

definition walk :: "u64 \<Rightarrow> u64 \<Rightarrow> bool \<Rightarrow> 'a kmem_scheme \<Rightarrow> (u64 \<times> 'a kmem_scheme) kres" where
  "walk pagetable va alloc s =
     (if va \<ge> MAXVA then Inl (Panic ''walk'') else walk_loop 2 pagetable va alloc s)"

definition walkaddr :: "u64 \<Rightarrow> u64 \<Rightarrow> 'a kmem_scheme \<Rightarrow> u64 kres" where
  "walkaddr pagetable va s =
     (if va \<ge> MAXVA then Inr 0
      else
        bindE (walk pagetable va False s) (\<lambda>(pte, s).
        if pte = 0 then Inr 0
        else
          bindE (rd64 pte s) (\<lambda>e.
          if e AND PTE_V = 0 then Inr 0
          else if e AND PTE_U = 0 then Inr 0
          else Inr (PTE2PA e))))"

text \<open>
  The loops over pages from \<open>a\<close> up to \<open>lst\<close> run once more than the number of
  pages between them, counted modulo the address space.
\<close>

definition pages_to :: "u64 \<Rightarrow> u64 \<Rightarrow> nat" where
  "pages_to a lst = unat (lst - a) div 4096"

fun mappages_loop :: "nat \<Rightarrow> u64 \<Rightarrow> u64 \<Rightarrow> u64 \<Rightarrow> u64 \<Rightarrow> u64 \<Rightarrow> 'a kmem_scheme \<Rightarrow> (int \<times> 'a kmem_scheme) kres" where
  "mappages_loop 0 pagetable a lst pa perm s = Inl Spins"
| "mappages_loop (Suc n) pagetable a lst pa perm s =
     bindE (walk pagetable a True s) (\<lambda>(pte, s).
     if pte = 0 then Inr (-1, s)
     else
       bindE (rd64 pte s) (\<lambda>e.
       if e AND PTE_V \<noteq> 0 then Inl (Panic ''remap'')
       else
         bindE (wr64 pte (PA2PTE pa OR perm OR PTE_V) s) (\<lambda>s.
         if a = lst then Inr (0, s)
         else mappages_loop n pagetable (a + PGSIZE) lst (pa + PGSIZE) perm s)))"

definition mappages :: "u64 \<Rightarrow> u64 \<Rightarrow> u64 \<Rightarrow> u64 \<Rightarrow> u64 \<Rightarrow> 'a kmem_scheme \<Rightarrow> (int \<times> 'a kmem_scheme) kres" where
  "mappages pagetable va sz pa perm s =
     (let a = PGROUNDDOWN va;
          lst = PGROUNDDOWN (va + sz - 1) in
      mappages_loop (Suc (pages_to a lst)) pagetable a lst pa perm s)"

definition kvmmap :: "u64 \<Rightarrow> u64 \<Rightarrow> u64 \<Rightarrow> u64 \<Rightarrow> u64 \<Rightarrow> 'a kmem_scheme \<Rightarrow> 'a kmem_scheme kres" where
  "kvmmap kernel_pagetable va pa sz perm s =
     bindE (mappages kernel_pagetable va sz pa perm s) (\<lambda>(r, s).
     if r \<noteq> 0 then Inl (Panic ''kvmmap'') else Inr s)"

text \<open>\<open>etext\<close> and \<open>trampoline\<close> are symbols the linker sets.\<close>

definition kvminit :: "u64 \<Rightarrow> u64 \<Rightarrow> 'a kmem_scheme \<Rightarrow> (u64 \<times> 'a kmem_scheme) kres" where
  "kvminit etext trampoline s =
     bindE (kalloc s) (\<lambda>(kernel_pagetable, s).
     bindE (zero_page kernel_pagetable s) (\<lambda>s.
     bindE (kvmmap kernel_pagetable UART0 UART0 PGSIZE (PTE_R OR PTE_W) s) (\<lambda>s.
     bindE (kvmmap kernel_pagetable VIRTIO0 VIRTIO0 PGSIZE (PTE_R OR PTE_W) s) (\<lambda>s.
     bindE (kvmmap kernel_pagetable CLINT CLINT 0x10000 (PTE_R OR PTE_W) s) (\<lambda>s.
     bindE (kvmmap kernel_pagetable PLIC PLIC 0x400000 (PTE_R OR PTE_W) s) (\<lambda>s.
     bindE (kvmmap kernel_pagetable KERNBASE KERNBASE (etext - KERNBASE) (PTE_R OR PTE_X) s) (\<lambda>s.
     bindE (kvmmap kernel_pagetable etext etext (PHYSTOP - etext) (PTE_R OR PTE_W) s) (\<lambda>s.
     bindE (kvmmap kernel_pagetable TRAMPOLINE trampoline PGSIZE (PTE_R OR PTE_X) s) (\<lambda>s.
     Inr (kernel_pagetable, s))))))))))"

definition kvmpa :: "u64 \<Rightarrow> u64 \<Rightarrow> 'a kmem_scheme \<Rightarrow> u64 kres" where
  "kvmpa kernel_pagetable va s =
     (let off = va mod PGSIZE in
      bindE (walk kernel_pagetable va False s) (\<lambda>(pte, s).
      if pte = 0 then Inl (Panic ''kvmpa'')
      else
        bindE (rd64 pte s) (\<lambda>e.
        if e AND PTE_V = 0 then Inl (Panic ''kvmpa'') else Inr (PTE2PA e + off))))"

fun uvmunmap_loop :: "nat \<Rightarrow> u64 \<Rightarrow> u64 \<Rightarrow> u64 \<Rightarrow> bool \<Rightarrow> 'a kmem_scheme \<Rightarrow> 'a kmem_scheme kres" where
  "uvmunmap_loop 0 pagetable a lst do_free s = Inl Spins"
| "uvmunmap_loop (Suc n) pagetable a lst do_free s =
     bindE (walk pagetable a False s) (\<lambda>(pte, s).
     if pte = 0 then Inl (Panic ''uvmunmap: walk'')
     else
       bindE (rd64 pte s) (\<lambda>e.
       if e AND PTE_V = 0 then Inl (Panic ''uvmunmap: not mapped'')
       else if PTE_FLAGS e = PTE_V then Inl (Panic ''uvmunmap: not a leaf'')
       else
         bindE (if do_free then kfree (PTE2PA e) s else Inr s) (\<lambda>s.
         bindE (wr64 pte 0 s) (\<lambda>s.
         if a = lst then Inr s
         else uvmunmap_loop n pagetable (a + PGSIZE) lst do_free s))))"

definition uvmunmap :: "u64 \<Rightarrow> u64 \<Rightarrow> u64 \<Rightarrow> bool \<Rightarrow> 'a kmem_scheme \<Rightarrow> 'a kmem_scheme kres" where
  "uvmunmap pagetable va sz do_free s =
     (let a = PGROUNDDOWN va;
          lst = PGROUNDDOWN (va + sz - 1) in
      uvmunmap_loop (Suc (pages_to a lst)) pagetable a lst do_free s)"

definition uvmcreate :: "'a kmem_scheme \<Rightarrow> (u64 \<times> 'a kmem_scheme) kres" where
  "uvmcreate s =
     bindE (kalloc s) (\<lambda>(pagetable, s).
     if pagetable = 0 then Inr (0, s)
     else bindE (zero_page pagetable s) (\<lambda>s. Inr (pagetable, s)))"

definition uvminit :: "u64 \<Rightarrow> u8 list \<Rightarrow> 'a kmem_scheme \<Rightarrow> 'a kmem_scheme kres" where
  "uvminit pagetable src s =
     (if length src \<ge> 4096 then Inl (Panic ''inituvm: more than a page'')
      else
        bindE (kalloc s) (\<lambda>(m, s).
        bindE (zero_page m s) (\<lambda>s.
        bindE (mappages pagetable 0 PGSIZE m (PTE_W OR PTE_R OR PTE_X OR PTE_U) s) (\<lambda>(r, s).
        Inr (s\<lparr>mem := write_bytes (mem s) m src\<rparr>)))))"

definition uvmdealloc :: "u64 \<Rightarrow> u64 \<Rightarrow> u64 \<Rightarrow> 'a kmem_scheme \<Rightarrow> (u64 \<times> 'a kmem_scheme) kres" where
  "uvmdealloc pagetable oldsz newsz s =
     (if newsz \<ge> oldsz then Inr (oldsz, s)
      else
        let newup = PGROUNDUP newsz in
        bindE (if newup < PGROUNDUP oldsz then uvmunmap pagetable newup (oldsz - newup) True s else Inr s) (\<lambda>s.
        Inr (newsz, s)))"

text \<open>\<open>for(; a < newsz; a += PGSIZE)\<close>\<close>

fun uvmalloc_loop :: "nat \<Rightarrow> u64 \<Rightarrow> u64 \<Rightarrow> u64 \<Rightarrow> u64 \<Rightarrow> 'a kmem_scheme \<Rightarrow> (u64 \<times> 'a kmem_scheme) kres" where
  "uvmalloc_loop 0 pagetable a oldsz newsz s = (if a < newsz then Inl Spins else Inr (newsz, s))"
| "uvmalloc_loop (Suc n) pagetable a oldsz newsz s =
     (if \<not> a < newsz then Inr (newsz, s)
      else
        bindE (kalloc s) (\<lambda>(m, s).
        if m = 0 then
          bindE (uvmdealloc pagetable a oldsz s) (\<lambda>(_, s). Inr (0, s))
        else
          bindE (zero_page m s) (\<lambda>s.
          bindE (mappages pagetable a PGSIZE m (PTE_W OR PTE_X OR PTE_R OR PTE_U) s) (\<lambda>(r, s).
          if r \<noteq> 0 then
            bindE (kfree m s) (\<lambda>s.
            bindE (uvmdealloc pagetable a oldsz s) (\<lambda>(_, s). Inr (0, s)))
          else uvmalloc_loop n pagetable (a + PGSIZE) oldsz newsz s))))"

definition uvmalloc :: "u64 \<Rightarrow> u64 \<Rightarrow> u64 \<Rightarrow> 'a kmem_scheme \<Rightarrow> (u64 \<times> 'a kmem_scheme) kres" where
  "uvmalloc pagetable oldsz newsz s =
     (if newsz < oldsz then Inr (oldsz, s)
      else
        let oldsz = PGROUNDUP oldsz in
        uvmalloc_loop (Suc (pages_to oldsz newsz)) pagetable oldsz oldsz newsz s)"

text \<open>A page table has three levels; deeper recursion than that has run into a cycle.\<close>

primrec freewalk :: "nat \<Rightarrow> u64 \<Rightarrow> 'a kmem_scheme \<Rightarrow> 'a kmem_scheme kres" where
  "freewalk 0 pagetable s = Inl Spins"
| "freewalk (Suc n) pagetable s =
     bindE (foldE (\<lambda>i s.
         bindE (rd64 (pagetable + 8 * of_nat i) s) (\<lambda>pte.
         if pte AND PTE_V \<noteq> 0 \<and> pte AND (PTE_R OR PTE_W OR PTE_X) = 0 then
           bindE (freewalk n (PTE2PA pte) s) (\<lambda>s.
           wr64 (pagetable + 8 * of_nat i) 0 s)
         else if pte AND PTE_V \<noteq> 0 then Inl (Panic ''freewalk: leaf'')
         else Inr s)) [0..<512] s) (\<lambda>s.
     kfree pagetable s)"

definition uvmfree :: "u64 \<Rightarrow> u64 \<Rightarrow> 'a kmem_scheme \<Rightarrow> 'a kmem_scheme kres" where
  "uvmfree pagetable sz s =
     bindE (uvmunmap pagetable 0 sz True s) (\<lambda>s.
     freewalk 3 pagetable s)"

text \<open>\<open>for(i = 0; i < sz; i += PGSIZE)\<close>, and the \<open>err\<close> label.\<close>

fun uvmcopy_loop :: "nat \<Rightarrow> u64 \<Rightarrow> u64 \<Rightarrow> u64 \<Rightarrow> u64 \<Rightarrow> 'a kmem_scheme \<Rightarrow> (int \<times> 'a kmem_scheme) kres" where
  "uvmcopy_loop 0 old new i sz s = (if i < sz then Inl Spins else Inr (0, s))"
| "uvmcopy_loop (Suc n) old new i sz s =
     (if \<not> i < sz then Inr (0, s)
      else
        let err = (\<lambda>s. bindE (uvmunmap new 0 i True s) (\<lambda>s. Inr (-1, s))) in
        bindE (walk old i False s) (\<lambda>(pte, s).
        if pte = 0 then Inl (Panic ''uvmcopy: pte should exist'')
        else
          bindE (rd64 pte s) (\<lambda>e.
          if e AND PTE_V = 0 then Inl (Panic ''uvmcopy: page not present'')
          else
            bindE (kalloc s) (\<lambda>(m, s).
            if m = 0 then err s
            else
              let s = s\<lparr>mem := memmove (mem s) m (PTE2PA e) 4096\<rparr> in
              bindE (mappages new i PGSIZE m (PTE_FLAGS e) s) (\<lambda>(r, s).
              if r \<noteq> 0 then bindE (kfree m s) err
              else uvmcopy_loop n old new (i + PGSIZE) sz s)))))"

definition uvmcopy :: "u64 \<Rightarrow> u64 \<Rightarrow> u64 \<Rightarrow> 'a kmem_scheme \<Rightarrow> (int \<times> 'a kmem_scheme) kres" where
  "uvmcopy old new sz s = uvmcopy_loop (Suc (pages_to 0 sz)) old new 0 sz s"

definition uvmclear :: "u64 \<Rightarrow> u64 \<Rightarrow> 'a kmem_scheme \<Rightarrow> 'a kmem_scheme kres" where
  "uvmclear pagetable va s =
     bindE (walk pagetable va False s) (\<lambda>(pte, s).
     if pte = 0 then Inl (Panic ''uvmclear'')
     else bindE (rd64 pte s) (\<lambda>e. wr64 pte (e AND NOT PTE_U) s))"

section \<open>Copying to and from user space\<close>

text \<open>The bytes from \<open>va\<close> to the end of its page.\<close>

definition page_rest :: "u64 \<Rightarrow> nat" where
  "page_rest va = unat (PGSIZE - (va - PGROUNDDOWN va))"

lemma page_rest_eq: "page_rest va = 4096 - unat va mod 4096"
proof -
  have "va - PGROUNDDOWN va \<le> PGSIZE"
    unfolding word_le_nat_alt unat_offset by (simp add: PGSIZE_def)
  then show ?thesis
    unfolding page_rest_def by (simp add: unat_sub unat_offset) (simp add: PGSIZE_def)
qed

lemma page_rest_pos: "0 < page_rest va"
  unfolding page_rest_eq by (simp add: mod_less_divisor)

function copyout :: "u64 \<Rightarrow> u64 \<Rightarrow> u8 list \<Rightarrow> 'a kmem_scheme \<Rightarrow> (int \<times> 'a kmem_scheme) kres" where
  "copyout pagetable dstva src s =
     (if src = [] then Inr (0, s)
      else
        let va0 = PGROUNDDOWN dstva in
        bindE (walkaddr pagetable va0 s) (\<lambda>pa0.
        if pa0 = 0 then Inr (-1, s)
        else
          let n = min (page_rest dstva) (length src);
              s = s\<lparr>mem := write_bytes (mem s) (pa0 + (dstva - va0)) (take n src)\<rparr> in
          copyout pagetable (va0 + PGSIZE) (drop n src) s))"
  by pat_completeness auto

termination
  by (relation "measure (\<lambda>(pagetable, dstva, src, s). length src)") (auto simp: page_rest_pos)

function copyin :: "u64 \<Rightarrow> u64 \<Rightarrow> nat \<Rightarrow> 'a kmem_scheme \<Rightarrow> (int \<times> u8 list) kres" where
  "copyin pagetable srcva len s =
     (if len = 0 then Inr (0, [])
      else
        let va0 = PGROUNDDOWN srcva in
        bindE (walkaddr pagetable va0 s) (\<lambda>pa0.
        if pa0 = 0 then Inr (-1, [])
        else
          let n = min (page_rest srcva) len in
          bindE (copyin pagetable (va0 + PGSIZE) (len - n) s) (\<lambda>(r, rest).
          Inr (r, read_bytes (mem s) (pa0 + (srcva - va0)) n @ rest))))"
  by pat_completeness auto

termination
  by (relation "measure (\<lambda>(pagetable, srcva, len, s). len)") (auto simp: page_rest_pos)

text \<open>The inner loop of \<open>copyinstr\<close>: copy up to \<open>n\<close> bytes, stopping after a NUL.\<close>

fun copystr_page :: "memory \<Rightarrow> u64 \<Rightarrow> nat \<Rightarrow> bool \<times> u8 list" where
  "copystr_page m p 0 = (False, [])"
| "copystr_page m p (Suc n) =
     (if m p = 0 then (True, [0])
      else let (got_null, rest) = copystr_page m (p + 1) n in (got_null, m p # rest))"

function copyinstr :: "u64 \<Rightarrow> u64 \<Rightarrow> nat \<Rightarrow> 'a kmem_scheme \<Rightarrow> (int \<times> u8 list) kres" where
  "copyinstr pagetable srcva mx s =
     (if mx = 0 then Inr (-1, [])
      else
        let va0 = PGROUNDDOWN srcva in
        bindE (walkaddr pagetable va0 s) (\<lambda>pa0.
        if pa0 = 0 then Inr (-1, [])
        else
          let n = min (page_rest srcva) mx;
              (got_null, xs) = copystr_page (mem s) (pa0 + (srcva - va0)) n in
          if got_null then Inr (0, xs)
          else bindE (copyinstr pagetable (va0 + PGSIZE) (mx - n) s) (\<lambda>(r, rest). Inr (r, xs @ rest))))"
  by pat_completeness auto

termination
  by (relation "measure (\<lambda>(pagetable, srcva, mx, s). mx)") (auto simp: page_rest_pos)

declare copyout.simps [simp del] copyin.simps [simp del] copyinstr.simps [simp del]

end
