(* ===== verification/Fs.thy ===== *)
theory Fs
  imports Log Vm
begin

text \<open>
  The file system (\<open>kernel/fs.c\<close>): blocks, inodes, directories and paths.

  An inode is an index into the inode cache.  The structures of
  \<open>kernel/fs.h\<close> are read and written in the bytes of their blocks.  A kernel
  buffer that file data is copied to is the list of bytes \<open>readi\<close> returns;
  one that file data comes from is the list of bytes given to \<open>writei\<close>.
  Strings are byte lists with their NUL.
\<close>

section \<open>Parameters and state\<close>

definition ROOTINO :: u32 where "ROOTINO = 1"
definition FSMAGIC :: u32 where "FSMAGIC = 0x10203040"
definition NDIRECT :: nat where "NDIRECT = 12"
definition NINDIRECT :: nat where "NINDIRECT = BSIZE div 4"
definition MAXFILE :: nat where "MAXFILE = NDIRECT + NINDIRECT"
definition DIRSIZ :: nat where "DIRSIZ = 14"
definition NINODE :: nat where "NINODE = 50"

text \<open>\<open>sizeof(struct dinode)\<close>, \<open>sizeof(struct dirent)\<close>, inodes and bitmap bits per block.\<close>

definition DINODE :: nat where "DINODE = 12 + 4 * (NDIRECT + 1)"
definition DIRENT :: nat where "DIRENT = 2 + DIRSIZ"
definition IPB :: u32 where "IPB = of_nat (BSIZE div DINODE)"
definition BPB :: u32 where "BPB = of_nat (BSIZE * 8)"

definition T_DIR :: int where "T_DIR = 1"
definition T_FILE :: int where "T_FILE = 2"
definition T_DEVICE :: int where "T_DEVICE = 3"

record inode =
  i_dev :: u32
  i_inum :: u32
  i_ref :: int
  i_valid :: bool
  i_type :: int
  i_major :: int
  i_minor :: int
  i_nlink :: int
  i_size :: u32
  i_addrs :: "u32 list"

record stat =
  st_dev :: u32
  st_ino :: u32
  st_type :: int
  st_nlink :: int
  st_size :: u64

record fsk = logk +
  icache :: "inode list"
  sb :: superblock

definition inode0 :: inode where
  "inode0 = \<lparr>i_dev = 0, i_inum = 0, i_ref = 0, i_valid = False, i_type = 0, i_major = 0, i_minor = 0,
     i_nlink = 0, i_size = 0, i_addrs = replicate (NDIRECT + 1) 0\<rparr>"

definition upd_inode :: "nat \<Rightarrow> (inode \<Rightarrow> inode) \<Rightarrow> 'a fsk_scheme \<Rightarrow> 'a fsk_scheme" where
  "upd_inode i f s = s\<lparr>icache := (icache s)[i := f (icache s ! i)]\<rparr>"

definition IBLOCK :: "u32 \<Rightarrow> superblock \<Rightarrow> u32" where
  "IBLOCK i b = i div IPB + sb_inodestart b"

definition BBLOCK :: "u32 \<Rightarrow> superblock \<Rightarrow> u32" where
  "BBLOCK n b = n div BPB + sb_bmapstart b"

text \<open>Where \<open>either_copyout\<close> puts bytes, and where \<open>either_copyin\<close> takes them from.\<close>

datatype dest = UserDst u64 | KernDst
datatype source = UserSrc u64 | KernSrc "u8 list"

definition mypagetable :: "'a ktab_scheme \<Rightarrow> u64 kres" where
  "mypagetable s = (case curproc s of None \<Rightarrow> Inl Fault | Some p \<Rightarrow> Inr (p_pagetable (procs s ! p)))"

definition either_copyout :: "dest \<Rightarrow> u8 list \<Rightarrow> 'a kmem_scheme \<Rightarrow> (int \<times> 'a kmem_scheme) kres" where
  "either_copyout d src s =
     (case d of
        UserDst dst \<Rightarrow> bindE (mypagetable s) (\<lambda>pt. copyout pt dst src s)
      | KernDst \<Rightarrow> Inr (0, s))"

definition either_copyin :: "source \<Rightarrow> nat \<Rightarrow> 'a kmem_scheme \<Rightarrow> (int \<times> u8 list) kres" where
  "either_copyin d len s =
     (case d of
        UserSrc src \<Rightarrow> bindE (mypagetable s) (\<lambda>pt. copyin pt src len s)
      | KernSrc xs \<Rightarrow> Inr (0, take len xs))"

text \<open>\<open>dst += m\<close> and \<open>src += m\<close>\<close>

definition dest_add :: "dest \<Rightarrow> nat \<Rightarrow> dest" where
  "dest_add d m = (case d of UserDst a \<Rightarrow> UserDst (a + of_nat m) | KernDst \<Rightarrow> KernDst)"

definition source_add :: "source \<Rightarrow> nat \<Rightarrow> source" where
  "source_add d m = (case d of UserSrc a \<Rightarrow> UserSrc (a + of_nat m) | KernSrc xs \<Rightarrow> KernSrc (drop m xs))"

section \<open>Blocks\<close>

definition readsb :: "u32 \<Rightarrow> 'a fsk_scheme \<Rightarrow> 'a fsk_scheme kres" where
  "readsb dev s =
     bindE (bread dev 1 s) (\<lambda>(bp, s).
     let d = bio_get bp s;
         s = s\<lparr>sb := \<lparr>sb_magic = get32 d 0, sb_size = get32 d 4, sb_nblocks = get32 d 8, sb_ninodes = get32 d 12,
               sb_nlog = get32 d 16, sb_logstart = get32 d 20, sb_inodestart = get32 d 24, sb_bmapstart = get32 d 28\<rparr>\<rparr> in
     brelse bp s)"

definition fsinit :: "u32 \<Rightarrow> 'a fsk_scheme \<Rightarrow> 'a fsk_scheme kres" where
  "fsinit dev s =
     bindE (readsb dev s) (\<lambda>s.
     if sb_magic (sb s) \<noteq> FSMAGIC then Inl (Panic ''invalid file system'')
     else initlog dev (sb s) s)"

definition bzero :: "u32 \<Rightarrow> u32 \<Rightarrow> 'a fsk_scheme \<Rightarrow> 'a fsk_scheme kres" where
  "bzero dev bno s =
     bindE (bread dev bno s) (\<lambda>(bp, s).
     let s = bio_put bp (replicate BSIZE 0) s in
     bindE (log_write bp s) (\<lambda>s.
     brelse bp s))"

text \<open>Bit \<open>bi\<close> of a bitmap block, and the block with that bit set or cleared.\<close>

definition get_bit :: "block \<Rightarrow> nat \<Rightarrow> bool" where
  "get_bit d bi = bit (d ! (bi div 8)) (bi mod 8)"

definition put_bit :: "block \<Rightarrow> nat \<Rightarrow> bool \<Rightarrow> block" where
  "put_bit d bi v =
     d[bi div 8 := if v then d ! (bi div 8) OR push_bit (bi mod 8) 1
                   else d ! (bi div 8) AND NOT (push_bit (bi mod 8) 1)]"

text \<open>The account a block is charged to: the running process's container, or the root's at boot.\<close>

definition disk_account :: "'a ktab_scheme \<Rightarrow> nat option" where
  "disk_account s = (case curproc s of Some p \<Rightarrow> p_cont (procs s ! p) | None \<Rightarrow> cid2cont (int ROOTCONT) s)"

definition bfree :: "u32 \<Rightarrow> u32 \<Rightarrow> 'a fsk_scheme \<Rightarrow> 'a fsk_scheme kres" where
  "bfree dev b s =
     bindE (bread dev (BBLOCK b (sb s)) s) (\<lambda>(bp, s).
     let bi = unat (b mod BPB) in
     if \<not> get_bit (bio_get bp s) bi then Inl (Panic ''freeing free block'')
     else
       let s = bio_put bp (put_bit (bio_get bp s) bi False) s;
           s = snd (updatecontdsk (- of_nat BSIZE) (disk_account s) s) in
       bindE (log_write bp s) (\<lambda>s.
       brelse bp s))"

text \<open>One round of the outer loop of \<open>balloc\<close>, for the bitmap block that covers block \<open>b\<close>.\<close>

definition balloc_round :: "u32 \<Rightarrow> nat \<Rightarrow> 'a fsk_scheme \<Rightarrow> (u32 option \<times> 'a fsk_scheme) kres" where
  "balloc_round dev b s =
     bindE (bread dev (BBLOCK (of_nat b) (sb s)) s) (\<lambda>(bp, s).
     case List.find (\<lambda>bi. \<not> get_bit (bio_get bp s) bi) [0..<min (unat BPB) (unat (sb_size (sb s)) - b)] of
       None \<Rightarrow> bindE (brelse bp s) (\<lambda>s. Inr (None, s))
     | Some bi \<Rightarrow>
         (let s = bio_put bp (put_bit (bio_get bp s) bi True) s in
          bindE (log_write bp s) (\<lambda>s.
          bindE (brelse bp s) (\<lambda>s.
          bindE (bzero dev (of_nat (b + bi)) s) (\<lambda>s.
          let (r, s) = updatecontdsk (of_nat BSIZE) (disk_account s) s in
          case curproc s of
            None \<Rightarrow> Inr (Some (of_nat (b + bi)), s)
          | Some p \<Rightarrow>
              if r < 0 then
                bindE (bfree dev (of_nat b) s) (\<lambda>s.
                case p_cont (procs s ! p) of
                  None \<Rightarrow> Inl Fault
                | Some c \<Rightarrow> bindE (climitexceedhandler c s) (\<lambda>s. Inr (Some 0, s)))
              else Inr (Some (of_nat (b + bi)), s))))))"

definition balloc :: "u32 \<Rightarrow> 'a fsk_scheme \<Rightarrow> (u32 \<times> 'a fsk_scheme) kres" where
  "balloc dev s =
     bindE (foreach [0..<(unat (sb_size (sb s)) + unat BPB - 1) div unat BPB] (\<lambda>k s. balloc_round dev (k * unat BPB) s) s) (\<lambda>(r, s).
     case r of Some n \<Rightarrow> Inr (n, s) | None \<Rightarrow> Inr (0, s))"

section \<open>Inodes\<close>

definition iinit :: "'a fsk_scheme \<Rightarrow> 'a fsk_scheme" where
  "iinit s = fold (\<lambda>i s. initsleeplock (SlInode i) s) [0..<NINODE] s"

text \<open>Offset of an inode in its block, and of its fields in the inode.\<close>

definition dinode_off :: "u32 \<Rightarrow> nat" where
  "dinode_off inum = DINODE * unat (inum mod IPB)"

definition dip_type :: "block \<Rightarrow> nat \<Rightarrow> int" where
  "dip_type d k = sint (get16 d k)"

definition put_dinode :: "inode \<Rightarrow> nat \<Rightarrow> block \<Rightarrow> block" where
  "put_dinode ip k d =
     (let d = put16 d k (word_of_int (i_type ip));
          d = put16 d (k + 2) (word_of_int (i_major ip));
          d = put16 d (k + 4) (word_of_int (i_minor ip));
          d = put16 d (k + 6) (word_of_int (i_nlink ip));
          d = put32 d (k + 8) (i_size ip) in
      fold (\<lambda>j d. put32 d (k + 12 + 4 * j) (i_addrs ip ! j)) [0..<NDIRECT + 1] d)"

definition get_dinode :: "block \<Rightarrow> nat \<Rightarrow> inode \<Rightarrow> inode" where
  "get_dinode d k ip = ip\<lparr>i_type := sint (get16 d k), i_major := sint (get16 d (k + 2)),
     i_minor := sint (get16 d (k + 4)), i_nlink := sint (get16 d (k + 6)), i_size := get32 d (k + 8),
     i_addrs := map (\<lambda>j. get32 d (k + 12 + 4 * j)) [0..<NDIRECT + 1]\<rparr>"

definition iget :: "u32 \<Rightarrow> u32 \<Rightarrow> 'a fsk_scheme \<Rightarrow> (nat \<times> 'a fsk_scheme) kres" where
  "iget dev inum s =
     bindE (acquire LIcache s) (\<lambda>s.
     case List.find (\<lambda>i. i_ref (icache s ! i) > 0 \<and> i_dev (icache s ! i) = dev \<and> i_inum (icache s ! i) = inum)
            [0..<NINODE] of
       Some ip \<Rightarrow>
         (let s = upd_inode ip (\<lambda>x. x\<lparr>i_ref := i_ref x + 1\<rparr>) s in
          bindE (release LIcache s) (\<lambda>s. Inr (ip, s)))
     | None \<Rightarrow>
         (case List.find (\<lambda>i. i_ref (icache s ! i) = 0) [0..<NINODE] of
            None \<Rightarrow> Inl (Panic ''iget: no inodes'')
          | Some ip \<Rightarrow>
              (let s = upd_inode ip (\<lambda>x. x\<lparr>i_dev := dev, i_inum := inum, i_ref := 1, i_valid := False\<rparr>) s in
               bindE (release LIcache s) (\<lambda>s. Inr (ip, s)))))"

definition ialloc :: "u32 \<Rightarrow> int \<Rightarrow> 'a fsk_scheme \<Rightarrow> (nat \<times> 'a fsk_scheme) kres" where
  "ialloc dev type s =
     bindE (foreach [1..<unat (sb_ninodes (sb s))] (\<lambda>inum s.
       bindE (bread dev (IBLOCK (of_nat inum) (sb s)) s) (\<lambda>(bp, s).
       let k = dinode_off (of_nat inum) in
       if dip_type (bio_get bp s) k = 0 then
         let d = splice (bio_get bp s) k (replicate DINODE 0);
             s = bio_put bp (put16 d k (word_of_int type)) s in
         bindE (log_write bp s) (\<lambda>s.
         bindE (brelse bp s) (\<lambda>s.
         bindE (iget dev (of_nat inum) s) (\<lambda>(ip, s). Inr (Some ip, s))))
       else bindE (brelse bp s) (\<lambda>s. Inr (None, s)))) s) (\<lambda>(r, s).
     case r of Some ip \<Rightarrow> Inr (ip, s) | None \<Rightarrow> Inl (Panic ''ialloc: no inodes''))"

definition iupdate :: "nat \<Rightarrow> 'a fsk_scheme \<Rightarrow> 'a fsk_scheme kres" where
  "iupdate ip s =
     (let x = icache s ! ip in
      bindE (bread (i_dev x) (IBLOCK (i_inum x) (sb s)) s) (\<lambda>(bp, s).
      let s = bio_put bp (put_dinode (icache s ! ip) (dinode_off (i_inum x)) (bio_get bp s)) s in
      bindE (log_write bp s) (\<lambda>s.
      brelse bp s)))"

definition idup :: "nat \<Rightarrow> 'a fsk_scheme \<Rightarrow> (nat \<times> 'a fsk_scheme) kres" where
  "idup ip s =
     bindE (acquire LIcache s) (\<lambda>s.
     let s = upd_inode ip (\<lambda>x. x\<lparr>i_ref := i_ref x + 1\<rparr>) s in
     bindE (release LIcache s) (\<lambda>s. Inr (ip, s)))"

definition ilock :: "nat option \<Rightarrow> 'a fsk_scheme \<Rightarrow> 'a fsk_scheme kres" where
  "ilock ipp s =
     (case ipp of
        None \<Rightarrow> Inl (Panic ''ilock'')
      | Some ip \<Rightarrow>
          if i_ref (icache s ! ip) < 1 then Inl (Panic ''ilock'')
          else
            bindE (acquiresleep (SlInode ip) s) (\<lambda>s.
            if \<not> i_valid (icache s ! ip) then
              let x = icache s ! ip in
              bindE (bread (i_dev x) (IBLOCK (i_inum x) (sb s)) s) (\<lambda>(bp, s).
              let s = upd_inode ip (get_dinode (bio_get bp s) (dinode_off (i_inum x))) s in
              bindE (brelse bp s) (\<lambda>s.
              let s = upd_inode ip (\<lambda>x. x\<lparr>i_valid := True\<rparr>) s in
              if i_type (icache s ! ip) = 0 then Inl (Panic ''ilock: no type'') else Inr s))
            else Inr s))"

definition iunlock :: "nat option \<Rightarrow> 'a fsk_scheme \<Rightarrow> 'a fsk_scheme kres" where
  "iunlock ipp s =
     (case ipp of
        None \<Rightarrow> Inl (Panic ''iunlock'')
      | Some ip \<Rightarrow>
          bindE (holdingsleep (SlInode ip) s) (\<lambda>(r, s).
          if \<not> r \<or> i_ref (icache s ! ip) < 1 then Inl (Panic ''iunlock'')
          else releasesleep (SlInode ip) s))"

definition itrunc :: "nat \<Rightarrow> 'a fsk_scheme \<Rightarrow> 'a fsk_scheme kres" where
  "itrunc ip s =
     bindE (foldE (\<lambda>i s.
         let a = i_addrs (icache s ! ip) ! i in
         if a \<noteq> 0 then
           bindE (bfree (i_dev (icache s ! ip)) a s) (\<lambda>s.
           Inr (upd_inode ip (\<lambda>x. x\<lparr>i_addrs := (i_addrs x)[i := 0]\<rparr>) s))
         else Inr s) [0..<NDIRECT] s) (\<lambda>s.
     bindE (let a = i_addrs (icache s ! ip) ! NDIRECT; dev = i_dev (icache s ! ip) in
       if a \<noteq> 0 then
         bindE (bread dev a s) (\<lambda>(bp, s).
         bindE (foldE (\<lambda>j s.
             let a = get32 (bio_get bp s) (4 * j) in
             if a \<noteq> 0 then bfree dev a s else Inr s) [0..<NINDIRECT] s) (\<lambda>s.
         bindE (brelse bp s) (\<lambda>s.
         bindE (bfree dev a s) (\<lambda>s.
         Inr (upd_inode ip (\<lambda>x. x\<lparr>i_addrs := (i_addrs x)[NDIRECT := 0]\<rparr>) s)))))
       else Inr s) (\<lambda>s.
     iupdate ip (upd_inode ip (\<lambda>x. x\<lparr>i_size := 0\<rparr>) s)))"

definition iput :: "nat \<Rightarrow> 'a fsk_scheme \<Rightarrow> 'a fsk_scheme kres" where
  "iput ip s =
     bindE (acquire LIcache s) (\<lambda>s.
     let x = icache s ! ip in
     bindE (if i_ref x = 1 \<and> i_valid x \<and> i_nlink x = 0 then
              bindE (acquiresleep (SlInode ip) s) (\<lambda>s.
              bindE (release LIcache s) (\<lambda>s.
              bindE (itrunc ip s) (\<lambda>s.
              let s = upd_inode ip (\<lambda>x. x\<lparr>i_type := 0\<rparr>) s in
              bindE (iupdate ip s) (\<lambda>s.
              let s = upd_inode ip (\<lambda>x. x\<lparr>i_valid := False\<rparr>) s in
              bindE (releasesleep (SlInode ip) s) (\<lambda>s.
              acquire LIcache s)))))
            else Inr s) (\<lambda>s.
     let s = upd_inode ip (\<lambda>x. x\<lparr>i_ref := i_ref x - 1\<rparr>) s in
     release LIcache s))"

definition iunlockput :: "nat \<Rightarrow> 'a fsk_scheme \<Rightarrow> 'a fsk_scheme kres" where
  "iunlockput ip s = bindE (iunlock (Some ip) s) (\<lambda>s. iput ip s)"

section \<open>Contents of an inode\<close>

definition bmap :: "nat \<Rightarrow> u32 \<Rightarrow> 'a fsk_scheme \<Rightarrow> (u32 \<times> 'a fsk_scheme) kres" where
  "bmap ip bn s =
     (let dev = i_dev (icache s ! ip); n = unat bn in
      if n < NDIRECT then
        let addr = i_addrs (icache s ! ip) ! n in
        if addr = 0 then
          bindE (balloc dev s) (\<lambda>(addr, s).
          Inr (addr, upd_inode ip (\<lambda>x. x\<lparr>i_addrs := (i_addrs x)[n := addr]\<rparr>) s))
        else Inr (addr, s)
      else if n - NDIRECT < NINDIRECT then
        bindE (let addr = i_addrs (icache s ! ip) ! NDIRECT in
          if addr = 0 then
            bindE (balloc dev s) (\<lambda>(addr, s).
            Inr (addr, upd_inode ip (\<lambda>x. x\<lparr>i_addrs := (i_addrs x)[NDIRECT := addr]\<rparr>) s))
          else Inr (addr, s)) (\<lambda>(addr, s).
        bindE (bread dev addr s) (\<lambda>(bp, s).
        let k = 4 * (n - NDIRECT); addr = get32 (bio_get bp s) k in
        bindE (if addr = 0 then
            bindE (balloc dev s) (\<lambda>(addr, s).
            let s = bio_put bp (put32 (bio_get bp s) k addr) s in
            bindE (log_write bp s) (\<lambda>s. Inr (addr, s)))
          else Inr (addr, s)) (\<lambda>(addr, s).
        bindE (brelse bp s) (\<lambda>s. Inr (addr, s)))))
      else Inl (Panic ''bmap: out of range''))"

definition stati :: "nat \<Rightarrow> 'a fsk_scheme \<Rightarrow> stat" where
  "stati ip s =
     (let x = icache s ! ip in
      \<lparr>st_dev = i_dev x, st_ino = i_inum x, st_type = i_type x, st_nlink = i_nlink x, st_size = ucast (i_size x)\<rparr>)"

text \<open>The bytes of a block from \<open>off % BSIZE\<close> on.\<close>

definition block_rest :: "u32 \<Rightarrow> nat" where
  "block_rest off = BSIZE - unat off mod BSIZE"

lemma block_rest_pos: "0 < block_rest off"
  by (simp add: block_rest_def BSIZE_def)

text \<open>The loop of \<open>readi\<close> with \<open>left\<close> for \<open>n - tot\<close>; it returns what it has put in a kernel buffer.\<close>

function readi_loop :: "nat \<Rightarrow> dest \<Rightarrow> u32 \<Rightarrow> nat \<Rightarrow> 'a fsk_scheme \<Rightarrow> (u8 list \<times> 'a fsk_scheme) kres" where
  "readi_loop ip dst off left s =
     (if left = 0 then Inr ([], s)
      else
        bindE (bmap ip (off div of_nat BSIZE) s) (\<lambda>(addr, s).
        bindE (bread (i_dev (icache s ! ip)) addr s) (\<lambda>(bp, s).
        let m = min left (block_rest off);
            xs = slice (bio_get bp s) (unat off mod BSIZE) m in
        bindE (either_copyout dst xs s) (\<lambda>(r, s).
        if r = -1 then bindE (brelse bp s) (\<lambda>s. Inr ([], s))
        else
          bindE (brelse bp s) (\<lambda>s.
          bindE (readi_loop ip (dest_add dst m) (off + of_nat m) (left - m) s) (\<lambda>(ys, s).
          Inr (xs @ ys, s)))))))"
  by pat_completeness auto

termination
  by (relation "measure (\<lambda>(ip, dst, off, left, s). left)") (auto simp: block_rest_pos)

definition readi :: "nat \<Rightarrow> dest \<Rightarrow> u32 \<Rightarrow> u32 \<Rightarrow> 'a fsk_scheme \<Rightarrow> (int \<times> u8 list \<times> 'a fsk_scheme) kres" where
  "readi ip dst off n s =
     (let sz = i_size (icache s ! ip) in
      if off > sz \<or> off + n < off then Inr (-1, [], s)
      else
        let n = (if off + n > sz then sz - off else n) in
        bindE (readi_loop ip dst off (unat n) s) (\<lambda>(xs, s).
        Inr (sint n, xs, s)))"

text \<open>
  The loop of \<open>writei\<close> returns the offset it has reached.  A copy that fails
  part way has already changed the buffer.
\<close>

function writei_loop :: "nat \<Rightarrow> source \<Rightarrow> u32 \<Rightarrow> nat \<Rightarrow> 'a fsk_scheme \<Rightarrow> (u32 \<times> 'a fsk_scheme) kres" where
  "writei_loop ip src off left s =
     (if left = 0 then Inr (off, s)
      else
        bindE (bmap ip (off div of_nat BSIZE) s) (\<lambda>(addr, s).
        bindE (bread (i_dev (icache s ! ip)) addr s) (\<lambda>(bp, s).
        let m = min left (block_rest off) in
        bindE (either_copyin src m s) (\<lambda>(r, xs).
        let s = bio_put bp (splice (bio_get bp s) (unat off mod BSIZE) xs) s in
        if r = -1 then bindE (brelse bp s) (\<lambda>s. Inr (off, s))
        else
          bindE (log_write bp s) (\<lambda>s.
          bindE (brelse bp s) (\<lambda>s.
          writei_loop ip (source_add src m) (off + of_nat m) (left - m) s))))))"
  by pat_completeness auto

termination
  by (relation "measure (\<lambda>(ip, src, off, left, s). left)") (auto simp: block_rest_pos)

declare readi_loop.simps [simp del] writei_loop.simps [simp del]

definition writei :: "nat \<Rightarrow> source \<Rightarrow> u32 \<Rightarrow> u32 \<Rightarrow> 'a fsk_scheme \<Rightarrow> (int \<times> 'a fsk_scheme) kres" where
  "writei ip src off n s =
     (if off > i_size (icache s ! ip) \<or> off + n < off then Inr (-1, s)
      else if unat (off + n) > MAXFILE * BSIZE then Inr (-1, s)
      else
        bindE (writei_loop ip src off (unat n) s) (\<lambda>(off, s).
        if n > 0 then
          let s = (if off > i_size (icache s ! ip) then upd_inode ip (\<lambda>x. x\<lparr>i_size := off\<rparr>) s else s) in
          bindE (iupdate ip s) (\<lambda>s. Inr (sint n, s))
        else Inr (sint n, s)))"

section \<open>Directories\<close>

definition namecmp :: "u8 list \<Rightarrow> u8 list \<Rightarrow> int kres" where
  "namecmp s t = strncmp s t DIRSIZ"

text \<open>\<open>struct dirent\<close>: the inode number at offset 0, the name at offset 2.\<close>

definition de_inum :: "u8 list \<Rightarrow> u32" where
  "de_inum de = ucast (get16 de 0)"

definition de_name :: "u8 list \<Rightarrow> u8 list" where
  "de_name de = drop 2 de"

text \<open>The number of directory entries a loop over the directory visits.\<close>

definition dir_slots :: "nat \<Rightarrow> 'a fsk_scheme \<Rightarrow> nat" where
  "dir_slots dp s = (unat (i_size (icache s ! dp)) + DIRENT - 1) div DIRENT"

definition read_dirent :: "nat \<Rightarrow> nat \<Rightarrow> string \<Rightarrow> 'a fsk_scheme \<Rightarrow> (u8 list \<times> 'a fsk_scheme) kres" where
  "read_dirent dp i msg s =
     bindE (readi dp KernDst (of_nat (i * DIRENT)) (of_nat DIRENT) s) (\<lambda>(r, de, s).
     if r \<noteq> int DIRENT then Inl (Panic msg) else Inr (de, s))"

definition dirlookup :: "nat \<Rightarrow> u8 list \<Rightarrow> 'a fsk_scheme \<Rightarrow> ((nat \<times> u32) option \<times> 'a fsk_scheme) kres" where
  "dirlookup dp name s =
     (if i_type (icache s ! dp) \<noteq> T_DIR then Inl (Panic ''dirlookup not DIR'')
      else foreach [0..<dir_slots dp s] (\<lambda>i s.
        bindE (read_dirent dp i ''dirlookup read'' s) (\<lambda>(de, s).
        if de_inum de = 0 then Inr (None, s)
        else
          bindE (namecmp name (de_name de)) (\<lambda>c.
          if c = 0 then
            bindE (iget (i_dev (icache s ! dp)) (de_inum de) s) (\<lambda>(ip, s).
            Inr (Some (ip, of_nat (i * DIRENT)), s))
          else Inr (None, s)))) s)"

definition dirlink :: "nat \<Rightarrow> u8 list \<Rightarrow> u32 \<Rightarrow> 'a fsk_scheme \<Rightarrow> (int \<times> 'a fsk_scheme) kres" where
  "dirlink dp name inum s =
     bindE (dirlookup dp name s) (\<lambda>(r, s).
     case r of
       Some (ip, _) \<Rightarrow> bindE (iput ip s) (\<lambda>s. Inr (-1, s))
     | None \<Rightarrow>
         bindE (foreach [0..<dir_slots dp s] (\<lambda>i s.
             bindE (read_dirent dp i ''dirlink read'' s) (\<lambda>(de, s).
             Inr (if de_inum de = 0 then Some (i, de) else None, s))) s) (\<lambda>(r, s).
         let (i, de) = (case r of Some x \<Rightarrow> x | None \<Rightarrow> (dir_slots dp s, replicate DIRENT 0)) in
         bindE (strncpy (de_name de) name DIRSIZ) (\<lambda>nm.
         let de = put16 (take 2 de) 0 (ucast inum) @ nm in
         bindE (writei dp (KernSrc de) (of_nat (i * DIRENT)) (of_nat DIRENT) s) (\<lambda>(r, s).
         if r \<noteq> int DIRENT then Inl (Panic ''dirlink'') else Inr (0, s)))))"

section \<open>Paths\<close>

definition SLASH :: u8 where "SLASH = 47"

text \<open>
  The result is the rest of the path and the new contents of \<open>name\<close>; \<open>None\<close>
  stands for the null pointer.  A path without a NUL is read past its end.
\<close>

definition skipelem :: "u8 list \<Rightarrow> u8 list \<Rightarrow> (u8 list \<times> u8 list) option kres" where
  "skipelem path name =
     (let path = dropWhile (\<lambda>c. c = SLASH) path in
      case path of
        [] \<Rightarrow> Inl Fault
      | c # _ \<Rightarrow>
          if c = 0 then Inr None
          else
            let elem = takeWhile (\<lambda>c. c \<noteq> SLASH \<and> c \<noteq> 0) path;
                rest = dropWhile (\<lambda>c. c = SLASH) (dropWhile (\<lambda>c. c \<noteq> SLASH \<and> c \<noteq> 0) path);
                len = length elem;
                name = (if len \<ge> DIRSIZ then splice name 0 (take DIRSIZ elem)
                        else (splice name 0 elem)[len := 0]) in
            if rest = [] then Inl Fault else Inr (Some (rest, name)))"

definition deref :: "'x option \<Rightarrow> 'x kres" where
  "deref p = (case p of None \<Rightarrow> Inl Fault | Some x \<Rightarrow> Inr x)"

lemma length_dropWhile_less:
  "path = c # rest \<Longrightarrow> P c \<Longrightarrow> length (dropWhile Q (dropWhile P path)) < length path"
  using length_dropWhile_le [of Q "dropWhile P rest"] length_dropWhile_le [of P rest] by simp

lemma skipelem_shorter:
  assumes "skipelem path name = Inr (Some (path', name'))"
  shows "length path' < length path"
proof -
  obtain c cs where p: "dropWhile (\<lambda>c. c = SLASH) path = c # cs"
    using assms by (auto simp: skipelem_def Let_def split: list.splits if_splits)
  then have c: "c \<noteq> SLASH" by (auto dest: dropWhile_eq_Cons_conv [THEN iffD1])
  note E = assms [unfolded skipelem_def Let_def p list.case]
  have "c \<noteq> 0" using E by (cases "c = 0") (simp_all del: dropWhile_eq_Nil_conv)
  with E have "path' = dropWhile (\<lambda>c. c = SLASH) (dropWhile (\<lambda>c. c \<noteq> SLASH \<and> c \<noteq> 0) (c # cs))"
    by (simp del: dropWhile_eq_Nil_conv dropWhile.simps split: if_split_asm)
  then have "length path' < length (c # cs)"
    using c \<open>c \<noteq> 0\<close> length_dropWhile_less [of "c # cs" c cs "\<lambda>c. c \<noteq> SLASH \<and> c \<noteq> 0" "\<lambda>c. c = SLASH"] by simp
  also have "\<dots> \<le> length path" unfolding p [symmetric] by (rule length_dropWhile_le)
  finally show ?thesis .
qed

function namex_loop :: "nat \<Rightarrow> nat \<Rightarrow> u8 list \<Rightarrow> bool \<Rightarrow> u8 list \<Rightarrow> 'a fsk_scheme \<Rightarrow>
    (nat option \<times> u8 list \<times> 'a fsk_scheme) kres" where
  "namex_loop rootip ip path nameiparent name s =
     (case skipelem path name of
        Inl e \<Rightarrow> Inl e
      | Inr None \<Rightarrow>
          if nameiparent then bindE (iput ip s) (\<lambda>s. Inr (None, name, s)) else Inr (Some ip, name, s)
      | Inr (Some (path, name)) \<Rightarrow>
          bindE (ilock (Some ip) s) (\<lambda>s.
          if i_type (icache s ! ip) \<noteq> T_DIR then bindE (iunlockput ip s) (\<lambda>s. Inr (None, name, s))
          else if nameiparent \<and> hd path = 0 then bindE (iunlock (Some ip) s) (\<lambda>s. Inr (Some ip, name, s))
          else
            bindE (dirlookup ip name s) (\<lambda>(r, s).
            case r of
              None \<Rightarrow> bindE (iunlockput ip s) (\<lambda>s. Inr (None, name, s))
            | Some (next, _) \<Rightarrow>
                bindE (mycont s) (\<lambda>c.
                bindE (if c_isroot (conts s ! c) \<noteq> 0 then iunlockput ip s else iunlock (Some ip) s) (\<lambda>s.
                let ip = (if c_isroot (conts s ! c) \<noteq> 0 \<or> i_inum (icache s ! next) \<noteq> i_inum (icache s ! rootip)
                          then next else ip) in
                namex_loop rootip ip path nameiparent name s)))))"
  by pat_completeness auto

termination
  by (relation "measure (\<lambda>(rootip, ip, path, nameiparent, name, s). length path)") (auto dest: skipelem_shorter)

declare namex_loop.simps [simp del]

definition namex :: "u8 list \<Rightarrow> bool \<Rightarrow> u8 list \<Rightarrow> 'a fsk_scheme \<Rightarrow> (nat option \<times> u8 list \<times> 'a fsk_scheme) kres" where
  "namex path nameiparent name s =
     bindE (iget ROOTDEV ROOTINO s) (\<lambda>(rootip, s).
     bindE (case curproc s of
        None \<Rightarrow> Inr (rootip, s)
      | Some p \<Rightarrow>
          if path = [] then Inl Fault
          else if hd path = SLASH then
            bindE (mycont s) (\<lambda>c. bindE (deref (c_rootdir (conts s ! c))) (\<lambda>d. idup d s))
          else bindE (deref (p_cwd (procs s ! p))) (\<lambda>d. idup d s)) (\<lambda>(ip, s).
     namex_loop rootip ip path nameiparent name s))"

definition namei :: "u8 list \<Rightarrow> 'a fsk_scheme \<Rightarrow> (nat option \<times> 'a fsk_scheme) kres" where
  "namei path s = bindE (namex path False (replicate DIRSIZ 0) s) (\<lambda>(ip, _, s). Inr (ip, s))"

definition nameiparent :: "u8 list \<Rightarrow> u8 list \<Rightarrow> 'a fsk_scheme \<Rightarrow> (nat option \<times> u8 list \<times> 'a fsk_scheme) kres" where
  "nameiparent path name s = namex path True name s"

text \<open>The count \<open>unusedblock\<close> prints.\<close>

definition unusedblock :: "nat \<Rightarrow> 'a fsk_scheme \<Rightarrow> (nat \<times> 'a fsk_scheme) kres" where
  "unusedblock ip s =
     foldE (\<lambda>k (countf, s).
       let b = k * unat BPB in
       bindE (bread (i_dev (icache s ! ip)) (BBLOCK (of_nat b) (sb s)) s) (\<lambda>(bp, s).
       let free = length (filter (\<lambda>bi. \<not> get_bit (bio_get bp s) bi) [0..<min (unat BPB) (unat (sb_size (sb s)) - b)]) in
       bindE (brelse bp s) (\<lambda>s. Inr (countf + free, s))))
     [0..<(unat (sb_size (sb s)) + unat BPB - 1) div unat BPB] (0, s)"

text \<open>The path is built in a local array of 512 bytes.\<close>

definition dirsize :: "nat \<Rightarrow> u8 list \<Rightarrow> 'a fsk_scheme \<Rightarrow> (u64 \<times> 'a fsk_scheme) kres" where
  "dirsize dp name s =
     bindE (dirlookup dp name s) (\<lambda>(r, s).
     if r \<noteq> None then Inr (-1, s)
     else
       bindE (foldE (\<lambda>i (size, s).
           bindE (read_dirent dp i ''dirsize read'' s) (\<lambda>(de, s).
           bindE (strlen name) (\<lambda>n.
           bindE (strlen (de_name de)) (\<lambda>m.
           if n + 1 + m \<ge> 512 then Inl Fault
           else
             bindE (namei (take n name @ SLASH # take m (de_name de) @ [0]) s) (\<lambda>(ip, s).
             case ip of
               None \<Rightarrow> Inr (size, s)
             | Some ip \<Rightarrow>
                 if i_inum (icache s ! ip) \<noteq> ROOTINO \<and> i_inum (icache s ! ip) \<noteq> i_inum (icache s ! dp) then
                   bindE (ilock (Some ip) s) (\<lambda>s.
                   let size = size + i_size (icache s ! ip) in
                   bindE (iunlock (Some ip) s) (\<lambda>s. Inr (size, s)))
                 else Inr (size, s))))))
         [0..<dir_slots dp s] (0 :: u32, s)) (\<lambda>(size, s).
       Inr (ucast size, s)))"

end
