(* ===== verification/Path.thy ===== *)
theory Path
  imports Fs
begin

text \<open>
  Path names: the loop of \<open>namex\<close> over \<open>skipelem\<close> visits the components of
  the path, the non-empty pieces between slashes.
\<close>

section \<open>Specification\<close>

primrec split_slash :: "u8 list \<Rightarrow> u8 list list" where
  "split_slash [] = [[]]"
| "split_slash (c # cs) = (if c = SLASH then [] # split_slash cs else (c # hd (split_slash cs)) # tl (split_slash cs))"

definition components :: "u8 list \<Rightarrow> u8 list list" where
  "components path = filter (\<lambda>x. x \<noteq> []) (split_slash (cstr path))"

text \<open>The names \<open>while((path = skipelem(path, name)) != 0)\<close> goes through.\<close>

function path_names :: "u8 list \<Rightarrow> u8 list \<Rightarrow> u8 list list kres" where
  "path_names path name =
     (case skipelem path name of
        Inl e \<Rightarrow> Inl e
      | Inr None \<Rightarrow> Inr []
      | Inr (Some (path, name)) \<Rightarrow> bindE (path_names path name) (\<lambda>ns. Inr (name # ns)))"
  by pat_completeness auto

termination
  by (relation "measure (\<lambda>(path, name). length path)") (auto dest: skipelem_shorter)

declare path_names.simps [simp del]

section \<open>Facts\<close>

lemma SLASH_nonzero [simp]: "SLASH \<noteq> 0" "0 \<noteq> SLASH"
  by (simp_all add: SLASH_def)

lemma split_slash_nonempty [simp]: "split_slash p \<noteq> []"
  by (induction p) simp_all

lemma split_slash_elem: "SLASH \<notin> set w \<Longrightarrow> split_slash (w @ SLASH # r) = w # split_slash r"
  by (induction w) auto

lemma split_slash_last: "SLASH \<notin> set w \<Longrightarrow> split_slash w = [w]"
  by (induction w) auto

lemma components_NUL [simp]: "components (0 # p) = []"
  by (simp add: components_def)

lemma components_slash [simp]: "components (SLASH # p) = components p"
  by (simp add: components_def)

lemma components_skip [simp]: "components (dropWhile (\<lambda>c. c = SLASH) p) = components p"
  by (induction p) auto

lemma components_elem:
  assumes "w \<noteq> []" and "\<And>c. c \<in> set w \<Longrightarrow> c \<noteq> SLASH \<and> c \<noteq> 0" and "r \<noteq> []" and "hd r = SLASH \<or> hd r = 0"
  shows "components (w @ r) = w # components r"
proof -
  obtain c r' where r: "r = c # r'" using assms(3) by (cases r) auto
  have "cstr (w @ r) = w @ cstr r" using assms(2) by (auto simp: cstr_def takeWhile_append)
  moreover have "SLASH \<notin> set w" using assms(2) by blast
  ultimately show ?thesis
    using assms(1,4) r by (auto simp: components_def split_slash_elem split_slash_last)
qed

text \<open>What is left after skipping slashes: it ends in a NUL, and starts with one when no component is left.\<close>

lemma skip_slashes:
  assumes "0 \<in> set p"
  defines "q \<equiv> dropWhile (\<lambda>c. c = SLASH) p"
  shows "q \<noteq> []" and "0 \<in> set q" and "hd q \<noteq> SLASH" and "hd q = 0 \<longleftrightarrow> components p = []"
proof -
  have "0 \<in> set q \<and> q \<noteq> [] \<and> hd q \<noteq> SLASH" using assms(1) unfolding q_def by (induction p) auto
  then show q: "0 \<in> set q" "q \<noteq> []" "hd q \<noteq> SLASH" by simp_all
  then obtain c r where "q = c # r" by (cases q) auto
  with q have "hd q = 0 \<longleftrightarrow> components q = []" by (auto simp: components_def)
  then show "hd q = 0 \<longleftrightarrow> components p = []" by (simp add: q_def)
qed

lemma skipelem_name:
  assumes "length name = DIRSIZ" and "0 \<notin> set w"
  defines "nm \<equiv> if length w \<ge> DIRSIZ then splice name 0 (take DIRSIZ w) else (splice name 0 w)[length w := 0]"
  shows "length nm = DIRSIZ" and "cstr nm = take DIRSIZ w"
proof -
  have "cstr v = v" if "0 \<notin> set v" for v :: "u8 list" using that by (auto simp: cstr_def)
  moreover have "0 \<notin> set (take DIRSIZ w)" using assms(2) by (auto dest: in_set_takeD)
  moreover have "nm = w @ 0 # drop (Suc (length w)) name" if "length w < DIRSIZ"
    using that assms(1) by (auto simp: nm_def splice_def list_update_append Cons_nth_drop_Suc [symmetric])
  ultimately show "length nm = DIRSIZ" "cstr nm = take DIRSIZ w"
    using assms(1,2) by (cases "length w < DIRSIZ"; simp add: nm_def splice_def cstr_cstr_append)+
qed

lemma skipelem_eq:
  assumes "0 \<in> set path" and "length name = DIRSIZ"
  shows "case components path of
      [] \<Rightarrow> skipelem path name = Inr None
    | e # es \<Rightarrow> \<exists>path' name'. skipelem path name = Inr (Some (path', name')) \<and> components path' = es \<and>
        cstr name' = take DIRSIZ e \<and> length name' = DIRSIZ \<and> 0 \<in> set path' \<and> (hd path' = 0 \<longleftrightarrow> es = [])"
proof -
  define q where "q = dropWhile (\<lambda>c. c = SLASH) path"
  note q = skip_slashes [OF assms(1), folded q_def]
  obtain c q' where c: "q = c # q'" using q(1) by (cases q) auto
  show ?thesis
  proof (cases "c = 0")
    case True
    then show ?thesis using c q(4) by (simp add: skipelem_def q_def [symmetric] Let_def)
  next
    case False
    define w where "w = takeWhile (\<lambda>c. c \<noteq> SLASH \<and> c \<noteq> 0) q"
    define r where "r = dropWhile (\<lambda>c. c \<noteq> SLASH \<and> c \<noteq> 0) q"
    have wr: "q = w @ r" by (simp add: w_def r_def)
    have w: "w \<noteq> []" "\<And>c. c \<in> set w \<Longrightarrow> c \<noteq> SLASH \<and> c \<noteq> 0"
      using c q(3) False set_takeWhileD unfolding w_def by fastforce+
    then have "0 \<notin> set w" by blast
    with q(2) wr have r: "0 \<in> set r" "r \<noteq> []" by auto
    then have "hd r = SLASH \<or> hd r = 0" using hd_dropWhile [of "\<lambda>c. c \<noteq> SLASH \<and> c \<noteq> 0" q] unfolding r_def by blast
    note comp = components_elem [OF w r(2) this, folded wr]
    note rest = skip_slashes [OF r(1)]
    note nm = skipelem_name [OF assms(2) \<open>0 \<notin> set w\<close>]
    have "skipelem path name = Inr (Some (dropWhile (\<lambda>c. c = SLASH) r,
        if length w \<ge> DIRSIZ then splice name 0 (take DIRSIZ w) else (splice name 0 w)[length w := 0]))"
      using False rest(1) unfolding skipelem_def q_def [symmetric] Let_def w_def [symmetric] r_def [symmetric]
      by (simp add: c del: dropWhile_eq_Nil_conv)
    moreover have "components path = w # components r" using comp by (simp add: q_def)
    ultimately show ?thesis using rest(2,4) nm by simp
  qed
qed

text \<open>
  C16: the loop of \<open>namex\<close> over \<open>skipelem\<close> terminates and takes the path
  apart at its slashes: the names it goes through are the components of the
  path in order, whatever the number of slashes before, between and after
  them, each cut to the 14 bytes of a directory entry.
\<close>

theorem path_names_components:
  assumes "0 \<in> set path" and "length name = DIRSIZ"
  shows "\<exists>ns. path_names path name = Inr ns \<and> map cstr ns = map (take DIRSIZ) (components path)"
  using assms
proof (induction "components path" arbitrary: path name)
  case Nil
  then show ?case using skipelem_eq [of path name] by (simp add: path_names.simps)
next
  case (Cons e es)
  from skipelem_eq [OF Cons.prems] Cons.hyps(2) [symmetric] obtain path' name' where
    1: "skipelem path name = Inr (Some (path', name'))" "components path' = es" "cstr name' = take DIRSIZ e"
      "length name' = DIRSIZ" "0 \<in> set path'" by auto
  from Cons.hyps(1) [OF 1(2) [symmetric] 1(5,4)] obtain ns where
    "path_names path' name' = Inr ns" "map cstr ns = map (take DIRSIZ) (components path')" by blast
  with 1 Cons.hyps(2) [symmetric] show ?case by (simp add: path_names.simps [of path])
qed

theorem path_names_components_witness:
  "\<exists>ns. path_names (lit ''//a/bb//c/'') (replicate DIRSIZ 0) = Inr ns \<and> map cstr ns = [[97], [98, 98], [99]]"
  using path_names_components [of "lit ''//a/bb//c/''" "replicate DIRSIZ 0"]
  by (simp add: lit_def components_def DIRSIZ_def SLASH_def)

end
