(* ===== verification/Fslog.thy ===== *)
theory Fslog
  imports Logtx Fs
begin

text \<open>
  How the file system uses the log and the buffer cache inside a
  transaction: a store of blocks of which some are locked by the caller, some
  have been logged, and all others are untouched.  The contract is the locale
  \<open>tx_store\<close>; it is interpreted on the model of \<open>bio.c\<close> and \<open>log.c\<close>.
\<close>

section \<open>The contract\<close>

text \<open>
  \<open>dat\<close> is what a read of a block gives, \<open>lkd\<close> the blocks locked by the
  caller, \<open>logged\<close> the blocks that belong to the transaction, of which there can
  be \<open>cap\<close>, \<open>active\<close> whether a transaction is open, \<open>frm\<close> everything of the state the layers below do not own.
\<close>

locale tx_store =
  fixes ok :: "'s \<Rightarrow> bool"
    and dat :: "'s \<Rightarrow> u32 \<Rightarrow> block"
    and lkd :: "'s \<Rightarrow> u32 set"
    and logged :: "'s \<Rightarrow> u32 set"
    and active :: "'s \<Rightarrow> bool"
    and cap :: nat
    and home :: "u32 \<Rightarrow> bool"
    and frm :: "'s \<Rightarrow> 'f"
    and holds :: "'s \<Rightarrow> nat \<Rightarrow> u32 \<Rightarrow> bool"
    and read :: "u32 \<Rightarrow> 's \<Rightarrow> (nat \<times> 's) kres"
    and get :: "nat \<Rightarrow> 's \<Rightarrow> block"
    and put :: "nat \<Rightarrow> block \<Rightarrow> 's \<Rightarrow> 's"
    and wr :: "nat \<Rightarrow> 's \<Rightarrow> 's kres"
    and rel :: "nat \<Rightarrow> 's \<Rightarrow> 's kres"
  assumes read_law: "ok s \<Longrightarrow> n \<notin> lkd s \<Longrightarrow> card (logged s) + card (lkd s) \<le> cap \<Longrightarrow>
      \<exists>b s'. read n s = Inr (b, s') \<and> ok s' \<and> dat s' = dat s \<and> lkd s' = insert n (lkd s) \<and> logged s' = logged s \<and>
        active s' = active s \<and> frm s' = frm s \<and> holds s' b n \<and> (\<forall>c m. holds s c m \<longrightarrow> holds s' c m)"
    and get_law: "ok s \<Longrightarrow> holds s b n \<Longrightarrow> get b s = dat s n"
    and write_law: "ok s \<Longrightarrow> holds s b n \<Longrightarrow> active s \<Longrightarrow> home n \<Longrightarrow> length x = BSIZE \<Longrightarrow> card (logged s) < cap \<Longrightarrow>
      \<exists>s'. wr b (put b x s) = Inr s' \<and> ok s' \<and> dat s' = (dat s)(n := x) \<and> lkd s' = lkd s \<and>
        logged s' = insert n (logged s) \<and> active s' \<and> frm s' = frm s \<and> (\<forall>c m. holds s c m \<longrightarrow> holds s' c m)"
    and rel_law: "ok s \<Longrightarrow> holds s b n \<Longrightarrow>
      \<exists>s'. rel b s = Inr s' \<and> ok s' \<and> dat s' = dat s \<and> lkd s' = lkd s - {n} \<and> logged s' = logged s \<and>
        active s' = active s \<and> frm s' = frm s \<and> (\<forall>c m. m \<noteq> n \<longrightarrow> holds s c m \<longrightarrow> holds s' c m)"
    and size_law: "ok s \<Longrightarrow> length (dat s n) = BSIZE"
begin

text \<open>Everything a client sees of two states is the same.\<close>

definition same :: "'s \<Rightarrow> 's \<Rightarrow> bool" where
  "same s s' \<longleftrightarrow> ok s' \<and> dat s' = dat s \<and> lkd s' = lkd s \<and> logged s' = logged s \<and> active s' = active s \<and> frm s' = frm s"

lemma read_rel:
  assumes "ok s" and "n \<notin> lkd s" and "card (logged s) + card (lkd s) \<le> cap"
  shows "\<exists>b s1 s2. read n s = Inr (b, s1) \<and> frm s1 = frm s \<and> get b s1 = dat s n \<and> rel b s1 = Inr s2 \<and> same s s2 \<and>
    (\<forall>c m. holds s c m \<longrightarrow> m \<noteq> n \<longrightarrow> holds s2 c m)"
proof -
  from read_law [OF assms] obtain b s1 where 1: "read n s = Inr (b, s1)" "ok s1" "dat s1 = dat s"
    "lkd s1 = insert n (lkd s)" "logged s1 = logged s" "active s1 = active s" "frm s1 = frm s" "holds s1 b n" "\<forall>c m. holds s c m \<longrightarrow> holds s1 c m"
    by blast
  from rel_law [OF 1(2,8)] obtain s2 where 2: "rel b s1 = Inr s2" "ok s2" "dat s2 = dat s1" "lkd s2 = lkd s1 - {n}"
    "logged s2 = logged s1" "active s2 = active s1" "frm s2 = frm s1" "\<forall>c m. m \<noteq> n \<longrightarrow> holds s1 c m \<longrightarrow> holds s2 c m" by blast
  show ?thesis using 1 2 get_law [OF 1(2,8)] assms(2) by (auto simp: same_def)
qed

lemma update:
  assumes "ok s" and "n \<notin> lkd s" and "card (logged s) + card (lkd s) < cap" and "active s" and "home n" and "length x = BSIZE"
  shows "\<exists>b s1 s2 s3. read n s = Inr (b, s1) \<and> frm s1 = frm s \<and> get b s1 = dat s n \<and> wr b (put b x s1) = Inr s2 \<and>
    rel b s2 = Inr s3 \<and> ok s3 \<and> dat s3 = (dat s)(n := x) \<and> lkd s3 = lkd s \<and> logged s3 = insert n (logged s) \<and>
    active s3 \<and> frm s3 = frm s \<and> (\<forall>c m. holds s c m \<longrightarrow> m \<noteq> n \<longrightarrow> holds s3 c m)"
proof -
  from read_law [OF assms(1,2)] assms(3) obtain b s1 where 1: "read n s = Inr (b, s1)" "ok s1" "dat s1 = dat s"
    "lkd s1 = insert n (lkd s)" "logged s1 = logged s" "active s1 = active s" "frm s1 = frm s" "holds s1 b n" "\<forall>c m. holds s c m \<longrightarrow> holds s1 c m"
    by auto
  have "card (logged s1) < cap" "active s1" using assms(3,4) 1(5,6) by simp_all
  from write_law [OF 1(2,8) this(2) assms(5,6) this(1)] obtain s2 where 2: "wr b (put b x s1) = Inr s2" "ok s2"
    "dat s2 = (dat s1)(n := x)" "lkd s2 = lkd s1" "logged s2 = insert n (logged s1)" "active s2" "frm s2 = frm s1"
    "\<forall>c m. holds s1 c m \<longrightarrow> holds s2 c m" by blast
  have h: "holds s2 b n" using 1(8) 2(8) by blast
  from rel_law [OF 2(2) h] obtain s3 where 3: "rel b s2 = Inr s3" "ok s3" "dat s3 = dat s2" "lkd s3 = lkd s2 - {n}"
    "logged s3 = logged s2" "active s3 = active s2" "frm s3 = frm s2" "\<forall>c m. m \<noteq> n \<longrightarrow> holds s2 c m \<longrightarrow> holds s3 c m" by blast
  show ?thesis
    using 1 2 3 get_law [OF 1(2,8)] assms(2) by (intro exI [of _ b] exI [of _ s1] exI [of _ s2] exI [of _ s3]) auto
qed

end

section \<open>The instance\<close>

definition no_log :: log_state where
  "no_log = \<lparr>log_start = 0, log_size = 0, log_outstanding = 0, log_committing = False, log_dev = 0,
     log_lh = \<lparr>lh_n = 0, lh_block = []\<rparr>\<rparr>"

definition log_frm :: "'a logk_scheme \<Rightarrow> 'a logk_scheme" where
  "log_frm s = (bio_frm s)\<lparr>log := no_log\<rparr>"

definition blocks :: "'a logk_scheme \<Rightarrow> u32 \<Rightarrow> block" where
  "blocks s = vdata (bio_abs s)"

definition locked_blocks :: "'a logk_scheme \<Rightarrow> u32 set" where
  "locked_blocks s = {m. vlkd (bio_abs s) m}"

definition in_tx :: "'a logk_scheme \<Rightarrow> u32 set" where
  "in_tx s = set (tx s)"

definition in_op :: "'a logk_scheme \<Rightarrow> bool" where
  "in_op s \<longleftrightarrow> 1 \<le> log_outstanding (log s)"

text \<open>Blocks are pinned when logged, referenced when locked, and clean unless logged.\<close>

definition log_open :: "nat \<Rightarrow> u32 \<Rightarrow> 'a logk_scheme \<Rightarrow> bool" where
  "log_open k st s \<longleftrightarrow> bio_inv s \<and> tx_ok s \<and> length (lh_block (log_lh (log s))) = LOGSIZE \<and> log_size (log s) = int k \<and>
     log_start (log s) = st \<and> layout st k (tx s) \<and>
     describes (disk s st) [] \<and> (\<forall>m. m \<notin> in_tx s \<longrightarrow> blocks s m = disk s m) \<and>
     (\<forall>m. vrefs (bio_abs s) m = (if m \<in> in_tx s then 1 else 0) + (if m \<in> locked_blocks s then 1 else 0))"

lemma log_frm_bio: "bio_frm t = bio_frm s \<Longrightarrow> log_frm t = log_frm s"
  by (simp add: log_frm_def)

lemma log_frm_upd [simp]: "log_frm (s\<lparr>log := x\<rparr>) = log_frm s"
  by (simp add: log_frm_def bio_frm_def cong: sleepid.case_cong)

lemma log_openD:
  assumes "log_open k st s"
  shows "bio_inv s" "tx_ok s" "length (lh_block (log_lh (log s))) = LOGSIZE" "log_size (log s) = int k"
    "log_start (log s) = st" "layout st k (tx s)" "describes (disk s st) []"
    "\<And>m. m \<notin> in_tx s \<Longrightarrow> blocks s m = disk s m"
    "\<And>m. vrefs (bio_abs s) m = (if m \<in> in_tx s then 1 else 0) + (if m \<in> locked_blocks s then 1 else 0)"
    "card (in_tx s) = length (tx s)"
  using assms layoutD(3) distinct_card unfolding log_open_def in_tx_def layout_def by (blast, blast, blast, blast, blast, blast, blast, blast, blast, metis distinct_card)

lemma room_open:
  assumes "log_open k st s" and "n \<notin> locked_blocks s" and "card (in_tx s) + card (locked_blocks s) \<le> k - 1"
  shows "room (bio_abs s) n"
proof -
  note O = log_openD [OF assms(1)]
  have l: "vlkd (bio_abs s) m \<longleftrightarrow> m \<in> locked_blocks s" for m by (simp add: locked_blocks_def)
  have "tidy (bio_abs s)" unfolding tidy_def using O(8,9) l by (auto simp: blocks_def split: if_split_asm)
  moreover have "{m. vrefs (bio_abs s) m \<noteq> 0} \<subseteq> in_tx s \<union> locked_blocks s" using O(9) by auto
  then have "card {m. vrefs (bio_abs s) m \<noteq> 0} \<le> card (in_tx s \<union> locked_blocks s)" by (intro card_mono) simp_all
  moreover have "card (in_tx s \<union> locked_blocks s) \<le> card (in_tx s) + card (locked_blocks s)" by (rule card_Un_le)
  moreover have "k \<le> LOGSIZE" "0 < k" using O(6) by (auto simp: layout_def)
  ultimately have "tidy (bio_abs s)" "card {m. vrefs (bio_abs s) m \<noteq> 0} < NBUF"
    using assms(3) by (simp_all add: LOGSIZE_def MAXOPBLOCKS_def NBUF_def)
  then show ?thesis using assms(2) O(9) [of n] l by (simp add: room_def)
qed

lemma open_read:
  fixes s :: "'a logk_scheme"
  assumes o: "log_open k st s" and n: "n \<notin> locked_blocks s" and c: "card (in_tx s) + card (locked_blocks s) \<le> k - 1"
  shows "\<exists>b s'. bread ROOTDEV n s = Inr (b, s') \<and> log_open k st s' \<and> blocks s' = blocks s \<and>
    locked_blocks s' = insert n (locked_blocks s) \<and> in_tx s' = in_tx s \<and> in_op s' = in_op s \<and> log_frm s' = log_frm s \<and> bio_holds s' b n \<and>
    (\<forall>c m. bio_holds s c m \<longrightarrow> bio_holds s' c m)"
proof -
  note O = log_openD [OF o]
  from bc.read_law [OF O(1) room_open [OF assms]] obtain b s' where 1: "bread ROOTDEV n s = Inr (b, s')" "bio_inv s'"
    "bio_abs s' = v_read n (bio_abs s)" "bio_frm s' = bio_frm s" "bio_holds s' b n"
    "\<forall>c m. bio_holds s c m \<longrightarrow> bio_holds s' c m" by blast
  note l = frm_log [OF 1(4)] and t = tx_cong [OF frm_log [OF 1(4)]]
  have a: "blocks s' = blocks s" "disk s' = disk s" "in_tx s' = in_tx s" "locked_blocks s' = insert n (locked_blocks s)"
    using vdisk_abs(1) [of s'] t by (auto simp: blocks_def in_tx_def locked_blocks_def 1(3) v_read_def)
  have "log_open k st s'"
    unfolding log_open_def a l using O(1-8) 1(2) t n by (simp add: 1(3) O(9) v_read_def)
  moreover have "in_op s' = in_op s" using l by (simp add: in_op_def)
  ultimately show ?thesis using 1 a log_frm_bio by blast
qed

lemma open_write:
  fixes s :: "'a logk_scheme"
  assumes o: "log_open k st s" and h: "bio_holds s b n" and op: "in_op s" and n: "n \<notin> log_area st k" and x: "length x = BSIZE"
    and c: "card (in_tx s) < k - 1"
  shows "\<exists>s'. log_write b (bio_put b x s) = Inr s' \<and> log_open k st s' \<and> blocks s' = (blocks s)(n := x) \<and>
    locked_blocks s' = locked_blocks s \<and> in_tx s' = insert n (in_tx s) \<and> in_op s' \<and> log_frm s' = log_frm s \<and>
    (\<forall>c m. bio_holds s c m \<longrightarrow> bio_holds s' c m)"
proof -
  note O = log_openD [OF o]
  let ?s1 = "bio_put b x s"
  from bc.put_law [OF O(1) h x] h have 1: "bio_inv ?s1" "bio_abs ?s1 = v_put n x (bio_abs s)"
    "bio_frm ?s1 = bio_frm s" "bio_holds ?s1 b n" "\<forall>c m. bio_holds s c m \<longrightarrow> bio_holds ?s1 c m" by auto
  note l1 = frm_log [OF 1(3)] and t1 = tx_cong [OF frm_log [OF 1(3)]]
  have k: "length (tx s) < LOGSIZE" "int (length (tx s)) < int k - 1" "Suc (length (tx s)) < k"
    using c O(10) layoutD(2) [OF O(6)] by auto
  have lk: "n \<in> locked_blocks s"
    using holdsD(5,7) [OF O(1) h] by (simp add: locked_blocks_def bio_abs_def)
  have e: "held ?s1 = []" "b_blockno (bufs ?s1 ! b) = n"
    using holdsD [OF 1(1,4)] by (simp_all add: calm_def)
  have W: "log_write b ?s1 = (if n \<in> set (tx ?s1) then Inr ?s1 else bindE (bpin b ?s1) (\<lambda>s'. Inr (upd_log (push_tx n) s')))"
    by (rule log_write_eq [of ?s1 b, unfolded e(2)]) (use t1 l1 O(2,4) e(1) k op in \<open>simp_all add: in_op_def\<close>)
  obtain s2 where 2: "log_write b ?s1 = Inr s2" "bio_inv s2" "\<forall>c m. bio_holds ?s1 c m \<longrightarrow> bio_holds s2 c m"
    "log s2 = (if n \<in> in_tx s then log s else push_tx n (log s))" "log_frm s2 = log_frm s"
    "bio_abs s2 = (if n \<in> in_tx s then v_put n x (bio_abs s) else v_pin n (v_put n x (bio_abs s)))"
  proof (cases "n \<in> in_tx s")
    case True
    then show ?thesis using W 1 l1 t1 that [of ?s1] log_frm_bio [OF 1(3)] by (simp add: in_tx_def)
  next
    case False
    from bc.pin_law [OF 1(1,4)] obtain s' where p: "bpin b ?s1 = Inr s'" "bio_inv s'" "bio_abs s' = v_pin n (bio_abs ?s1)"
      "bio_frm s' = bio_frm ?s1" "\<forall>c m. bio_holds ?s1 c m \<longrightarrow> bio_holds s' c m" by blast
    have "log_frm s' = log_frm s" "log s' = log s"
      using log_frm_bio [OF p(4)] log_frm_bio [OF 1(3)] frm_log [OF p(4)] l1 by simp_all
    then show ?thesis using W p 1(2) t1 False that [of "upd_log (push_tx n) s'"] by (simp add: in_tx_def upd_log_def)
  qed
  have t2: "tx_ok s2" "tx s2 = (if n \<in> in_tx s then tx s else tx s @ [n])"
    using tx_push [OF O(2) k(1) O(3)] 2(4) tx_cong [of s2 s] O(2) by (auto split: if_split_asm)
  have "vdisk (bio_abs s2) = disk s" unfolding 2(6) by (simp add: v_defs)
  then have d: "disk s2 = disk s" by simp
  then have a: "blocks s2 = (blocks s)(n := x)" "disk s2 = disk s" "in_tx s2 = insert n (in_tx s)"
    "locked_blocks s2 = locked_blocks s"
    using t2 by (auto simp: blocks_def in_tx_def locked_blocks_def 2(6) v_defs)
  have "layout st k (tx s2)" using O(6) t2 layout_snoc [OF O(6) k(3) n] by (auto simp: in_tx_def)
  then have "log_open k st s2"
    unfolding log_open_def a using O(1-8) 2(2,4) t2(1) lk by (auto simp: 2(6) O(9) v_defs push_tx_def)
  moreover have "in_op s2" using op 2(4) by (simp add: in_op_def push_tx_def)
  ultimately show ?thesis using 1(5) 2(1,3,5) a by blast
qed

lemma open_rel:
  fixes s :: "'a logk_scheme"
  assumes o: "log_open k st s" and h: "bio_holds s b n"
  shows "\<exists>s'. brelse b s = Inr s' \<and> log_open k st s' \<and> blocks s' = blocks s \<and>
    locked_blocks s' = locked_blocks s - {n} \<and> in_tx s' = in_tx s \<and> in_op s' = in_op s \<and> log_frm s' = log_frm s \<and>
    (\<forall>c m. m \<noteq> n \<longrightarrow> bio_holds s c m \<longrightarrow> bio_holds s' c m)"
proof -
  note O = log_openD [OF o]
  have lk: "n \<in> locked_blocks s"
    using holdsD(5,7) [OF O(1) h] by (simp add: locked_blocks_def bio_abs_def)
  from bc.rel_law [OF O(1) h] obtain s' where 1: "brelse b s = Inr s'" "bio_inv s'" "bio_abs s' = v_rel n (bio_abs s)"
    "bio_frm s' = bio_frm s" "\<forall>c m. m \<noteq> n \<longrightarrow> bio_holds s c m \<longrightarrow> bio_holds s' c m" by blast
  note l = frm_log [OF 1(4)] and t = tx_cong [OF frm_log [OF 1(4)]]
  have a: "blocks s' = blocks s" "disk s' = disk s" "in_tx s' = in_tx s" "locked_blocks s' = locked_blocks s - {n}"
    using vdisk_abs(1) [of s'] t by (auto simp: blocks_def in_tx_def locked_blocks_def 1(3) v_rel_def)
  have "log_open k st s'"
    unfolding log_open_def a l using O(1-8) 1(2) t lk by (simp add: 1(3) O(9) v_rel_def)
  moreover have "in_op s' = in_op s" using l by (simp add: in_op_def)
  ultimately show ?thesis using 1 a log_frm_bio by blast
qed

text \<open>The log and the buffer cache keep the contract.\<close>

interpretation tl: tx_store "log_open k st" blocks locked_blocks in_tx in_op "k - 1" "\<lambda>n. n \<notin> log_area st k" log_frm bio_holds
  "bread ROOTDEV" bio_get bio_put log_write brelse
proof (unfold_locales, goal_cases)
  case (1 s n)
  then show ?case by (rule open_read)
next
  case (2 s b n)
  then show ?case using bc.get_law [OF log_openD(1) [OF 2(1)] 2(2)] by (simp add: blocks_def)
next
  case (3 s b n x)
  then show ?case by (rule open_write)
next
  case (4 s b n)
  then show ?case by (rule open_rel)
next
  case (5 s n)
  then show ?case using bc.size_law [OF log_openD(1) [OF 5]] by (simp add: blocks_def)
qed

end
