(* ===== verification/Inode.thy ===== *)
theory Inode
  imports Fslog
begin

text \<open>
  Inodes and file contents, on top of the transaction contract: the on-disk
  inode round trip, and what \<open>readi\<close> returns.
\<close>

section \<open>What the layers below leave alone\<close>

lemma fs_frmD:
  fixes s t :: "'a fsk_scheme"
  assumes "log_frm t = log_frm s"
  shows "icache t = icache s" "sb t = sb s" "curproc t = curproc s" "conts t = conts s" "mem t = mem s"
    "slocks t (SlInode i) = slocks s (SlInode i)" "map (\<lambda>p. p\<lparr>p_state := UNUSED\<rparr>) (procs t) = map (\<lambda>p. p\<lparr>p_state := UNUSED\<rparr>) (procs s)"
proof -
  have c: "f (log_frm t) = f (log_frm s)" for f :: "'a fsk_scheme \<Rightarrow> 'x" using assms by simp
  show "icache t = icache s" "sb t = sb s" "curproc t = curproc s" "conts t = conts s" "mem t = mem s"
    "map (\<lambda>p. p\<lparr>p_state := UNUSED\<rparr>) (procs t) = map (\<lambda>p. p\<lparr>p_state := UNUSED\<rparr>) (procs s)"
    using c [of icache] c [of sb] c [of curproc] c [of conts] c [of mem] c [of procs] by (simp_all add: log_frm_def bio_frm_def)
  show "slocks t (SlInode i) = slocks s (SlInode i)"
    using c [of "\<lambda>s. slocks s (SlInode i)"] by (simp add: log_frm_def bio_frm_def)
qed

lemma open_cong:
  fixes s t :: "'a logk_scheme"
  assumes "bufs t = bufs s" "bnext t = bnext s" "bprev t = bprev s" "\<And>i. slocks t (SlBuf i) = slocks s (SlBuf i)" "disk t = disk s"
    "writes t = writes s" "held t = held s" "curproc t = curproc s" "procs t = procs s" "log t = log s"
  shows "log_open k st t = log_open k st s" "blocks t = blocks s" "locked_blocks t = locked_blocks s" "in_tx t = in_tx s"
    "bio_holds t = bio_holds s" "in_op t = in_op s"
proof -
  have c: "calm t = calm s" "the_pid t = the_pid s" "tx t = tx s" "tx_ok t = tx_ok s" "idx t = idx s"
    using assms by (simp_all add: calm_def the_pid_def tx_def tx_ok_def idx_def fun_eq_iff)
  have d: "dll t = dll s" by (rule ext) (simp add: dll_def assms)
  have b: "bio_inv t = bio_inv s" "bio_abs t = bio_abs s" unfolding bio_inv_def bio_abs_def c d assms by (rule refl)+
  show "blocks t = blocks s" "locked_blocks t = locked_blocks s" "in_tx t = in_tx s"
    by (simp_all add: blocks_def locked_blocks_def in_tx_def b c)
  then show "log_open k st t = log_open k st s" using assms by (simp add: log_open_def b c)
  show "bio_holds t = bio_holds s" "in_op t = in_op s" by (simp_all add: bio_holds_def in_op_def c assms fun_eq_iff)
qed

lemma open_icache [simp]:
  fixes s :: "'a fsk_scheme"
  shows "log_open k st (s\<lparr>icache := x\<rparr>) = log_open k st s" "blocks (s\<lparr>icache := x\<rparr>) = blocks s"
    "locked_blocks (s\<lparr>icache := x\<rparr>) = locked_blocks s" "in_tx (s\<lparr>icache := x\<rparr>) = in_tx s"
    "bio_holds (s\<lparr>icache := x\<rparr>) = bio_holds s" "in_op (s\<lparr>icache := x\<rparr>) = in_op s" "log_frm (s\<lparr>icache := x\<rparr>) = (log_frm s)\<lparr>icache := x\<rparr>"
  by (rule open_cong; simp)+ (simp add: log_frm_def bio_frm_def cong: sleepid.case_cong)

lemma open_conts [simp]:
  fixes s :: "'a fsk_scheme"
  shows "log_open k st (s\<lparr>conts := x\<rparr>) = log_open k st s" "blocks (s\<lparr>conts := x\<rparr>) = blocks s"
    "locked_blocks (s\<lparr>conts := x\<rparr>) = locked_blocks s" "in_tx (s\<lparr>conts := x\<rparr>) = in_tx s"
    "bio_holds (s\<lparr>conts := x\<rparr>) = bio_holds s" "in_op (s\<lparr>conts := x\<rparr>) = in_op s" "log_frm (s\<lparr>conts := x\<rparr>) = (log_frm s)\<lparr>conts := x\<rparr>"
  by (rule open_cong; simp)+ (simp add: log_frm_def bio_frm_def cong: sleepid.case_cong)

section \<open>Inodes on disk\<close>

definition short_int :: "int \<Rightarrow> bool" where
  "short_int v \<longleftrightarrow> - 32768 \<le> v \<and> v < 32768"

text \<open>The values an inode in the cache can have: \<open>short\<close>s, and an address array of the right length.\<close>

definition inode_ok :: "inode \<Rightarrow> bool" where
  "inode_ok x \<longleftrightarrow> short_int (i_type x) \<and> short_int (i_major x) \<and> short_int (i_minor x) \<and> short_int (i_nlink x) \<and>
     length (i_addrs x) = NDIRECT + 1"

text \<open>\<open>y\<close> with the fields that are kept on disk taken from \<open>x\<close>.\<close>

definition with_disk :: "inode \<Rightarrow> inode \<Rightarrow> inode" where
  "with_disk x y = y\<lparr>i_type := i_type x, i_major := i_major x, i_minor := i_minor x, i_nlink := i_nlink x,
     i_size := i_size x, i_addrs := i_addrs x\<rparr>"

lemma sint_short: "short_int v \<Longrightarrow> sint (word_of_int v :: u16) = v"
  by (simp add: short_int_def sint_sbintrunc' signed_take_bit_int_eq_self)

lemma get16_fold_put32_before:
  "j + 2 \<le> k \<Longrightarrow> get16 (fold (\<lambda>i d. put32 d (k + 4 * i) (v i)) [0..<n] d) j = get16 d j"
  by (induction n) (simp_all add: get16_put32_other)

lemma get_fold_put32_after:
  assumes "k + 4 * n \<le> j"
  shows "get16 (fold (\<lambda>i d. put32 d (k + 4 * i) (v i)) [0..<n] d) j = get16 d j"
    and "get32 (fold (\<lambda>i d. put32 d (k + 4 * i) (v i)) [0..<n] d) j = get32 d j"
  using assms by (induction n) (simp_all add: get16_put32_other get32_put32_other)

lemmas field_other = get16_put16_other get32_put32_other get16_put32_other get32_put16_other

lemma length_put_dinode [simp]: "length (put_dinode x k d) = length d"
  by (simp add: put_dinode_def Let_def)

lemma get_fields:
  assumes "k + 12 \<le> length d"
  shows "get16 (put32 (put16 (put16 (put16 (put16 d k a) (k + 2) b) (k + 4) c) (k + 6) e) (k + 8) v) k = a"
    and "get16 (put32 (put16 (put16 (put16 (put16 d k a) (k + 2) b) (k + 4) c) (k + 6) e) (k + 8) v) (k + 2) = b"
    and "get16 (put32 (put16 (put16 (put16 (put16 d k a) (k + 2) b) (k + 4) c) (k + 6) e) (k + 8) v) (k + 4) = c"
    and "get16 (put32 (put16 (put16 (put16 (put16 d k a) (k + 2) b) (k + 4) c) (k + 6) e) (k + 8) v) (k + 6) = e"
    and "get32 (put32 (put16 (put16 (put16 (put16 d k a) (k + 2) b) (k + 4) c) (k + 6) e) (k + 8) v) (k + 8) = v"
  using assms by (simp_all add: field_other)

lemma get_put_dinode:
  assumes "inode_ok x" and "k + DINODE \<le> length d"
  shows "get_dinode (put_dinode x k d) k y = with_disk x y"
proof -
  let ?d = "put32 (put16 (put16 (put16 (put16 d k (word_of_int (i_type x))) (k + 2) (word_of_int (i_major x)))
     (k + 4) (word_of_int (i_minor x))) (k + 6) (word_of_int (i_nlink x))) (k + 8) (i_size x)"
  have len: "k + 64 \<le> length d" using assms(2) by (simp add: DINODE_def NDIRECT_def)
  have A: "map (\<lambda>j. get32 (put_dinode x k d) (k + 12 + 4 * j)) [0..<NDIRECT + 1] = i_addrs x"
  proof (rule nth_equalityI)
    fix j assume "j < length (map (\<lambda>j. get32 (put_dinode x k d) (k + 12 + 4 * j)) [0..<NDIRECT + 1])"
    then have j: "j < NDIRECT + 1" by simp
    have "k + 12 + 4 * (NDIRECT + 1) \<le> length ?d" using len by (simp add: NDIRECT_def)
    from get32_fold_put32 [OF this j, of "\<lambda>j. i_addrs x ! j"] j
    show "map (\<lambda>j. get32 (put_dinode x k d) (k + 12 + 4 * j)) [0..<NDIRECT + 1] ! j = i_addrs x ! j"
      by (simp add: put_dinode_def Let_def del: upt_Suc)
  qed (use assms(1) in \<open>simp add: inode_ok_def\<close>)
  have g: "get16 (put_dinode x k d) i = get16 ?d i" if "i \<le> k + 10" for i
    using that unfolding put_dinode_def Let_def by (simp add: get16_fold_put32_before del: upt_Suc)
  have v: "get16 ?d k = word_of_int (i_type x)" "get16 ?d (k + 2) = word_of_int (i_major x)"
    "get16 ?d (k + 4) = word_of_int (i_minor x)" "get16 ?d (k + 6) = word_of_int (i_nlink x)" "get32 ?d (k + 8) = i_size x"
    by (rule get_fields; use len in linarith)+
  have "get32 (put_dinode x k d) (k + 8) = i_size x"
    unfolding put_dinode_def Let_def using v(5) by (simp add: get32_fold_put32_before del: upt_Suc)
  moreover have "get16 (put_dinode x k d) k = word_of_int (i_type x)" "get16 (put_dinode x k d) (k + 2) = word_of_int (i_major x)"
    "get16 (put_dinode x k d) (k + 4) = word_of_int (i_minor x)" "get16 (put_dinode x k d) (k + 6) = word_of_int (i_nlink x)"
    using v(1-4) g by simp_all
  ultimately show ?thesis
    using assms(1) A unfolding get_dinode_def with_disk_def inode_ok_def by (simp only: sint_short)
qed

lemma get_put_dinode_other:
  assumes "k + DINODE \<le> j \<or> j + DINODE \<le> k"
  shows "get_dinode (put_dinode x k d) j = get_dinode d j"
proof -
  have a: "k + 64 \<le> j \<or> j + 64 \<le> k" using assms by (simp add: DINODE_def NDIRECT_def)
  have 16: "get16 (put_dinode x k d) (j + i) = get16 d (j + i)" if "i \<le> 62" for i
    using a that unfolding put_dinode_def Let_def
    by (auto simp: get16_fold_put32_before get_fold_put32_after field_other NDIRECT_def simp del: upt_Suc)
  have 32: "get32 (put_dinode x k d) (j + i) = get32 d (j + i)" if "i \<le> 60" for i
    using a that unfolding put_dinode_def Let_def
    by (auto simp: get32_fold_put32_before get_fold_put32_after field_other NDIRECT_def simp del: upt_Suc)
  have "map (\<lambda>i. get32 (put_dinode x k d) (j + 12 + 4 * i)) [0..<NDIRECT + 1] = map (\<lambda>i. get32 d (j + 12 + 4 * i)) [0..<NDIRECT + 1]"
    using 32 by (intro map_cong) (auto simp: NDIRECT_def add.assoc simp del: upt_Suc)
  then show ?thesis using 16 [of 0] 16 [of 2] 16 [of 4] 16 [of 6] 32 [of 8] by (simp add: get_dinode_def fun_eq_iff del: upt_Suc)
qed

section \<open>Writing and loading inodes\<close>

lemma open_islock [simp]:
  fixes s :: "'a fsk_scheme"
  shows "log_open k st (s\<lparr>slocks := (slocks s)(SlInode i := v)\<rparr>) = log_open k st s"
    "blocks (s\<lparr>slocks := (slocks s)(SlInode i := v)\<rparr>) = blocks s"
    "locked_blocks (s\<lparr>slocks := (slocks s)(SlInode i := v)\<rparr>) = locked_blocks s"
    "in_tx (s\<lparr>slocks := (slocks s)(SlInode i := v)\<rparr>) = in_tx s"
    "in_op (s\<lparr>slocks := (slocks s)(SlInode i := v)\<rparr>) = in_op s"
  by (rule open_cong; simp)+

lemma dinode_fits: "dinode_off inum + DINODE \<le> BSIZE"
proof -
  have "unat (inum mod IPB) < 16"
    by (simp add: unat_mod IPB_def DINODE_def NDIRECT_def BSIZE_def)
  then show ?thesis by (simp add: dinode_off_def DINODE_def NDIRECT_def BSIZE_def)
qed

text \<open>Room for \<open>c\<close> more blocks, in an open transaction if there are any, with no block locked.\<close>

definition tx_room :: "nat \<Rightarrow> nat \<Rightarrow> 'a logk_scheme \<Rightarrow> bool" where
  "tx_room k c s \<longleftrightarrow> locked_blocks s = {} \<and> (0 < c \<longrightarrow> in_op s) \<and> card (in_tx s) + c \<le> k - 1"

lemma iupdate_ok:
  fixes s :: "'a fsk_scheme"
  assumes "log_open k st s" and "tx_room k 1 s" and "i_dev (icache s ! ip) = ROOTDEV"
    and n: "n = IBLOCK (i_inum (icache s ! ip)) (sb s)" "n \<notin> log_area st k"
  shows "\<exists>s'. iupdate ip s = Inr s' \<and> log_open k st s' \<and> locked_blocks s' = {} \<and> in_tx s' = insert n (in_tx s) \<and> in_op s' \<and> log_frm s' = log_frm s \<and>
    blocks s' = (blocks s)(n := put_dinode (icache s ! ip) (dinode_off (i_inum (icache s ! ip))) (blocks s n))"
proof -
  let ?x = "put_dinode (icache s ! ip) (dinode_off (i_inum (icache s ! ip))) (blocks s n)"
  have "n \<notin> locked_blocks s" "card (in_tx s) + card (locked_blocks s) < k - 1" "in_op s" "length ?x = BSIZE"
    using assms(2) tl.size_law [OF assms(1)] by (simp_all add: tx_room_def)
  from tl.update [OF assms(1) this(1-3) n(2) this(4)] obtain b s1 s2 s3 where
    1: "bread ROOTDEV n s = Inr (b, s1)" "log_frm s1 = log_frm s" "bio_get b s1 = blocks s n"
      "log_write b (bio_put b ?x s1) = Inr s2" "brelse b s2 = Inr s3"
      "log_open k st s3" "blocks s3 = (blocks s)(n := ?x)" "locked_blocks s3 = locked_blocks s"
      "in_tx s3 = insert n (in_tx s)" "in_op s3" "log_frm s3 = log_frm s" by blast
  have "iupdate ip s = Inr s3"
    using 1(1,3-5) n(1) assms(3) fs_frmD(1,2) [OF 1(2)] by (simp add: iupdate_def Let_def)
  then show ?thesis using 1(6-11) assms(2) by (auto simp: tx_room_def)
qed

text \<open>\<open>ilock\<close> of an inode that is not in memory.\<close>

lemma ilock_load:
  fixes s :: "'a fsk_scheme"
  assumes o: "log_open k st s" and r: "tx_room k 0 s" and j: "j < length (icache s)" "icache s ! j = y" "\<not> i_valid y" "1 \<le> i_ref y"
    and "i_dev y = ROOTDEV" and l: "\<not> sl_locked (slocks s (SlInode j))"
    and z: "z = get_dinode (blocks s (IBLOCK (i_inum y) (sb s))) (dinode_off (i_inum y)) y" "i_type z \<noteq> 0"
  shows "\<exists>s'. ilock (Some j) s = Inr s' \<and> log_open k st s' \<and> locked_blocks s' = {} \<and> blocks s' = blocks s \<and>
    icache s' = (icache s)[j := z\<lparr>i_valid := True\<rparr>] \<and> sl_locked (slocks s' (SlInode j))"
proof -
  have c: "calm s" by (rule bio_invD(1) [OF log_openD(1) [OF o]])
  let ?n = "IBLOCK (i_inum y) (sb s)"
  let ?s1 = "s\<lparr>slocks := (slocks s)(SlInode j := \<lparr>sl_locked = True, sl_pid = the_pid s\<rparr>)\<rparr>"
  have o1: "log_open k st ?s1" using o by simp
  have "?n \<notin> locked_blocks ?s1" "card (in_tx ?s1) + card (locked_blocks ?s1) \<le> k - 1"
    using r by (simp_all add: tx_room_def)
  from tl.read_law [OF o1 this] obtain b s2 where 2: "bread ROOTDEV ?n ?s1 = Inr (b, s2)"
    "log_open k st s2" "blocks s2 = blocks s" "locked_blocks s2 = {?n}" "log_frm s2 = log_frm ?s1" "bio_holds s2 b ?n"
    using r by (auto simp: tx_room_def)
  note f2 = fs_frmD [OF 2(5), simplified]
  let ?s3 = "s2\<lparr>icache := (icache s)[j := z]\<rparr>"
  have "bio_holds ?s3 b ?n" "log_open k st ?s3" using 2(2,6) by simp_all
  from tl.rel_law [OF this(2,1)] 2(4) obtain s4 where 4: "brelse b ?s3 = Inr s4" "log_open k st s4" "blocks s4 = blocks s"
    "locked_blocks s4 = {}" "log_frm s4 = log_frm ?s3" using 2(3) by auto
  note f4 = fs_frmD [OF 4(5), simplified]
  let ?s5 = "s4\<lparr>icache := (icache s)[j := z\<lparr>i_valid := True\<rparr>]\<rparr>"
  have "bio_get b s2 = blocks s ?n" using tl.get_law [OF 2(2,6)] 2(3) by simp
  moreover have "i_dev y = ROOTDEV" "i_inum (icache s ! j) = i_inum y" using assms(7) j(2) by simp_all
  ultimately have "ilock (Some j) s = Inr ?s5"
    using acquiresleep_eq [OF c l] 2(1) 4(1) j l z f2(1) f4(1)
    by (simp add: ilock_def Let_def upd_inode_def)
  moreover have "sl_locked (slocks ?s5 (SlInode j))" using f4(6) [of j] f2(6) [of j] by simp
  ultimately show ?thesis using 4(2-4) by (intro exI [of _ ?s5]) simp
qed

text \<open>
  C15: an inode survives a trip to disk.  Inside a transaction \<open>iupdate\<close>
  succeeds and writes the inode's fields into the inode's slot of its block
  and nothing else, so that locking a fresh, not yet loaded cache entry for the same
  inode number reads back exactly the type, device numbers, link count, size
  and block addresses, and every other inode of the block reads as before.
\<close>

theorem inode_update_reload:
  fixes s :: "'a fsk_scheme"
  assumes "log_open k st s" and "tx_room k 1 s"
    and "icache s ! ip = x" "inode_ok x" "i_type x \<noteq> 0" "i_dev x = ROOTDEV" "IBLOCK (i_inum x) (sb s) \<notin> log_area st k"
    and "j < length (icache s)" "icache s ! j = y" "\<not> i_valid y" "1 \<le> i_ref y" "i_dev y = i_dev x" "i_inum y = i_inum x"
    and "\<not> sl_locked (slocks s (SlInode j))"
  shows "\<exists>s1 s2. iupdate ip s = Inr s1 \<and> ilock (Some j) s1 = Inr s2 \<and> icache s2 ! j = (with_disk x y)\<lparr>i_valid := True\<rparr> \<and>
    (\<forall>m. m \<noteq> IBLOCK (i_inum x) (sb s) \<longrightarrow> blocks s1 m = blocks s m) \<and>
    (\<forall>i z. i mod IPB \<noteq> i_inum x mod IPB \<longrightarrow> get_dinode (blocks s1 (IBLOCK (i_inum x) (sb s))) (dinode_off i) z =
       get_dinode (blocks s (IBLOCK (i_inum x) (sb s))) (dinode_off i) z)"
proof -
  let ?n = "IBLOCK (i_inum x) (sb s)" and ?k = "dinode_off (i_inum x)"
  from iupdate_ok [OF assms(1,2), of ip ?n] assms(3,6,7) obtain s1 where 1: "iupdate ip s = Inr s1" "log_open k st s1"
    "locked_blocks s1 = {}" "in_tx s1 = insert ?n (in_tx s)" "log_frm s1 = log_frm s"
    "blocks s1 = (blocks s)(?n := put_dinode x ?k (blocks s ?n))" by auto
  note f = fs_frmD [OF 1(5)]
  have len: "?k + DINODE \<le> length (blocks s ?n)" using tl.size_law [OF assms(1)] dinode_fits by simp
  have tr: "tx_room k 0 s1" using assms(2) 1(3,4) by (simp add: tx_room_def card_insert_if)
  have w: "with_disk x y = get_dinode (blocks s1 (IBLOCK (i_inum y) (sb s1))) (dinode_off (i_inum y)) y"
    using get_put_dinode [OF assms(4) len, of y] 1(6) f(2) assms(13) by simp
  have "\<exists>s2. ilock (Some j) s1 = Inr s2 \<and> log_open k st s2 \<and> locked_blocks s2 = {} \<and> blocks s2 = blocks s1 \<and>
    icache s2 = (icache s1)[j := (with_disk x y)\<lparr>i_valid := True\<rparr>] \<and> sl_locked (slocks s2 (SlInode j))"
    by (rule ilock_load [OF 1(2) tr _ _ assms(10,11) _ _ w]) (use assms f in \<open>simp_all add: with_disk_def\<close>)
  then obtain s2 where 2: "ilock (Some j) s1 = Inr s2" "icache s2 = (icache s)[j := (with_disk x y)\<lparr>i_valid := True\<rparr>]"
    using f(1) by auto
  have "dinode_off i + DINODE \<le> ?k \<or> ?k + DINODE \<le> dinode_off i" if "i mod IPB \<noteq> i_inum x mod IPB" for i
    using that by (simp add: dinode_off_def DINODE_def NDIRECT_def word_unat_eq_iff) linarith
  then have "get_dinode (put_dinode x ?k d) (dinode_off i) = get_dinode d (dinode_off i)" if "i mod IPB \<noteq> i_inum x mod IPB" for i d
    using that by (intro get_put_dinode_other) blast
  then show ?thesis using 1(1,6) 2 assms(8) by auto
qed

section \<open>A concrete file system\<close>

text \<open>A cache and a log as they are after boot, inside the first transaction.\<close>

lemma fresh_open:
  fixes s :: "'a logk_scheme"
  assumes "calm s" "bufs s = replicate NBUF buf0" "\<exists>ord. dll s ord" "\<And>l. \<not> sl_locked (slocks s l)" "\<And>n. length (disk s n) = BSIZE"
    and "log s = \<lparr>log_start = st, log_size = int k, log_outstanding = 1, log_committing = False, log_dev = ROOTDEV,
      log_lh = \<lparr>lh_n = 0, lh_block = replicate LOGSIZE 0\<rparr>\<rparr>" "0 < k" "k \<le> LOGSIZE" "get32 (disk s st) 0 = 0"
  shows "log_open k st s" "locked_blocks s = {}" "in_tx s = {}" "blocks s = disk s" "in_op s"
proof -
  have i: "idx s n = None" for n using assms(2) by (simp add: idx_None buf0_def ROOTDEV_def)
  have "bio_inv s" using assms by (simp add: bio_inv_def buf0_def ROOTDEV_def)
  moreover have "bio_abs s = \<lparr>vdata = disk s, vrefs = (\<lambda>_. 0), vlkd = (\<lambda>_. False), vdisk = disk s, vtrace = writes s\<rparr>"
    by (simp add: bio_abs_def i)
  moreover have t: "tx s = []" "tx_ok s" using assms(6) by (simp_all add: tx_def tx_ok_def)
  ultimately show "log_open k st s" "locked_blocks s = {}" "in_tx s = {}" "blocks s = disk s" "in_op s"
    using assms(6-9) by (auto simp: in_op_def log_open_def locked_blocks_def in_tx_def blocks_def layout_def describes_def)
qed

definition ex_fs :: "(u32 \<Rightarrow> block) \<Rightarrow> inode list \<Rightarrow> fsk" where
  "ex_fs d inodes = binit \<lparr>held = [], procs = (replicate NPROC proc0)[0 := proc0\<lparr>p_cont := Some 0\<rparr>], conts = replicate NCONT cont0, nextpid = 1,
     curproc = Some 0, initproc = None, ticks = 0, mem = (\<lambda>_. 0), freelist = 0, kend = KERNBASE,
     bufs = replicate NBUF buf0, bnext = id, bprev = id, slocks = (\<lambda>_. \<lparr>sl_locked = False, sl_pid = 0\<rparr>),
     disk = d, writes = [], log = \<lparr>log_start = 2, log_size = 30, log_outstanding = 1, log_committing = False,
       log_dev = ROOTDEV, log_lh = \<lparr>lh_n = 0, lh_block = replicate LOGSIZE 0\<rparr>\<rparr>,
     icache = inodes, sb = \<lparr>sb_magic = FSMAGIC, sb_size = 1000, sb_nblocks = 954, sb_ninodes = 200, sb_nlog = 30, sb_logstart = 2,
       sb_inodestart = 32, sb_bmapstart = 45\<rparr>\<rparr>"

lemma binit_fs [simp]:
  fixes s :: "'a fsk_scheme"
  shows "icache (binit s) = icache s" "sb (binit s) = sb s" "mem (binit s) = mem s" "conts (binit s) = conts s"
proof -
  have f: "P (fold (\<lambda>b s. initsleeplock (SlBuf b) (link_front b s)) xs t) = P t"
    if "\<And>b s. P (initsleeplock (SlBuf b) (link_front b s)) = P s" for P :: "'a fsk_scheme \<Rightarrow> 'x" and xs t
    using that by (induction xs arbitrary: t) auto
  show "icache (binit s) = icache s" "sb (binit s) = sb s" "mem (binit s) = mem s" "conts (binit s) = conts s"
    unfolding binit_def Let_def by (subst f; simp add: initsleeplock_def link_front_def Let_def)+
qed

lemma ex_fs_simps [simp]:
  "icache (ex_fs d xs) = xs" "disk (ex_fs d xs) = d" "mem (ex_fs d xs) = (\<lambda>_. 0)" "curproc (ex_fs d xs) = Some 0"
  "sb_size (sb (ex_fs d xs)) = 1000" "sb_inodestart (sb (ex_fs d xs)) = 32" "sb_bmapstart (sb (ex_fs d xs)) = 45"
  "conts (ex_fs d xs) = replicate NCONT cont0" "procs (ex_fs d xs) = (replicate NPROC proc0)[0 := proc0\<lparr>p_cont := Some 0\<rparr>]"
  by (simp_all add: ex_fs_def)

lemma ex_fs_open:
  assumes "\<And>n. length (d n) = BSIZE" and "get32 (d 2) 0 = 0"
  shows "log_open 30 2 (ex_fs d xs)" "locked_blocks (ex_fs d xs) = {}" "in_tx (ex_fs d xs) = {}" "blocks (ex_fs d xs) = d" "in_op (ex_fs d xs)"
    "\<not> sl_locked (slocks (ex_fs d xs) l)"
proof -
  have u: "\<not> sl_locked (slocks (ex_fs d xs) l)" for l unfolding ex_fs_def by (rule binit_unlocked) simp
  have c: "calm (ex_fs d xs)" by (simp add: calm_def ex_fs_def NPROC_def)
  have o: "\<exists>ord. dll (ex_fs d xs) ord" unfolding ex_fs_def using binit_dll by blast
  note F = fresh_open [OF c _ o u, of 2 30]
  show "log_open 30 2 (ex_fs d xs)" "locked_blocks (ex_fs d xs) = {}" "in_tx (ex_fs d xs) = {}" "blocks (ex_fs d xs) = d" "in_op (ex_fs d xs)"
    by (rule F [simplified ex_fs_simps]; use assms in \<open>simp add: ex_fs_def LOGSIZE_def MAXOPBLOCKS_def\<close>)+
  show "\<not> sl_locked (slocks (ex_fs d xs) l)" by (rule u)
qed

definition ex_inode :: inode where
  "ex_inode = inode0\<lparr>i_dev := ROOTDEV, i_inum := 5, i_ref := 1, i_valid := True, i_type := T_FILE, i_nlink := 1, i_size := 100\<rparr>"

theorem inode_update_reload_witness:
  "\<exists>s1 s2. iupdate 0 (ex_fs zero_disk [ex_inode, ex_inode\<lparr>i_valid := False, i_size := 0\<rparr>]) = Inr s1 \<and>
     ilock (Some 1) s1 = Inr s2 \<and> i_size (icache s2 ! 1) = 100"
proof -
  let ?s = "ex_fs zero_disk [ex_inode, ex_inode\<lparr>i_valid := False, i_size := 0\<rparr>]"
  have z: "\<And>n. length (zero_disk n) = BSIZE" "get32 (zero_disk 2) 0 = 0" by (simp_all add: zero_disk_def get32_def BSIZE_def)
  note o = ex_fs_open [of zero_disk, OF z]
  let ?y = "ex_inode\<lparr>i_valid := False, i_size := 0\<rparr>"
  have r: "tx_room 30 1 ?s" using o by (simp add: tx_room_def)
  have x: "inode_ok ex_inode" "i_type ex_inode \<noteq> 0" "i_dev ex_inode = ROOTDEV" "1 \<le> i_ref ?y" "\<not> i_valid ?y"
    by (simp_all add: inode_ok_def short_int_def ex_inode_def inode0_def T_FILE_def)
  have n: "IBLOCK (i_inum ex_inode) (sb ?s) \<notin> log_area 2 30"
    by (simp add: ex_inode_def IBLOCK_def IPB_def DINODE_def NDIRECT_def BSIZE_def log_area_iff LOGSIZE_def MAXOPBLOCKS_def)
  from inode_update_reload [OF o(1) r _ x(1-3) n _ _ x(5,4), of 0 1] o(6) obtain s1 s2 where "iupdate 0 ?s = Inr s1"
    "ilock (Some 1) s1 = Inr s2" "icache s2 ! 1 = (with_disk ex_inode ?y)\<lparr>i_valid := True\<rparr>" by auto
  then show ?thesis by (auto simp: with_disk_def ex_inode_def)
qed

end
