(* ===== verification/Balloc.thy ===== *)
theory Balloc
  imports Inode
begin

text \<open>
  Block allocation: the bitmap, and what \<open>balloc\<close> does to the store of blocks.
\<close>

section \<open>Loops that find something\<close>

lemma foreach_prefix:
  assumes "I s" and "\<And>j t. j < i \<Longrightarrow> I t \<Longrightarrow> \<exists>t'. body j t = Inr (None, t') \<and> I t'"
  shows "\<exists>t. foreach [0..<i] body s = Inr (None, t) \<and> I t"
  using assms
proof (induction i)
  case (Suc i)
  then obtain t where "foreach [0..<i] body s = Inr (None, t)" "I t" by auto
  moreover from this Suc.prems(2) [of i t] obtain t' where "body i t = Inr (None, t')" "I t'" by auto
  ultimately show ?case by (simp add: foreach_append)
qed simp

lemma foreach_until:
  assumes "i < n" and "I s" and "\<And>j t. j < i \<Longrightarrow> I t \<Longrightarrow> \<exists>t'. body j t = Inr (None, t') \<and> I t'"
    and "\<And>t. I t \<Longrightarrow> \<exists>r t'. body i t = Inr (Some r, t') \<and> Q r t'"
  shows "\<exists>r t'. foreach [0..<n] body s = Inr (Some r, t') \<and> Q r t'"
proof -
  from foreach_prefix [where I = I and body = body and i = i, OF assms(2,3)] obtain t where "foreach [0..<i] body s = Inr (None, t)" "I t" by blast
  moreover from assms(4) [OF this(2)] obtain r t' where "body i t = Inr (Some r, t')" "Q r t'" by blast
  moreover have "[0..<n] = [0..<i] @ i # [Suc i..<n]"
    using assms(1) by (metis upt_add_eq_append upt_conv_Cons le_add1 less_imp_add_positive less_imp_le_nat zero_le)
  ultimately show ?thesis by (auto simp: foreach_append)
qed

section \<open>The bitmap\<close>

definition used :: "(u32 \<Rightarrow> block) \<Rightarrow> superblock \<Rightarrow> u32 \<Rightarrow> bool" where
  "used d b n \<longleftrightarrow> get_bit (d (BBLOCK n b)) (unat (n mod BPB))"

text \<open>The store after \<open>n\<close> has been marked in use and zeroed.\<close>

definition alloc_blk :: "superblock \<Rightarrow> u32 \<Rightarrow> (u32 \<Rightarrow> block) \<Rightarrow> u32 \<Rightarrow> block" where
  "alloc_blk b n d = d(BBLOCK n b := put_bit (d (BBLOCK n b)) (unat (n mod BPB)) True, n := replicate BSIZE 0)"

lemma length_put_bit [simp]: "length (put_bit d i v) = length d"
  by (simp add: put_bit_def)

lemma get_put_bit:
  assumes "i < 8 * length d"
  shows "get_bit (put_bit d i v) j = (if j = i then v else get_bit d j)"
proof -
  have l: "i div 8 < length d" using assms by auto
  have "j mod 8 \<noteq> i mod 8" if "j div 8 = i div 8" "j \<noteq> i" using that by (metis div_mult_mod_eq)
  moreover have "bit (push_bit m (1 :: u8)) n \<longleftrightarrow> n = m" if "m < 8" "n < 8" for m n
    using that by (auto simp: bit_simps)
  ultimately show ?thesis
    using l by (cases "j div 8 = i div 8") (auto simp: get_bit_def put_bit_def bit_simps nth_list_update)
qed

lemma BPB_nat: "unat BPB = 8192" "unat (n mod BPB) = unat n mod 8192" "unat (n mod BPB) < 8192"
  by (simp_all add: BPB_def BSIZE_def unat_mod)

lemma BBLOCK_eq:
  assumes "i < 2 ^ 32"
  shows "BBLOCK (of_nat i) b = of_nat (i div 8192) + sb_bmapstart b" "unat (of_nat i mod BPB) = i mod 8192"
proof -
  have "unat (of_nat i div BPB) = unat (of_nat (i div 8192) :: u32)"
    using assms less_trans [OF _ assms, of "i div 8192"] div_le_dividend [of i 8192]
    by (simp add: unat_div BPB_nat unat_of_nat_u32 le_less_trans)
  then show "BBLOCK (of_nat i) b = of_nat (i div 8192) + sb_bmapstart b"
    unfolding BBLOCK_def by (simp add: word_unat_eq_iff [symmetric])
  show "unat (of_nat i mod BPB) = i mod 8192" using assms by (simp add: BPB_nat unat_of_nat_u32)
qed

lemma used_alloc:
  assumes "length (d (BBLOCK n b)) = BSIZE" and "n \<noteq> BBLOCK m b" "n \<noteq> BBLOCK n b"
  shows "used (alloc_blk b n d) b m \<longleftrightarrow> m = n \<or> used d b m"
proof -
  have "m = n" if "BBLOCK m b = BBLOCK n b" "unat (m mod BPB) = unat (n mod BPB)"
    using that by (auto simp: BBLOCK_def word_unat_eq_iff [symmetric]) (metis word_mod_div_equality)
  then show ?thesis
    using assms BPB_nat(3) [of n]
    by (auto simp: used_def alloc_blk_def get_put_bit BSIZE_def)
qed

section \<open>Charging the container\<close>

text \<open>The container that is charged may take \<open>c\<close> more blocks.\<close>

definition quota :: "nat \<Rightarrow> 'a ktab_scheme \<Rightarrow> bool" where
  "quota c s \<longleftrightarrow> (case disk_account s of None \<Rightarrow> True | Some i \<Rightarrow>
     c_state (conts s ! i) = CUNUSED \<or> c_isroot (conts s ! i) \<noteq> 0 \<or>
     unat (c_used_dsk (conts s ! i)) + c * BSIZE \<le> unat (c_max_dsk (conts s ! i)))"

lemma account_frm:
  fixes s t :: "'a fsk_scheme"
  assumes "log_frm t = log_frm s" and "calm s"
  shows "disk_account t = disk_account s" "quota c t = quota c s"
proof -
  note f = fs_frmD [OF assms(1)]
  obtain p where p: "curproc s = Some p" "p < length (procs s)" using assms(2) by (auto simp: calm_def)
  have l: "length (procs t) = length (procs s)" using arg_cong [where f = length, OF f(7)] by simp
  have "map (\<lambda>p. p\<lparr>p_state := UNUSED\<rparr>) (procs t) ! p = map (\<lambda>p. p\<lparr>p_state := UNUSED\<rparr>) (procs s) ! p" by (simp only: f(7))
  then have "(procs t ! p)\<lparr>p_state := UNUSED\<rparr> = (procs s ! p)\<lparr>p_state := UNUSED\<rparr>" using p(2) l by simp
  from arg_cong [where f = p_cont, OF this] show "disk_account t = disk_account s" by (simp add: disk_account_def f(3) p(1))
  then show "quota c t = quota c s" unfolding quota_def f(4) by (simp only:)
qed

lemma account_conts [simp]: "disk_account (s\<lparr>conts := x\<rparr>) = disk_account s" if "curproc s \<noteq> None"
  using that by (auto simp: disk_account_def)

lemma charge_block:
  assumes "quota (Suc c) s" and "curproc s \<noteq> None"
  shows "\<exists>r cs. updatecontdsk (of_nat BSIZE) (disk_account s) s = (r, s\<lparr>conts := cs\<rparr>) \<and> 0 \<le> r \<and> quota c (s\<lparr>conts := cs\<rparr>)"
proof (cases "disk_account s")
  case None
  then show ?thesis using assms(2)
    by (intro exI [of _ 0] exI [of _ "conts s"]) (simp add: updatecontdsk_def quota_def)
next
  case (Some i)
  let ?x = "conts s ! i"
  show ?thesis
  proof (cases "c_state ?x = CUNUSED")
    case True
    then show ?thesis using assms Some
      by (intro exI [of _ 0] exI [of _ "conts s"]) (simp add: updatecontdsk_def quota_def)
  next
    case False
    have u: "unat (c_used_dsk ?x + of_nat BSIZE) = unat (c_used_dsk ?x) + BSIZE" if "c_isroot ?x = 0"
    proof -
      have "unat (c_used_dsk ?x) + BSIZE < 2 ^ 64"
        using assms(1) that False Some unat_less_2p64 [of "c_max_dsk ?x"] by (simp add: quota_def)
      then show ?thesis using unat_add_u64 [of "c_used_dsk ?x" "of_nat BSIZE"] by (simp add: BSIZE_def)
    qed
    have le: "\<not> c_used_dsk ?x + of_nat BSIZE > c_max_dsk ?x" if "c_isroot ?x = 0"
      using assms(1) that False Some u [OF that] by (simp add: quota_def word_less_nat_alt)
    let ?cs = "(conts s)[i := ?x\<lparr>c_used_dsk := c_used_dsk ?x + of_nat BSIZE\<rparr>]"
    have "updatecontdsk (of_nat BSIZE) (disk_account s) s = (1, s\<lparr>conts := ?cs\<rparr>)"
      using Some False le by (auto simp: updatecontdsk_def Let_def upd_cont_def)
    moreover have "quota c (s\<lparr>conts := ?cs\<rparr>)"
      using assms Some False u by (cases "i < length (conts s)") (auto simp: quota_def list_update_beyond)
    ultimately show ?thesis by (intro exI [of _ 1] exI [of _ ?cs]) simp
  qed
qed

section \<open>Allocating\<close>

lemma holds_locked: "log_open k st s \<Longrightarrow> bio_holds s b n \<Longrightarrow> n \<in> locked_blocks s"
  using holdsD(5,7) log_openD(1) by (fastforce simp: locked_blocks_def bio_abs_def)

lemma bzero_ok:
  fixes s :: "'a fsk_scheme"
  assumes "log_open k st s" "n \<notin> locked_blocks s" "card (in_tx s) + card (locked_blocks s) < k - 1" "in_op s" "n \<notin> log_area st k"
  shows "\<exists>s'. bzero ROOTDEV n s = Inr s' \<and> log_open k st s' \<and> blocks s' = (blocks s)(n := replicate BSIZE 0) \<and>
    locked_blocks s' = locked_blocks s \<and> in_tx s' = insert n (in_tx s) \<and> in_op s' \<and> log_frm s' = log_frm s \<and>
    (\<forall>c m. bio_holds s c m \<longrightarrow> m \<noteq> n \<longrightarrow> bio_holds s' c m)"
proof -
  from tl.update [OF assms, of "replicate BSIZE 0"] obtain b s1 s2 s3 where
    "bread ROOTDEV n s = Inr (b, s1)" "log_write b (bio_put b (replicate BSIZE 0) s1) = Inr s2" "brelse b s2 = Inr s3"
    "log_open k st s3" "blocks s3 = (blocks s)(n := replicate BSIZE 0)" "locked_blocks s3 = locked_blocks s"
    "in_tx s3 = insert n (in_tx s)" "in_op s3" "log_frm s3 = log_frm s" "\<forall>c m. bio_holds s c m \<longrightarrow> m \<noteq> n \<longrightarrow> bio_holds s3 c m" by auto
  then show ?thesis by (simp add: bzero_def)
qed

text \<open>What the caller needs of the bitmap: its blocks can be read and logged, and \<open>b\<close> is the first free block.\<close>

definition can_balloc :: "nat \<Rightarrow> u32 \<Rightarrow> nat \<Rightarrow> 'a fsk_scheme \<Rightarrow> bool" where
  "can_balloc k st b s \<longleftrightarrow> b < unat (sb_size (sb s)) \<and> \<not> used (blocks s) (sb s) (of_nat b) \<and>
     (\<forall>c<b. used (blocks s) (sb s) (of_nat c)) \<and>
     (\<forall>c\<le>b. BBLOCK (of_nat c) (sb s) \<notin> log_area st k \<union> locked_blocks s) \<and>
     of_nat b \<notin> log_area st k \<union> locked_blocks s \<and> of_nat b \<noteq> BBLOCK (of_nat b) (sb s)"

text \<open>One block of the bitmap, seen through the search of \<open>balloc\<close>.\<close>

lemma bitmap_search:
  fixes s :: "'a fsk_scheme"
  assumes "can_balloc k st b s"
  defines "m \<equiv> \<lambda>j. min (unat BPB) (unat (sb_size (sb s)) - j * unat BPB)"
  shows "j < b div 8192 \<Longrightarrow> List.find (\<lambda>bi. \<not> get_bit (blocks s (BBLOCK (of_nat (j * unat BPB)) (sb s))) bi) [0..<m j] = None"
    and "List.find (\<lambda>bi. \<not> get_bit (blocks s (BBLOCK (of_nat (b div 8192 * unat BPB)) (sb s))) bi) [0..<m (b div 8192)] = Some (b mod 8192)"
    and "b div 8192 < (unat (sb_size (sb s)) + unat BPB - 1) div unat BPB"
proof -
  note C = assms(1) [unfolded can_balloc_def]
  have U: "used (blocks s) (sb s) (of_nat c)" if "c < b" for c using C that by blast
  have b: "b < 2 ^ 32" using C unat_less_2p32 [of "sb_size (sb s)"] by simp
  have g: "get_bit (blocks s (BBLOCK (of_nat (j * unat BPB)) (sb s))) bi \<longleftrightarrow> used (blocks s) (sb s) (of_nat (j * 8192 + bi))"
    if "bi < 8192" "j * 8192 + bi \<le> b" for j bi
  proof -
    have lt: "j * 8192 + bi < 2 ^ 32" "j * 8192 < 2 ^ 32" using that b by auto
    show ?thesis unfolding used_def BPB_nat(1) using BBLOCK_eq [OF lt(1)] BBLOCK_eq [OF lt(2)] that(1) by simp
  qed
  show "b div 8192 < (unat (sb_size (sb s)) + unat BPB - 1) div unat BPB"
    using C by (auto simp: BPB_nat(1) less_eq_div_iff_mult_less_eq Suc_le_eq [symmetric])
  show "List.find (\<lambda>bi. \<not> get_bit (blocks s (BBLOCK (of_nat (j * unat BPB)) (sb s))) bi) [0..<m j] = None" if "j < b div 8192"
    unfolding find_upt_None
  proof (intro allI impI)
    fix i assume "i < m j"
    then have "i < 8192" by (simp add: m_def BPB_nat(1))
    moreover have "j * 8192 + i < b" using that \<open>i < 8192\<close> by linarith
    ultimately show "\<not> \<not> get_bit (blocks s (BBLOCK (of_nat (j * unat BPB)) (sb s))) i"
      using g [of i j] U [of "j * 8192 + i"] less_imp_le by blast
  qed
  have bb: "b div 8192 * 8192 + b mod 8192 = b" by simp
  show "List.find (\<lambda>bi. \<not> get_bit (blocks s (BBLOCK (of_nat (b div 8192 * unat BPB)) (sb s))) bi) [0..<m (b div 8192)] = Some (b mod 8192)"
    unfolding find_upt_Some
  proof (intro conjI allI impI)
    have "b < unat (sb_size (sb s))" using C by blast
    then have "b mod 8192 < unat (sb_size (sb s)) - b div 8192 * 8192" using bb by linarith
    then show "b mod 8192 < m (b div 8192)" by (simp add: m_def BPB_nat(1))
    show "\<not> get_bit (blocks s (BBLOCK (of_nat (b div 8192 * unat BPB)) (sb s))) (b mod 8192)"
      using g [of "b mod 8192" "b div 8192", unfolded bb] C by simp
    fix i assume i: "i < b mod 8192"
    then have "i < 8192" by linarith
    moreover have "b div 8192 * 8192 + i < b" using i bb by linarith
    ultimately show "\<not> \<not> get_bit (blocks s (BBLOCK (of_nat (b div 8192 * unat BPB)) (sb s))) i"
      using g [of i "b div 8192"] U [of "b div 8192 * 8192 + i"] less_imp_le by blast
  qed
qed

lemma balloc_round_full:
  fixes s :: "'a fsk_scheme"
  assumes o: "log_open k st s" and l: "BBLOCK (of_nat b) (sb s) \<notin> locked_blocks s" and "card (in_tx s) + card (locked_blocks s) \<le> k - 1"
    and f: "List.find (\<lambda>bi. \<not> get_bit (blocks s (BBLOCK (of_nat b) (sb s))) bi) [0..<min (unat BPB) (unat (sb_size (sb s)) - b)] = None"
  shows "\<exists>s'. balloc_round ROOTDEV b s = Inr (None, s') \<and> tl.same k st s s' \<and> (\<forall>a m. bio_holds s a m \<longrightarrow> bio_holds s' a m)"
proof -
  from tl.read_rel [OF assms(1-3)] obtain bp s1 s2 where
    1: "bread ROOTDEV (BBLOCK (of_nat b) (sb s)) s = Inr (bp, s1)" "log_frm s1 = log_frm s"
      "bio_get bp s1 = blocks s (BBLOCK (of_nat b) (sb s))" "brelse bp s1 = Inr s2" "tl.same k st s s2"
      "\<forall>c m. bio_holds s c m \<longrightarrow> m \<noteq> BBLOCK (of_nat b) (sb s) \<longrightarrow> bio_holds s2 c m" by blast
  have "balloc_round ROOTDEV b s = Inr (None, s2)"
    using 1(1,3,4) f fs_frmD(2) [OF 1(2)] by (simp add: balloc_round_def)
  then show ?thesis using 1(5,6) holds_locked [OF o] l by blast
qed

lemma balloc_round_free:
  fixes s :: "'a fsk_scheme"
  assumes o: "log_open k st s" and bm: "bm = BBLOCK (of_nat b) (sb s)" "bm \<notin> locked_blocks s" "bm \<notin> log_area st k"
    and room: "card (in_tx s) + card (locked_blocks s) + 2 \<le> k - 1" "in_op s" and q: "quota (Suc c) s"
    and f: "List.find (\<lambda>bi. \<not> get_bit (blocks s bm) bi) [0..<min (unat BPB) (unat (sb_size (sb s)) - b)] = Some bi"
    and n: "n = of_nat (b + bi)" "n \<notin> locked_blocks s" "n \<notin> log_area st k"
  shows "\<exists>s' cs. balloc_round ROOTDEV b s = Inr (Some n, s') \<and> log_open k st s' \<and>
    blocks s' = (blocks s)(bm := put_bit (blocks s bm) bi True, n := replicate BSIZE 0) \<and>
    locked_blocks s' = locked_blocks s \<and> in_tx s' = in_tx s \<union> {bm, n} \<and> in_op s' \<and> quota c s' \<and>
    log_frm s' = (log_frm s)\<lparr>conts := cs\<rparr> \<and> (\<forall>a m. bio_holds s a m \<longrightarrow> bio_holds s' a m)"
proof -
  have c: "calm s" by (rule bio_invD(1) [OF log_openD(1) [OF o]])
  then obtain p where p: "curproc s = Some p" by (auto simp: calm_def)
  let ?x = "put_bit (blocks s bm) bi True"
  have "length ?x = BSIZE" "card (in_tx s) + card (locked_blocks s) < k - 1" using tl.size_law [OF o] room(1) by simp_all
  from tl.update [OF o bm(2) this(2) room(2) bm(3) this(1)] obtain bp s1 s2 s3 where
    1: "bread ROOTDEV bm s = Inr (bp, s1)" "log_frm s1 = log_frm s" "bio_get bp s1 = blocks s bm"
      "log_write bp (bio_put bp ?x s1) = Inr s2" "brelse bp s2 = Inr s3"
    and 3: "log_open k st s3" "blocks s3 = (blocks s)(bm := ?x)" "locked_blocks s3 = locked_blocks s" "in_tx s3 = insert bm (in_tx s)"
      "in_op s3" "log_frm s3 = log_frm s" "\<forall>c m. bio_holds s c m \<longrightarrow> m \<noteq> bm \<longrightarrow> bio_holds s3 c m" by blast
  have "card (in_tx s3) + card (locked_blocks s3) < k - 1" using room(1) card_insert_le_m1 3(3,4) by (simp add: card_insert_if)
  from bzero_ok [OF 3(1) _ this 3(5) n(3)] n(2) 3(3) obtain s4 where 4: "bzero ROOTDEV n s3 = Inr s4" "log_open k st s4"
    "blocks s4 = (blocks s3)(n := replicate BSIZE 0)" "locked_blocks s4 = locked_blocks s3" "in_tx s4 = insert n (in_tx s3)"
    "in_op s4" "log_frm s4 = log_frm s3" "\<forall>c m. bio_holds s3 c m \<longrightarrow> m \<noteq> n \<longrightarrow> bio_holds s4 c m" by auto
  have f4: "log_frm s4 = log_frm s" using 4(7) 3(6) by simp
  have "quota (Suc c) s4" "curproc s4 = Some p" using account_frm(2) [OF f4 c] q fs_frmD(3) [OF f4] p by simp_all
  with charge_block [of c s4] obtain r cs where 5: "updatecontdsk (of_nat BSIZE) (disk_account s4) s4 = (r, s4\<lparr>conts := cs\<rparr>)" "0 \<le> r"
    "quota c (s4\<lparr>conts := cs\<rparr>)" by auto
  have "balloc_round ROOTDEV b s = Inr (Some n, s4\<lparr>conts := cs\<rparr>)"
    using 1 4(1) 5 f \<open>curproc s4 = Some p\<close> fs_frmD(2) [OF 1(2)] unfolding balloc_round_def bm(1) [symmetric]
    by (simp add: Let_def n(1) [symmetric] del: of_nat_add)
  moreover have "bio_holds s4 a m" if "bio_holds s a m" for a m
    using that 3(7) 4(8) holds_locked [OF o that] bm(2) n(2) by metis
  ultimately show ?thesis
    using 4(2-6) 5(3) 3(2-4) f4
    by (intro exI [of _ "s4\<lparr>conts := cs\<rparr>"] exI [of _ cs]) auto
qed

lemma balloc_ok:
  fixes s :: "'a fsk_scheme"
  assumes o: "log_open k st s" and cb: "can_balloc k st b s" and room: "card (in_tx s) + card (locked_blocks s) + 2 \<le> k - 1" "in_op s"
    and q: "quota (Suc c) s" and n: "n = of_nat b"
  shows "\<exists>s' cs. balloc ROOTDEV s = Inr (n, s') \<and> log_open k st s' \<and> blocks s' = alloc_blk (sb s) n (blocks s) \<and>
    locked_blocks s' = locked_blocks s \<and> in_tx s' = in_tx s \<union> {BBLOCK n (sb s), n} \<and> in_op s' \<and> quota c s' \<and>
    log_frm s' = (log_frm s)\<lparr>conts := cs\<rparr> \<and> (\<forall>a m. bio_holds s a m \<longrightarrow> bio_holds s' a m)"
proof -
  note C = cb [unfolded can_balloc_def] and F = bitmap_search [OF cb]
  have b32: "b < 2 ^ 32" using C unat_less_2p32 [of "sb_size (sb s)"] by simp
  define i where "i = b div 8192"
  have bb: "i * 8192 + b mod 8192 = b" by (simp add: i_def)
  then have "i * 8192 < 2 ^ 32" using b32 by linarith
  then have bm: "BBLOCK (of_nat (i * unat BPB)) (sb s) = BBLOCK n (sb s)"
    using BBLOCK_eq(1) [of "i * 8192" "sb s"] BBLOCK_eq(1) [OF b32, of "sb s"] n by (simp add: BPB_nat(1) i_def)
  have B: "BBLOCK (of_nat c) (sb s) \<notin> log_area st k" "BBLOCK (of_nat c) (sb s) \<notin> locked_blocks s" if "c \<le> b" for c
    using C that by blast+
  have c: "calm s" by (rule bio_invD(1) [OF log_openD(1) [OF o]])
  define I where "I t \<longleftrightarrow> tl.same k st s t \<and> (\<forall>a m. bio_holds s a m \<longrightarrow> bio_holds t a m)" for t
  define Q where "Q r t' \<longleftrightarrow> r = n \<and> log_open k st t' \<and> blocks t' = alloc_blk (sb s) n (blocks s) \<and>
     locked_blocks t' = locked_blocks s \<and> in_tx t' = in_tx s \<union> {BBLOCK n (sb s), n} \<and> in_op t' \<and> quota c t' \<and>
     (\<exists>cs. log_frm t' = (log_frm s)\<lparr>conts := cs\<rparr>) \<and> (\<forall>a m. bio_holds s a m \<longrightarrow> bio_holds t' a m)" for r and t' :: "'a fsk_scheme"
  have "\<exists>r t'. foreach [0..<(unat (sb_size (sb s)) + unat BPB - 1) div unat BPB]
      (\<lambda>k s. balloc_round ROOTDEV (k * unat BPB) s) s = Inr (Some r, t') \<and> Q r t'"
  proof (rule foreach_until [where i = i and I = I])
    show "i < (unat (sb_size (sb s)) + unat BPB - 1) div unat BPB" using F(3) by (simp add: i_def)
    show "I s" using o by (simp add: I_def tl.same_def)
  next
    fix j and t :: "'a fsk_scheme" assume j: "j < i" and I: "I t"
    then have S: "log_open k st t" "blocks t = blocks s" "locked_blocks t = locked_blocks s" "in_tx t = in_tx s" "log_frm t = log_frm s" "in_op t"
      and H: "\<forall>a m. bio_holds s a m \<longrightarrow> bio_holds t a m" using room(2) by (simp_all add: I_def tl.same_def)
    note sb = fs_frmD(2) [OF S(5)]
    have "j * 8192 \<le> b" using j bb by linarith
    then have nl: "BBLOCK (of_nat (j * unat BPB)) (sb t) \<notin> locked_blocks t" using B S(3) sb by (simp only: BPB_nat(1)) blast
    have rm: "card (in_tx t) + card (locked_blocks t) \<le> k - 1" using S room by simp
    have "j < b div 8192" using j by (simp add: i_def)
    from balloc_round_full [OF S(1) nl rm F(1) [OF this, folded S(2) sb]]
    obtain t' where "balloc_round ROOTDEV (j * unat BPB) t = Inr (None, t')" "tl.same k st t t'" "\<forall>a m. bio_holds t a m \<longrightarrow> bio_holds t' a m"
      by blast
    then show "\<exists>t'. balloc_round ROOTDEV (j * unat BPB) t = Inr (None, t') \<and> I t'"
      using S H room(2) by (auto simp: I_def tl.same_def)
  next
    fix t :: "'a fsk_scheme" assume I: "I t"
    then have S: "log_open k st t" "blocks t = blocks s" "locked_blocks t = locked_blocks s" "in_tx t = in_tx s" "log_frm t = log_frm s" "in_op t"
      and H: "\<forall>a m. bio_holds s a m \<longrightarrow> bio_holds t a m" using room(2) by (simp_all add: I_def tl.same_def)
    note sb = fs_frmD(2) [OF S(5)]
    have m: "unat (n mod BPB) = b mod 8192" using BBLOCK_eq(2) [OF b32] n by simp
    have "\<exists>t' cs. balloc_round ROOTDEV (i * unat BPB) t = Inr (Some n, t') \<and> log_open k st t' \<and>
      blocks t' = (blocks t)(BBLOCK n (sb s) := put_bit (blocks t (BBLOCK n (sb s))) (b mod 8192) True, n := replicate BSIZE 0) \<and>
      locked_blocks t' = locked_blocks t \<and> in_tx t' = in_tx t \<union> {BBLOCK n (sb s), n} \<and> in_op t' \<and> quota c t' \<and>
      log_frm t' = (log_frm t)\<lparr>conts := cs\<rparr> \<and> (\<forall>a m. bio_holds t a m \<longrightarrow> bio_holds t' a m)"
    proof (rule balloc_round_free [OF S(1)])
      show "BBLOCK n (sb s) = BBLOCK (of_nat (i * unat BPB)) (sb t)" by (simp only: bm sb)
      show "BBLOCK n (sb s) \<notin> locked_blocks t" "BBLOCK n (sb s) \<notin> log_area st k" using B [of b] S(3) n by simp_all
      show "n \<notin> locked_blocks t" "n \<notin> log_area st k" using C S(3) n by simp_all
      show "card (in_tx t) + card (locked_blocks t) + 2 \<le> k - 1" "in_op t" "quota (Suc c) t"
        using S room q account_frm(2) [OF S(5) c] by simp_all
      show "List.find (\<lambda>bi. \<not> get_bit (blocks t (BBLOCK n (sb s))) bi) [0..<min (unat BPB) (unat (sb_size (sb t)) - i * unat BPB)]
        = Some (b mod 8192)" using F(2) unfolding i_def [symmetric] bm S(2) sb .
      show "n = of_nat (i * unat BPB + b mod 8192)" using n bb by (simp only: BPB_nat(1))
    qed
    then show "\<exists>r t'. balloc_round ROOTDEV (i * unat BPB) t = Inr (Some r, t') \<and> Q r t'"
      using S H by (force simp: Q_def alloc_blk_def m)
  qed
  then show ?thesis unfolding balloc_def Q_def by force
qed

end
