(* ===== verification/Filedata.thy ===== *)
theory Filedata
  imports Balloc
begin

text \<open>
  The contents of files: the blocks of an inode, direct and indirect, what
  \<open>bmap\<close>, \<open>readi\<close> and \<open>writei\<close> do to the bytes of a file, and that allocation
  keeps files apart from each other and from the file system's own blocks.
\<close>

section \<open>Specification\<close>

text \<open>
  The block addresses of an inode: slots 0 to 11 are the direct blocks, slot
  12 the indirect block, slots 13 to 268 the entries of the indirect block.
\<close>

definition NSLOT :: nat where "NSLOT = 269"

definition slot :: "(u32 \<Rightarrow> block) \<Rightarrow> inode \<Rightarrow> nat \<Rightarrow> u32" where
  "slot d x i = (if i \<le> NDIRECT then i_addrs x ! i
     else if i_addrs x ! NDIRECT = 0 then 0 else get32 (d (i_addrs x ! NDIRECT)) (4 * (i - NDIRECT - 1)))"

definition slot_of :: "nat \<Rightarrow> nat" where
  "slot_of bn = (if bn < NDIRECT then bn else bn + 1)"

text \<open>Byte \<open>p\<close> of the file; a block that is not there reads as zeros.\<close>

definition fdata :: "(u32 \<Rightarrow> block) \<Rightarrow> inode \<Rightarrow> nat \<Rightarrow> u8" where
  "fdata d x p = (let a = slot d x (slot_of (p div BSIZE)) in if a = 0 then 0 else d a ! (p mod BSIZE))"

text \<open>Blocks that never belong to a file.\<close>

definition meta :: "superblock \<Rightarrow> u32 \<Rightarrow> nat \<Rightarrow> inode \<Rightarrow> u32 set" where
  "meta b st k x = log_area st k \<union> {BBLOCK n b | n. unat n < unat (sb_size b)} \<union> {IBLOCK (i_inum x) b, 0}"

text \<open>
  The blocks of the file are distinct, marked in use, and none of the file
  system's own; the file system's own blocks are marked in use.
\<close>

definition file_inv :: "superblock \<Rightarrow> u32 \<Rightarrow> nat \<Rightarrow> (u32 \<Rightarrow> block) \<Rightarrow> inode \<Rightarrow> bool" where
  "file_inv b st k d x \<longleftrightarrow> i_dev x = ROOTDEV \<and> length (i_addrs x) = NDIRECT + 1 \<and> (\<forall>n. length (d n) = BSIZE) \<and>
     (\<forall>i<NSLOT. slot d x i \<noteq> 0 \<longrightarrow> unat (slot d x i) < unat (sb_size b) \<and> used d b (slot d x i) \<and> slot d x i \<notin> meta b st k x) \<and>
     (\<forall>i<NSLOT. \<forall>j<NSLOT. slot d x i \<noteq> 0 \<longrightarrow> slot d x i = slot d x j \<longrightarrow> i = j) \<and>
     (\<forall>n\<in>meta b st k x. unat n < unat (sb_size b) \<longrightarrow> used d b n) \<and>
     (\<forall>n. unat n < unat (sb_size b) \<longrightarrow> BBLOCK n b \<notin> log_area st k \<and> BBLOCK n b \<noteq> IBLOCK (i_inum x) b) \<and>
     IBLOCK (i_inum x) b \<notin> log_area st k"

definition free_blks :: "superblock \<Rightarrow> (u32 \<Rightarrow> block) \<Rightarrow> u32 set" where
  "free_blks b d = {n. unat n < unat (sb_size b) \<and> \<not> used d b n}"

text \<open>The store and the inode after block \<open>n\<close> has been allocated for slot \<open>i\<close>.\<close>

definition grow_d :: "superblock \<Rightarrow> nat \<Rightarrow> u32 \<Rightarrow> inode \<Rightarrow> (u32 \<Rightarrow> block) \<Rightarrow> u32 \<Rightarrow> block" where
  "grow_d b i n x d = (let d1 = alloc_blk b n d; a = i_addrs x ! NDIRECT in
     if i \<le> NDIRECT then d1 else d1(a := put32 (d1 a) (4 * (i - NDIRECT - 1)) n))"

definition grow_x :: "nat \<Rightarrow> u32 \<Rightarrow> inode \<Rightarrow> inode" where
  "grow_x i n x = (if i \<le> NDIRECT then x\<lparr>i_addrs := (i_addrs x)[i := n]\<rparr> else x)"

section \<open>Allocation keeps the invariant\<close>

lemma file_invD:
  assumes "file_inv b st k d x"
  shows "i_dev x = ROOTDEV" "length (i_addrs x) = 13" "\<And>n. length (d n) = BSIZE"
    "\<And>i. i < NSLOT \<Longrightarrow> slot d x i \<noteq> 0 \<Longrightarrow>
      unat (slot d x i) < unat (sb_size b) \<and> used d b (slot d x i) \<and> slot d x i \<notin> meta b st k x"
    "\<And>i j. i < NSLOT \<Longrightarrow> j < NSLOT \<Longrightarrow> slot d x i \<noteq> 0 \<Longrightarrow> slot d x i = slot d x j \<Longrightarrow> i = j"
    "\<And>n. n \<in> meta b st k x \<Longrightarrow> unat n < unat (sb_size b) \<Longrightarrow> used d b n"
    "\<And>n. unat n < unat (sb_size b) \<Longrightarrow> BBLOCK n b \<notin> log_area st k \<and> BBLOCK n b \<noteq> IBLOCK (i_inum x) b"
    "IBLOCK (i_inum x) b \<notin> log_area st k"
  using assms unfolding file_inv_def NDIRECT_def by auto

lemma meta_simps: "0 \<in> meta b st k x" "IBLOCK (i_inum x) b \<in> meta b st k x"
    "unat n < unat (sb_size b) \<Longrightarrow> BBLOCK n b \<in> meta b st k x" "n \<in> log_area st k \<Longrightarrow> n \<in> meta b st k x"
  by (auto simp: meta_def)

text \<open>Block \<open>n\<close> can be put into the empty slot \<open>i\<close>.\<close>

definition growable :: "superblock \<Rightarrow> u32 \<Rightarrow> nat \<Rightarrow> (u32 \<Rightarrow> block) \<Rightarrow> inode \<Rightarrow> nat \<Rightarrow> u32 \<Rightarrow> bool" where
  "growable b st k d x i n \<longleftrightarrow> file_inv b st k d x \<and> n \<in> free_blks b d \<and> i < NSLOT \<and> slot d x i = 0 \<and>
     (NDIRECT < i \<longrightarrow> i_addrs x ! NDIRECT \<noteq> 0)"

lemma fresh_block:
  assumes "file_inv b st k d x" and "n \<in> free_blks b d"
  shows "n \<notin> meta b st k x" "n \<noteq> 0" "unat m < unat (sb_size b) \<Longrightarrow> BBLOCK m b \<noteq> n" "j < NSLOT \<Longrightarrow> slot d x j \<noteq> n"
proof -
  have f: "unat n < unat (sb_size b)" "\<not> used d b n" using assms(2) by (simp_all add: free_blks_def)
  then show m: "n \<notin> meta b st k x" using file_invD(6) [OF assms(1)] by blast
  then show "n \<noteq> 0" using meta_simps(1) by blast
  show "BBLOCK m b \<noteq> n" if "unat m < unat (sb_size b)" using m meta_simps(3) [OF that] by blast
  show "slot d x j \<noteq> n" if "j < NSLOT" using f(2) file_invD(4) [OF assms(1) that] \<open>n \<noteq> 0\<close> by auto
qed

text \<open>Allocation changes neither the blocks of the file nor those of the file system, bitmap apart.\<close>

lemma alloc_other:
  assumes "file_inv b st k d x" and "n \<in> free_blks b d" and "j < NSLOT" "slot d x j \<noteq> 0"
  shows "alloc_blk b n d (slot d x j) = d (slot d x j)"
proof -
  have "slot d x j \<noteq> n" by (rule fresh_block(4) [OF assms(1-3)])
  moreover have "slot d x j \<noteq> BBLOCK n b"
    using file_invD(4) [OF assms(1,3,4)] meta_simps(3) [of n b] assms(2) by (auto simp: free_blks_def)
  ultimately show ?thesis by (simp add: alloc_blk_def)
qed

lemma slot_12: "slot d x NDIRECT = i_addrs x ! NDIRECT"
  by (simp add: slot_def)

lemma NDIRECT_NSLOT: "NDIRECT < NSLOT"
  by (simp add: NSLOT_def NDIRECT_def)

lemma slot_grow:
  assumes g: "growable b st k d x i n" and j: "j < NSLOT"
  shows "slot (grow_d b i n x d) (grow_x i n x) j = (if j = i then n else slot d x j)"
proof -
  note G = g [unfolded growable_def]
  have inv: "file_inv b st k d x" and n: "n \<in> free_blks b d" using G by blast+
  note F = file_invD [OF inv]
  let ?a = "i_addrs x ! NDIRECT" and ?d = "alloc_blk b n d"
  have a: "?d ?a = d ?a" if "?a \<noteq> 0" using alloc_other [OF inv n NDIRECT_NSLOT, unfolded slot_12] that by blast
  have an: "?a \<noteq> n" using fresh_block(4) [OF inv n NDIRECT_NSLOT, unfolded slot_12] .
  consider "i < NDIRECT" | "i = NDIRECT" | "NDIRECT < i" by linarith
  then show ?thesis
  proof cases
    case 1
    then show ?thesis using F(2) a by (auto simp: slot_def grow_d_def grow_x_def Let_def NDIRECT_def nth_list_update)
  next
    case 2
    have "get32 (?d n) (4 * (j - NDIRECT - 1)) = 0"
      using j by (simp add: alloc_blk_def get32_def BSIZE_def NSLOT_def NDIRECT_def)
    moreover have "?a = 0" using G 2 by (simp add: slot_12)
    ultimately show ?thesis
      using 2 F(2) fresh_block(2) [OF inv n] by (auto simp: slot_def grow_d_def grow_x_def Let_def NDIRECT_def)
  next
    case 3
    then have a0: "?a \<noteq> 0" using G by blast
    have "i < 269" using G by (simp add: NSLOT_def)
    then have "4 * (i - NDIRECT - 1) + 3 < 1024" unfolding NDIRECT_def by linarith
    then have l: "4 * (i - NDIRECT - 1) + 3 < length (d ?a)" using F(3) by (simp add: BSIZE_def)
    have "get32 (put32 (d ?a) (4 * (i - NDIRECT - 1)) n) (4 * (j - NDIRECT - 1)) = get32 (d ?a) (4 * (j - NDIRECT - 1))"
      if "j \<noteq> i" "NDIRECT < j" using that 3 by (intro get32_put32_other) (simp add: NDIRECT_def, linarith)
    then show ?thesis using 3 a0 a l by (auto simp: slot_def grow_d_def grow_x_def Let_def)
  qed
qed

lemma meta_grow [simp]: "meta b st k (grow_x i n x) = meta b st k x"
  by (simp add: meta_def grow_x_def)

lemma used_grow:
  assumes g: "growable b st k d x i n" and m: "unat m < unat (sb_size b)"
  shows "used (grow_d b i n x d) b m \<longleftrightarrow> m = n \<or> used d b m"
proof -
  note G = g [unfolded growable_def]
  have inv: "file_inv b st k d x" and n: "n \<in> free_blks b d" using G by blast+
  note F = file_invD [OF inv]
  have "unat n < unat (sb_size b)" using n by (simp add: free_blks_def)
  then have u: "used (alloc_blk b n d) b m \<longleftrightarrow> m = n \<or> used d b m"
    using used_alloc [of d n b m] F(3) fresh_block(3) [OF inv n] m by metis
  have "BBLOCK m b \<noteq> i_addrs x ! NDIRECT" if "NDIRECT < i"
    using F(4) [OF NDIRECT_NSLOT] G that meta_simps(3) [OF m] by (auto simp: slot_12)
  then have "grow_d b i n x d (BBLOCK m b) = alloc_blk b n d (BBLOCK m b)" by (auto simp: grow_d_def Let_def)
  with u show ?thesis by (simp add: used_def)
qed

lemma free_grow: "growable b st k d x i n \<Longrightarrow> free_blks b (grow_d b i n x d) = free_blks b d - {n}"
  by (auto simp: free_blks_def used_grow)

lemma length_grow: "growable b st k d x i n \<Longrightarrow> length (grow_d b i n x d m) = BSIZE"
  using file_invD(3) [of b st k d x] by (auto simp: growable_def grow_d_def alloc_blk_def Let_def)

text \<open>Used blocks other than the indirect block and the bitmap keep their contents.\<close>

lemma grow_other:
  assumes "growable b st k d x i n" and "m \<noteq> n" and "m \<noteq> BBLOCK n b" and "m \<noteq> i_addrs x ! NDIRECT \<or> i \<le> NDIRECT"
  shows "grow_d b i n x d m = d m"
  using assms by (auto simp: grow_d_def alloc_blk_def Let_def)

lemma file_inv_grow:
  assumes g: "growable b st k d x i n"
  shows "file_inv b st k (grow_d b i n x d) (grow_x i n x)"
proof -
  note G = g [unfolded growable_def]
  have inv: "file_inv b st k d x" and n: "n \<in> free_blks b d" using G by blast+
  have sz: "unat n < unat (sb_size b)" using n by (simp add: free_blks_def)
  note F = file_invD [OF inv] and N = fresh_block [OF inv n]
  have s: "slot (grow_d b i n x d) (grow_x i n x) j = (if j = i then n else slot d x j)" if "j < NSLOT" for j
    by (rule slot_grow [OF g that])
  have u: "used (grow_d b i n x d) b m \<longleftrightarrow> m = n \<or> used d b m" if "unat m < unat (sb_size b)" for m
    by (rule used_grow [OF g that])
  show ?thesis
    unfolding file_inv_def meta_grow
  proof (intro conjI allI impI ballI)
    show "i_dev (grow_x i n x) = ROOTDEV" "length (i_addrs (grow_x i n x)) = NDIRECT + 1"
      "length (grow_d b i n x d m) = BSIZE" for m
      using F(1,2) length_grow [OF g] by (simp_all add: grow_x_def NDIRECT_def)
  next
    fix j assume "j < NSLOT" "slot (grow_d b i n x d) (grow_x i n x) j \<noteq> 0"
    then show "unat (slot (grow_d b i n x d) (grow_x i n x) j) < unat (sb_size b)"
      "used (grow_d b i n x d) b (slot (grow_d b i n x d) (grow_x i n x) j)"
      "slot (grow_d b i n x d) (grow_x i n x) j \<notin> meta b st k x"
      using s u F(4) sz N(1) by (auto split: if_split_asm)
  next
    fix j j' assume "j < NSLOT" "j' < NSLOT" "slot (grow_d b i n x d) (grow_x i n x) j \<noteq> 0"
      "slot (grow_d b i n x d) (grow_x i n x) j = slot (grow_d b i n x d) (grow_x i n x) j'"
    then show "j = j'" using s F(5) N(4) by (auto split: if_split_asm)
  next
    fix m assume "m \<in> meta b st k x" "unat m < unat (sb_size b)"
    then show "used (grow_d b i n x d) b m" using u F(6) by blast
  next
    fix m :: u32 assume "unat m < unat (sb_size b)"
    then show "BBLOCK m b \<notin> log_area st k" "BBLOCK m b \<noteq> IBLOCK (i_inum (grow_x i n x)) b"
      using F(7) [of m] by (simp_all add: grow_x_def)
  next
    show "IBLOCK (i_inum (grow_x i n x)) b \<notin> log_area st k" using F(8) by (simp add: grow_x_def)
  qed
qed

lemma slot_of_props: "bn < MAXFILE \<Longrightarrow> slot_of bn < NSLOT \<and> slot_of bn \<noteq> NDIRECT"
  by (auto simp: slot_of_def MAXFILE_def NSLOT_def NDIRECT_def NINDIRECT_def BSIZE_def)

lemma fdata_grow:
  assumes g: "growable b st k d x i n" and p: "p < MAXFILE * BSIZE"
  shows "fdata (grow_d b i n x d) (grow_x i n x) p = fdata d x p"
proof -
  note G = g [unfolded growable_def]
  have inv: "file_inv b st k d x" and n: "n \<in> free_blks b d" using G by blast+
  have sz: "unat n < unat (sb_size b)" using n by (simp add: free_blks_def)
  note F = file_invD [OF inv] and N = fresh_block [OF inv n]
  let ?j = "slot_of (p div BSIZE)" and ?d = "grow_d b i n x d"
  have "p div BSIZE < MAXFILE" using p by (simp add: less_mult_imp_div_less)
  then have j: "?j < NSLOT" "?j \<noteq> NDIRECT" using slot_of_props by blast+
  note s = slot_grow [OF g j(1)]
  show ?thesis
  proof (cases "?j = i")
    case True
    have "i_addrs x ! NDIRECT \<noteq> n" using N(4) [OF NDIRECT_NSLOT] by (simp add: slot_12)
    then have "?d n = replicate BSIZE 0" by (auto simp: grow_d_def alloc_blk_def Let_def)
    then show ?thesis using True s G by (simp add: fdata_def Let_def BSIZE_def)
  next
    case False
    have "?d (slot d x ?j) = d (slot d x ?j)" if "slot d x ?j \<noteq> 0"
    proof (rule grow_other [OF g])
      show "slot d x ?j \<noteq> n" by (rule N(4) [OF j(1)])
      show "slot d x ?j \<noteq> BBLOCK n b" using F(4) [OF j(1) that] meta_simps(3) [OF sz] by auto
      have "slot d x ?j \<noteq> slot d x NDIRECT" using F(5) [OF j(1) NDIRECT_NSLOT that] j(2) by blast
      then show "slot d x ?j \<noteq> i_addrs x ! NDIRECT \<or> i \<le> NDIRECT" by (simp add: slot_12)
    qed
    then show ?thesis using False s by (simp add: fdata_def Let_def)
  qed
qed

section \<open>The kernel's state\<close>

definition file_st :: "nat \<Rightarrow> u32 \<Rightarrow> nat \<Rightarrow> 'a fsk_scheme \<Rightarrow> bool" where
  "file_st k st ip s \<longleftrightarrow> log_open k st s \<and> ip < length (icache s) \<and> file_inv (sb s) st k (blocks s) (icache s ! ip)"

text \<open>The bytes of file \<open>ip\<close>.\<close>

abbreviation bytes :: "nat \<Rightarrow> 'a fsk_scheme \<Rightarrow> nat \<Rightarrow> u8" where
  "bytes ip s \<equiv> fdata (blocks s) (icache s ! ip)"

text \<open>Only the size and addresses of inode \<open>ip\<close>, the accounts, and what the layers below own, have changed.\<close>

definition fframe :: "nat \<Rightarrow> 'a fsk_scheme \<Rightarrow> 'a fsk_scheme \<Rightarrow> bool" where
  "fframe ip s s' \<longleftrightarrow> (\<exists>cs z as. log_frm s' = (log_frm s)\<lparr>conts := cs, icache := (icache s)[ip := (icache s ! ip)\<lparr>i_size := z, i_addrs := as\<rparr>]\<rparr>)"

lemma icache_frm [simp]: "icache (log_frm (s :: 'a fsk_scheme)) = icache s" "sb (log_frm s) = sb s"
    "curproc (log_frm s) = curproc s" "mem (log_frm s) = mem s" "conts (log_frm s) = conts s"
  by (simp_all add: log_frm_def bio_frm_def)

lemma fframe_icache:
  fixes s s' :: "'a fsk_scheme"
  assumes "log_frm s' = (log_frm s)\<lparr>conts := cs, icache := xs\<rparr>"
  shows "icache s' = xs" "sb s' = sb s" "curproc s' = curproc s" "mem s' = mem s"
  using arg_cong [where f = icache, OF assms] arg_cong [where f = sb, OF assms] arg_cong [where f = curproc, OF assms]
    arg_cong [where f = mem, OF assms] by simp_all

lemma fframeD:
  fixes s s' :: "'a fsk_scheme"
  assumes "fframe ip s s'"
  shows "sb s' = sb s" "curproc s' = curproc s" "mem s' = mem s"
    "\<exists>z as. icache s' = (icache s)[ip := (icache s ! ip)\<lparr>i_size := z, i_addrs := as\<rparr>]"
  using assms fframe_icache unfolding fframe_def by blast+

lemma fframe_same: "log_frm s' = log_frm s \<Longrightarrow> fframe ip s s'" for s :: "'a fsk_scheme"
  unfolding fframe_def
  by (rule exI [of _ "conts s"], rule exI [of _ "i_size (icache s ! ip)"], rule exI [of _ "i_addrs (icache s ! ip)"])
    (simp add: fsk.equality)

lemma fframe_trans:
  fixes s :: "'a fsk_scheme"
  assumes "fframe ip s s1" and "fframe ip s1 s2"
  shows "fframe ip s s2"
proof -
  from assms(1) obtain cs z as where 1: "log_frm s1 = (log_frm s)\<lparr>conts := cs, icache := (icache s)[ip := (icache s ! ip)\<lparr>i_size := z, i_addrs := as\<rparr>]\<rparr>"
    by (auto simp: fframe_def)
  from assms(2) obtain cs' z' as' where 2: "log_frm s2 = (log_frm s1)\<lparr>conts := cs', icache := (icache s1)[ip := (icache s1 ! ip)\<lparr>i_size := z', i_addrs := as'\<rparr>]\<rparr>"
    by (auto simp: fframe_def)
  note i = fframe_icache(1) [OF 1]
  show ?thesis
  proof (cases "ip < length (icache s)")
    case True
    then show ?thesis unfolding fframe_def using 2 unfolding i 1 by (intro exI [of _ cs'] exI [of _ z'] exI [of _ as']) simp
  next
    case False
    then show ?thesis unfolding fframe_def using 2 unfolding i 1
      by (intro exI [of _ cs'] exI [of _ z'] exI [of _ as']) (simp add: list_update_beyond)
  qed
qed

lemma fframe_conts: "log_frm s' = (log_frm s)\<lparr>conts := cs\<rparr> \<Longrightarrow> fframe ip s s'" for s :: "'a fsk_scheme"
  unfolding fframe_def
  by (rule exI [of _ cs], rule exI [of _ "i_size (icache s ! ip)"], rule exI [of _ "i_addrs (icache s ! ip)"])
    (simp add: fsk.equality)

lemma fframe_upd:
  fixes s :: "'a fsk_scheme"
  shows "fframe ip s (upd_inode ip (\<lambda>x. x\<lparr>i_addrs := f x\<rparr>) s)" "fframe ip s (upd_inode ip (\<lambda>x. x\<lparr>i_size := g x\<rparr>) s)"
  unfolding fframe_def upd_inode_def
  by (rule exI [of _ "conts s"], rule exI [of _ "i_size (icache s ! ip)"], rule exI [of _ "f (icache s ! ip)"], simp add: fsk.equality)
    (rule exI [of _ "conts s"], rule exI [of _ "g (icache s ! ip)"], rule exI [of _ "i_addrs (icache s ! ip)"], simp add: fsk.equality)

section \<open>bmap\<close>

lemma balloc_file:
  fixes s :: "'a fsk_scheme"
  assumes o: "log_open k st s" and inv: "file_inv (sb s) st k (blocks s) x" and "free_blks (sb s) (blocks s) \<noteq> {}"
    and L: "locked_blocks s \<subseteq> {m. m \<noteq> 0 \<and> (\<exists>j<NSLOT. m = slot (blocks s) x j)}"
    and room: "card (in_tx s) + card (locked_blocks s) + 2 \<le> k - 1" "in_op s" and q: "quota (Suc c) s"
  shows "\<exists>n s' cs. n \<in> free_blks (sb s) (blocks s) \<and> balloc ROOTDEV s = Inr (n, s') \<and> log_open k st s' \<and>
    blocks s' = alloc_blk (sb s) n (blocks s) \<and> locked_blocks s' = locked_blocks s \<and> in_tx s' = in_tx s \<union> {BBLOCK n (sb s), n} \<and>
    in_op s' \<and> quota c s' \<and> log_frm s' = (log_frm s)\<lparr>conts := cs\<rparr> \<and> (\<forall>a m. bio_holds s a m \<longrightarrow> bio_holds s' a m)"
proof -
  let ?free = "free_blks (sb s) (blocks s)"
  from assms(3) obtain n0 where "n0 \<in> ?free" by blast
  then have "of_nat (unat n0) \<in> ?free" by simp
  define b where "b = (LEAST i. (of_nat i :: u32) \<in> ?free)"
  have n: "of_nat b \<in> ?free" unfolding b_def by (rule LeastI) fact
  have "b \<le> unat n0" unfolding b_def by (rule Least_le) fact
  then have b: "b < unat (sb_size (sb s))" using \<open>n0 \<in> ?free\<close> by (simp add: free_blks_def)
  then have b32: "i < 2 ^ 32" if "i \<le> b" for i using that unat_less_2p32 [of "sb_size (sb s)"] by linarith
  have u: "used (blocks s) (sb s) (of_nat i)" if "i < b" for i
    using not_less_Least [OF that [unfolded b_def]] b b32 [of i] that by (simp add: free_blks_def unat_of_nat_u32)
  note F = file_invD [OF inv] and N = fresh_block [OF inv n]
  have lk: "m \<notin> meta (sb s) st k x" "used (blocks s) (sb s) m" if "m \<in> locked_blocks s" for m
    using L that F(4) by blast+
  have bm: "BBLOCK (of_nat i) (sb s) \<notin> log_area st k \<union> locked_blocks s" if "i \<le> b" for i
  proof -
    have "unat (of_nat i :: u32) < unat (sb_size (sb s))" using that b b32 [OF that] by (simp add: unat_of_nat_u32)
    from F(7) [OF this] lk(1) meta_simps(3) [OF this] show ?thesis by blast
  qed
  have "of_nat b \<notin> log_area st k \<union> locked_blocks s"
    using N(1) meta_simps(4) lk(2) n by (auto simp: free_blks_def)
  moreover have "of_nat b \<noteq> BBLOCK (of_nat b) (sb s)" using N(3) [of "of_nat b", symmetric] n unfolding free_blks_def by blast
  ultimately have "can_balloc k st b s" using b n u bm by (simp add: can_balloc_def free_blks_def)
  from balloc_ok [OF o this room q refl] n show ?thesis by blast
qed

lemma quota_icache [simp]: "quota c (s\<lparr>icache := x\<rparr>) = quota c s"
  by (simp add: quota_def disk_account_def cid2cont_def cong: option.case_cong)

text \<open>Enough of everything: \<open>c\<close> free blocks that may be charged, and \<open>m\<close> blocks that may be logged.\<close>

definition stocked :: "nat \<Rightarrow> u32 \<Rightarrow> nat \<Rightarrow> nat \<Rightarrow> nat \<Rightarrow> 'a fsk_scheme \<Rightarrow> bool" where
  "stocked k st ip c m s \<longleftrightarrow> file_st k st ip s \<and> locked_blocks s = {} \<and> quota c s \<and>
     c \<le> card (free_blks (sb s) (blocks s)) \<and> in_op s \<and> card (in_tx s) + m \<le> k - 1"

text \<open>\<open>s'\<close> has used up to \<open>m\<close> of the log; the bytes and the size of the file are as they were, and it has lost no block.\<close>

abbreviation has_slot :: "nat \<Rightarrow> 'a fsk_scheme \<Rightarrow> nat \<Rightarrow> bool" where
  "has_slot ip s i \<equiv> slot (blocks s) (icache s ! ip) i \<noteq> 0"

definition kept :: "nat \<Rightarrow> nat \<Rightarrow> 'a fsk_scheme \<Rightarrow> 'a fsk_scheme \<Rightarrow> bool" where
  "kept ip m s s' \<longleftrightarrow> card (in_tx s') \<le> card (in_tx s) + m \<and> fframe ip s s' \<and>
     (\<forall>p<MAXFILE * BSIZE. bytes ip s' p = bytes ip s p) \<and> i_size (icache s' ! ip) = i_size (icache s ! ip) \<and>
     (\<forall>i<NSLOT. has_slot ip s i \<longrightarrow> has_slot ip s' i)"

lemma kept_trans: "kept ip m s s1 \<Longrightarrow> kept ip m' s1 s2 \<Longrightarrow> kept ip (m + m') s s2"
  by (auto simp: kept_def intro: fframe_trans)

lemma free_le_1: "Suc c \<le> card (A :: u32 set) \<Longrightarrow> n \<in> A \<Longrightarrow> c \<le> card (A - {n})"
  by simp

text \<open>Allocation of a direct block or of the indirect block.\<close>

lemma alloc_addr:
  fixes s :: "'a fsk_scheme"
  assumes s: "stocked k st ip (Suc c) (m + 2) s" and i: "i \<le> NDIRECT" "i_addrs (icache s ! ip) ! i = 0"
  shows "\<exists>n s'. balloc ROOTDEV s = Inr (n, s') \<and> n \<noteq> 0 \<and>
    stocked k st ip c m (upd_inode ip (\<lambda>x. x\<lparr>i_addrs := (i_addrs x)[i := n]\<rparr>) s') \<and>
    kept ip 2 s (upd_inode ip (\<lambda>x. x\<lparr>i_addrs := (i_addrs x)[i := n]\<rparr>) s') \<and>
    i_addrs (icache (upd_inode ip (\<lambda>x. x\<lparr>i_addrs := (i_addrs x)[i := n]\<rparr>) s') ! ip) ! i = n"
proof -
  let ?x = "icache s ! ip"
  have S: "log_open k st s" "ip < length (icache s)" "file_inv (sb s) st k (blocks s) ?x" "locked_blocks s = {}"
    "quota (Suc c) s" "Suc c \<le> card (free_blks (sb s) (blocks s))" "card (in_tx s) + (m + 2) \<le> k - 1" "in_op s"
    using s by (simp_all add: stocked_def file_st_def)
  then have ne: "free_blks (sb s) (blocks s) \<noteq> {}" by auto
  from balloc_file [OF S(1,3) ne _ _ S(8,5)] S(4,7) obtain n s' cs where
    1: "n \<in> free_blks (sb s) (blocks s)" "balloc ROOTDEV s = Inr (n, s')" "log_open k st s'"
      "blocks s' = alloc_blk (sb s) n (blocks s)" "locked_blocks s' = {}" "in_tx s' = in_tx s \<union> {BBLOCK n (sb s), n}"
      "quota c s'" "log_frm s' = (log_frm s)\<lparr>conts := cs\<rparr>" "in_op s'" by auto
  have f: "icache s' = icache s" "sb s' = sb s"
    using arg_cong [where f = icache, OF 1(8)] arg_cong [where f = sb, OF 1(8)] by simp_all
  have sl: "i < NSLOT" "slot (blocks s) ?x i = 0" using i by (simp_all add: slot_def NSLOT_def NDIRECT_def)
  have g: "growable (sb s) st k (blocks s) ?x i n" using S(3) 1(1) sl i(1) by (simp add: growable_def)
  let ?s = "upd_inode ip (\<lambda>x. x\<lparr>i_addrs := (i_addrs x)[i := n]\<rparr>) s'"
  have x: "icache ?s = (icache s)[ip := grow_x i n ?x]" "blocks ?s = grow_d (sb s) i n ?x (blocks s)" "sb ?s = sb s"
    "in_tx ?s = in_tx s'" "quota c ?s" "log_open k st ?s" "locked_blocks ?s = {}" "in_op ?s"
    using i(1) f 1(3,4,5,7,9) by (simp_all add: upd_inode_def grow_x_def grow_d_def)
  have c: "card (in_tx s') \<le> card (in_tx s) + 2" unfolding 1(6) using card_Un_le [of "in_tx s" "{BBLOCK n (sb s), n}"]
    by (simp add: card_insert_if split: if_split_asm)
  have "stocked k st ip c m ?s"
    unfolding stocked_def file_st_def using x S(2,6,7) c file_inv_grow [OF g] free_grow [OF g] free_le_1 [OF S(6) 1(1)] by simp
  moreover have "kept ip 2 s ?s"
    unfolding kept_def using x c S(2) fdata_grow [OF g] slot_grow [OF g] fresh_block(2) [OF S(3) 1(1)] fframe_trans [OF fframe_conts [OF 1(8)] fframe_upd(1)]
    by (simp add: grow_x_def)
  moreover have "i_addrs (icache ?s ! ip) ! i = n" using x(1) S(2) i(1) file_invD(2) [OF S(3)] by (simp add: grow_x_def NDIRECT_def)
  ultimately show ?thesis using 1(2) fresh_block(2) [OF S(3) 1(1)] by blast
qed

text \<open>The part of \<open>bmap\<close> that looks up, and if need be allocates, entry \<open>j\<close> of the indirect block \<open>a\<close>.\<close>

lemma bmap_entry:
  fixes s :: "'a fsk_scheme"
  assumes s: "stocked k st ip (Suc c) (m + 3) s" and a: "a = i_addrs (icache s ! ip) ! NDIRECT" "a \<noteq> 0" and j: "j < NINDIRECT"
  shows "\<exists>e s'. bindE (bread ROOTDEV a s) (\<lambda>(bp, s).
      let addr = get32 (bio_get bp s) (4 * j) in
      bindE (if addr = 0 then
          bindE (balloc ROOTDEV s) (\<lambda>(addr, s).
          let s = bio_put bp (put32 (bio_get bp s) (4 * j) addr) s in
          bindE (log_write bp s) (\<lambda>s. Inr (addr, s)))
        else Inr (addr, s)) (\<lambda>(addr, s).
      bindE (brelse bp s) (\<lambda>s. Inr (addr, s)))) = Inr (e, s') \<and>
    e \<noteq> 0 \<and> stocked k st ip c m s' \<and> kept ip 3 s s' \<and> slot (blocks s') (icache s' ! ip) (NDIRECT + 1 + j) = e"
proof -
  let ?x = "icache s ! ip" and ?i = "NDIRECT + 1 + j"
  have S: "log_open k st s" "ip < length (icache s)" "file_inv (sb s) st k (blocks s) ?x" "locked_blocks s = {}"
    "quota (Suc c) s" "Suc c \<le> card (free_blks (sb s) (blocks s))" "card (in_tx s) + (m + 3) \<le> k - 1" "in_op s"
    using s by (simp_all add: stocked_def file_st_def)
  have cs: "calm s" by (rule bio_invD(1) [OF log_openD(1) [OF S(1)]])
  have sl: "slot (blocks s) ?x NDIRECT = a" "slot (blocks s) ?x ?i = get32 (blocks s a) (4 * j)" "?i < NSLOT"
    using a j by (simp_all add: slot_def NSLOT_def NDIRECT_def NINDIRECT_def BSIZE_def)
  have meta: "a \<notin> meta (sb s) st k ?x" using file_invD(4) [OF S(3) NDIRECT_NSLOT] sl(1) a(2) by simp
  then have home: "a \<notin> log_area st k" using meta_simps(4) by blast
  from tl.read_law [OF S(1), of a] S(4,7) obtain bp s2 where 2: "bread ROOTDEV a s = Inr (bp, s2)" "log_open k st s2"
    "blocks s2 = blocks s" "locked_blocks s2 = {a}" "in_tx s2 = in_tx s" "log_frm s2 = log_frm s" "bio_holds s2 bp a" "in_op s2" using S(8) by auto
  note f2 = fs_frmD [OF 2(6)] and g2 = tl.get_law [OF 2(2,7), unfolded 2(3)]
  show ?thesis
  proof (cases "get32 (blocks s a) (4 * j) = 0")
    case False
    from tl.rel_law [OF 2(2,7)] 2(3-6) obtain s3 where 3: "brelse bp s2 = Inr s3" "log_open k st s3" "blocks s3 = blocks s"
      "locked_blocks s3 = {}" "in_tx s3 = in_tx s" "log_frm s3 = log_frm s" "in_op s3" using 2(8) by auto
    note f3 = fs_frmD [OF 3(6)]
    have "stocked k st ip c m s3"
      unfolding stocked_def file_st_def using 3 f3 S account_frm(2) [OF 3(6) cs, of "Suc c"] by (auto simp: quota_def split: option.splits)
    moreover have "kept ip 3 s s3" using 3 f3 fframe_same by (simp add: kept_def)
    ultimately show ?thesis using False 2(1) g2 3(1,3) f3(1) sl(2) by auto
  next
    case True
    have ne: "free_blks (sb s2) (blocks s2) \<noteq> {}" using S(6) 2(3) f2(2) by auto
    have q2: "quota (Suc c) s2" using account_frm(2) [OF 2(6) cs] S(5) by simp
    have inv2: "file_inv (sb s2) st k (blocks s2) ?x" using S(3) 2(3) f2(2) by simp
    have "\<exists>n s' cs. n \<in> free_blks (sb s2) (blocks s2) \<and> balloc ROOTDEV s2 = Inr (n, s') \<and> log_open k st s' \<and>
      blocks s' = alloc_blk (sb s2) n (blocks s2) \<and> locked_blocks s' = locked_blocks s2 \<and> in_tx s' = in_tx s2 \<union> {BBLOCK n (sb s2), n} \<and>
      in_op s' \<and> quota c s' \<and> log_frm s' = (log_frm s2)\<lparr>conts := cs\<rparr> \<and> (\<forall>a m. bio_holds s2 a m \<longrightarrow> bio_holds s' a m)"
      by (rule balloc_file [OF 2(2) inv2 ne _ _ 2(8) q2]) (use 2(3-5) S(7) a(2) sl(1) NDIRECT_NSLOT in auto)
    then obtain n s3 cs where 3: "n \<in> free_blks (sb s) (blocks s)" "balloc ROOTDEV s2 = Inr (n, s3)" "log_open k st s3"
      "blocks s3 = alloc_blk (sb s) n (blocks s)" "locked_blocks s3 = {a}" "in_tx s3 = in_tx s \<union> {BBLOCK n (sb s), n}"
      "quota c s3" "log_frm s3 = (log_frm s)\<lparr>conts := cs\<rparr>" "bio_holds s3 bp a" "in_op s3" using 2 f2 by auto
    let ?y = "put32 (blocks s3 a) (4 * j) n"
    have c3: "card (in_tx s3) \<le> card (in_tx s) + 2" unfolding 3(6) using card_Un_le [of "in_tx s" "{BBLOCK n (sb s), n}"]
      by (simp add: card_insert_if split: if_split_asm)
    have "length ?y = BSIZE" "card (in_tx s3) < k - 1" using tl.size_law [OF 3(3)] c3 S(7) by simp_all
    from tl.write_law [OF 3(3,9,10) home this] obtain s4 where 4: "log_write bp (bio_put bp ?y s3) = Inr s4" "log_open k st s4"
      "blocks s4 = (blocks s3)(a := ?y)" "locked_blocks s4 = {a}" "in_tx s4 = insert a (in_tx s3)" "log_frm s4 = log_frm s3"
      "bio_holds s4 bp a" "in_op s4" using 3(5,9) by auto
    from tl.rel_law [OF 4(2,7)] 4(3-6) obtain s5 where 5: "brelse bp s4 = Inr s5" "log_open k st s5" "blocks s5 = (blocks s3)(a := ?y)"
      "locked_blocks s5 = {}" "in_tx s5 = insert a (in_tx s3)" "log_frm s5 = log_frm s3" "in_op s5" using 4(8) by auto
    have f5: "icache s5 = icache s" "sb s5 = sb s"
      using arg_cong [where f = icache, OF 3(8)] arg_cong [where f = sb, OF 3(8)] fs_frmD(1,2) [OF 5(6)] by simp_all
    have g: "growable (sb s) st k (blocks s) ?x ?i n" using S(3) 3(1) sl True a by (simp add: growable_def)
    have x5: "blocks s5 = grow_d (sb s) ?i n ?x (blocks s)" "grow_x ?i n ?x = ?x"
      unfolding 5(3) 3(4) using a by (simp_all add: grow_d_def grow_x_def Let_def)
    have c5: "card (in_tx s5) \<le> card (in_tx s) + 3" using c3 5(5) by (simp add: card_insert_if)
    have "quota c s5" using account_frm(2) [OF 5(6) bio_invD(1) [OF log_openD(1) [OF 3(3)]]] 3(7) by simp
    then have "stocked k st ip c m s5"
      unfolding stocked_def file_st_def f5 x5(1)
      using 5(2,4,7) S(2,7) c5 file_inv_grow [OF g] free_grow [OF g] free_le_1 [OF S(6) 3(1)] x5(2) by simp
    moreover have "kept ip 3 s s5"
      unfolding kept_def f5 x5(1) using c5 fdata_grow [OF g] x5(2) slot_grow [OF g] fresh_block(2) [OF S(3) 3(1)] fframe_conts [where s' = s5 and s = s and cs = cs] 3(8) 5(6) by simp
    moreover have "slot (blocks s5) (icache s5 ! ip) ?i = n" unfolding f5 x5(1) using slot_grow [OF g sl(3)] x5(2) by simp
    moreover have "bio_get bp s3 = blocks s3 a" by (rule tl.get_law [OF 3(3,9)])
    ultimately show ?thesis
      using 2(1) 3(2) 4(1) 5(1) g2 True fresh_block(2) [OF S(3) 3(1)] by (intro exI [of _ n] exI [of _ s5]) simp
  qed
qed

lemma stocked_weaken: "stocked k st ip c m s \<Longrightarrow> c' \<le> c \<Longrightarrow> m' \<le> m \<Longrightarrow> stocked k st ip c' m' s"
  unfolding stocked_def quota_def by (auto split: option.splits) (meson add_left_mono le_trans mult_le_mono1)+

lemma kept_weaken: "kept ip m s s' \<Longrightarrow> m \<le> m' \<Longrightarrow> kept ip m' s s'"
  by (auto simp: kept_def)

text \<open>
  \<open>bmap\<close> returns the block of the file's block \<open>bn\<close>, allocating it, and the
  indirect block, where they are missing; no byte of the file changes.
\<close>

lemma bmap_ok:
  fixes s :: "'a fsk_scheme"
  assumes s: "stocked k st ip (c + 2) (m + 5) s" and bn: "unat bn < MAXFILE"
  shows "\<exists>a s'. bmap ip bn s = Inr (a, s') \<and> a \<noteq> 0 \<and> stocked k st ip c m s' \<and> kept ip 5 s s' \<and>
    slot (blocks s') (icache s' ! ip) (slot_of (unat bn)) = a"
proof -
  let ?x = "icache s ! ip"
  have S: "ip < length (icache s)" "file_inv (sb s) st k (blocks s) ?x" using s by (simp_all add: stocked_def file_st_def)
  note dev = file_invD(1) [OF S(2)]
  have s0: "stocked k st ip c m s" "stocked k st ip (Suc c) (m + 2) s" "stocked k st ip (Suc c) (m + 3) s"
    "stocked k st ip (Suc (Suc c)) (m + 3 + 2) s"
    using stocked_weaken [OF s] by simp_all
  have k0: "kept ip 0 s s" using fframe_same [OF refl] by (simp add: kept_def)
  show ?thesis
  proof (cases "unat bn < NDIRECT")
    case True
    then have so: "slot_of (unat bn) = unat bn" by (simp add: slot_of_def)
    show ?thesis
    proof (cases "i_addrs ?x ! unat bn = 0")
      case False
      then show ?thesis using True s0(1) kept_weaken [OF k0] so dev by (simp add: bmap_def Let_def slot_def)
    next
      case 0: True
      from alloc_addr [OF s0(2) less_imp_le [OF True] 0] obtain n s' where "balloc ROOTDEV s = Inr (n, s')" "n \<noteq> 0"
        "stocked k st ip c m (upd_inode ip (\<lambda>x. x\<lparr>i_addrs := (i_addrs x)[unat bn := n]\<rparr>) s')"
        "kept ip 2 s (upd_inode ip (\<lambda>x. x\<lparr>i_addrs := (i_addrs x)[unat bn := n]\<rparr>) s')"
        "i_addrs (icache (upd_inode ip (\<lambda>x. x\<lparr>i_addrs := (i_addrs x)[unat bn := n]\<rparr>) s') ! ip) ! unat bn = n" by blast
      then show ?thesis using True 0 so dev kept_weaken [of ip 2 s _ 5] by (simp add: bmap_def Let_def slot_def)
    qed
  next
    case False
    define j where "j = unat bn - NDIRECT"
    have j: "j < NINDIRECT" "\<not> unat bn < NDIRECT" "unat bn - NDIRECT < NINDIRECT" "slot_of (unat bn) = NDIRECT + 1 + j"
      using bn False by (auto simp: j_def MAXFILE_def slot_of_def)
    show ?thesis
    proof (cases "i_addrs ?x ! NDIRECT = 0")
      case a: False
      from bmap_entry [OF s0(3) refl a j(1)] j dev a kept_weaken [of ip 3 s _ 5] show ?thesis
        by (auto simp: bmap_def Let_def j_def [symmetric])
    next
      case 0: True
      from alloc_addr [OF s0(4) order_refl 0] obtain n s1 where 1: "balloc ROOTDEV s = Inr (n, s1)" "n \<noteq> 0"
        "stocked k st ip (Suc c) (m + 3) (upd_inode ip (\<lambda>x. x\<lparr>i_addrs := (i_addrs x)[NDIRECT := n]\<rparr>) s1)" (is "stocked _ _ _ _ _ ?s1")
        "kept ip 2 s (upd_inode ip (\<lambda>x. x\<lparr>i_addrs := (i_addrs x)[NDIRECT := n]\<rparr>) s1)"
        "i_addrs (icache (upd_inode ip (\<lambda>x. x\<lparr>i_addrs := (i_addrs x)[NDIRECT := n]\<rparr>) s1) ! ip) ! NDIRECT = n" by blast
      from bmap_entry [OF 1(3) 1(5) [symmetric] 1(2) j(1)] j dev 0 1(1) kept_trans [OF 1(4), of 3] show ?thesis
        by (auto simp: bmap_def Let_def j_def [symmetric])
    qed
  qed
qed

end
