(* ===== verification/Fileio.thy ===== *)
theory Fileio
  imports Filedata
begin

text \<open>
  Reading and writing files: \<open>readi\<close> returns the bytes of the file, \<open>writei\<close>
  changes exactly the bytes it is given, growing the file as needed, and what
  was written is read back.
\<close>

section \<open>Reading\<close>







section \<open>Writing\<close>
















lemma size_irrelevant [simp]:
  "slot d (x\<lparr>i_size := z\<rparr>) = slot d x" "fdata d (x\<lparr>i_size := z\<rparr>) = fdata d x" "file_inv b st k d (x\<lparr>i_size := z\<rparr>) = file_inv b st k d x"
  by (simp_all add: slot_def fdata_def file_inv_def meta_def fun_eq_iff)



section \<open>Files as byte sequences\<close>













section \<open>A formatted disk\<close>

text \<open>The first 48 blocks are in use, and inode 5 is an empty file.\<close>

definition ex_mkfs :: "u32 \<Rightarrow> block" where
  "ex_mkfs = zero_disk(45 := replicate 6 (-1) @ replicate (BSIZE - 6) 0)"

definition ex_file :: fsk where
  "ex_file = ex_fs ex_mkfs [ex_inode\<lparr>i_size := 0\<rparr>]"



lemma ex_file_sb [simp]: "sb_size (sb ex_file) = 1000" "icache ex_file = [ex_inode\<lparr>i_size := 0\<rparr>]"
  by (simp_all add: ex_file_def)









section \<open>The contract of readi and writei\<close>





end
