(* ===== verification/Pipe.thy ===== *)
theory Pipe
  imports Fs
begin

text \<open>
  Pipes (\<open>kernel/pipe.c\<close>), except \<open>pipealloc\<close>, which is with the file table.

  The pipe that lives in page \<open>pi\<close> is \<open>pipes s pi\<close>.  A read or write that
  calls \<open>sleep\<close> stops with the state at that call, pipe lock held, and
  continues from there when the process has been woken.
\<close>

section \<open>State\<close>

definition PIPESIZE :: nat where "PIPESIZE = 512"

record pipe =
  pi_data :: "u8 list"
  pi_nread :: u32
  pi_nwrite :: u32
  pi_readopen :: bool
  pi_writeopen :: bool

record pipek = fsk +
  pipes :: "u64 \<Rightarrow> pipe"

definition upd_pipe :: "u64 \<Rightarrow> (pipe \<Rightarrow> pipe) \<Rightarrow> 'a pipek_scheme \<Rightarrow> 'a pipek_scheme" where
  "upd_pipe p f s = s\<lparr>pipes := (pipes s)(p := f (pipes s p))\<rparr>"

text \<open>A call that returned, or that went to sleep on a channel.\<close>

datatype 'r outcome = Return 'r | Waits chan nat

definition mykilled :: "'a ktab_scheme \<Rightarrow> bool kres" where
  "mykilled s = (case curproc s of None \<Rightarrow> Inl Fault | Some p \<Rightarrow> Inr (p_killed (procs s ! p) \<noteq> 0))"

section \<open>The ring\<close>

definition pipe_full :: "pipe \<Rightarrow> bool" where
  "pipe_full p \<longleftrightarrow> pi_nwrite p = pi_nread p + of_nat PIPESIZE"

definition pipe_empty :: "pipe \<Rightarrow> bool" where
  "pipe_empty p \<longleftrightarrow> pi_nread p = pi_nwrite p"

text \<open>\<open>pi->data[pi->nwrite++ % PIPESIZE] = ch\<close> and \<open>ch = pi->data[pi->nread++ % PIPESIZE]\<close>\<close>

definition pipe_put :: "u8 \<Rightarrow> pipe \<Rightarrow> pipe" where
  "pipe_put ch p = p\<lparr>pi_data := (pi_data p)[unat (pi_nwrite p) mod PIPESIZE := ch], pi_nwrite := pi_nwrite p + 1\<rparr>"

definition pipe_head :: "pipe \<Rightarrow> u8" where
  "pipe_head p = pi_data p ! (unat (pi_nread p) mod PIPESIZE)"

definition pipe_pop :: "pipe \<Rightarrow> pipe" where
  "pipe_pop p = p\<lparr>pi_nread := pi_nread p + 1\<rparr>"

section \<open>Operations\<close>

definition pipeclose :: "u64 \<Rightarrow> bool \<Rightarrow> 'a pipek_scheme \<Rightarrow> 'a pipek_scheme kres" where
  "pipeclose pi writable s =
     bindE (acquire (LPipe pi) s) (\<lambda>s.
     bindE (if writable then
              wakeup (ChPipeRead pi) (upd_pipe pi (\<lambda>x. x\<lparr>pi_writeopen := False\<rparr>) s)
            else
              wakeup (ChPipeWrite pi) (upd_pipe pi (\<lambda>x. x\<lparr>pi_readopen := False\<rparr>) s)) (\<lambda>s.
     if \<not> pi_readopen (pipes s pi) \<and> \<not> pi_writeopen (pipes s pi) then
       bindE (release (LPipe pi) s) (\<lambda>s. kfree pi s)
     else release (LPipe pi) s))"

fun pipewrite_loop :: "u64 \<Rightarrow> u64 \<Rightarrow> int \<Rightarrow> nat list \<Rightarrow> 'a pipek_scheme \<Rightarrow> (int outcome \<times> 'a pipek_scheme) kres" where
  "pipewrite_loop pi addr n [] s =
     bindE (wakeup (ChPipeRead pi) s) (\<lambda>s.
     bindE (release (LPipe pi) s) (\<lambda>s. Inr (Return n, s)))"
| "pipewrite_loop pi addr n (i # is) s =
     (if pipe_full (pipes s pi) then
        bindE (mykilled s) (\<lambda>k.
        if \<not> pi_readopen (pipes s pi) \<or> k then
          bindE (release (LPipe pi) s) (\<lambda>s. Inr (Return (-1), s))
        else
          bindE (wakeup (ChPipeRead pi) s) (\<lambda>s. Inr (Waits (ChPipeWrite pi) i, s)))
      else
        bindE (mypagetable s) (\<lambda>pt.
        bindE (copyin pt (addr + of_nat i) 1 s) (\<lambda>(r, ch).
        if r = -1 then pipewrite_loop pi addr n [] s
        else pipewrite_loop pi addr n is (upd_pipe pi (pipe_put (hd ch)) s))))"

definition pipewrite :: "u64 \<Rightarrow> u64 \<Rightarrow> int \<Rightarrow> 'a pipek_scheme \<Rightarrow> (int outcome \<times> 'a pipek_scheme) kres" where
  "pipewrite pi addr n s =
     bindE (acquire (LPipe pi) s) (\<lambda>s. pipewrite_loop pi addr n [0..<nat n] s)"

text \<open>Where \<open>pipewrite\<close> goes on after it slept with \<open>i\<close> bytes written.\<close>

definition pipewrite_resume :: "u64 \<Rightarrow> u64 \<Rightarrow> int \<Rightarrow> nat \<Rightarrow> 'a pipek_scheme \<Rightarrow> (int outcome \<times> 'a pipek_scheme) kres" where
  "pipewrite_resume pi addr n i s = pipewrite_loop pi addr n [i..<nat n] s"

fun piperead_copy :: "u64 \<Rightarrow> u64 \<Rightarrow> nat list \<Rightarrow> nat \<Rightarrow> 'a pipek_scheme \<Rightarrow> (nat \<times> 'a pipek_scheme) kres" where
  "piperead_copy pi addr [] k s = Inr (k, s)"
| "piperead_copy pi addr (i # is) k s =
     (if pipe_empty (pipes s pi) then Inr (k, s)
      else
        let ch = pipe_head (pipes s pi); s = upd_pipe pi pipe_pop s in
        bindE (mypagetable s) (\<lambda>pt.
        bindE (copyout pt (addr + of_nat i) [ch] s) (\<lambda>(r, s).
        if r = -1 then Inr (k, s) else piperead_copy pi addr is (k + 1) s)))"

definition piperead_locked :: "u64 \<Rightarrow> u64 \<Rightarrow> int \<Rightarrow> 'a pipek_scheme \<Rightarrow> (int outcome \<times> 'a pipek_scheme) kres" where
  "piperead_locked pi addr n s =
     (if pipe_empty (pipes s pi) \<and> pi_writeopen (pipes s pi) then
        bindE (mykilled s) (\<lambda>k.
        if k then bindE (release (LPipe pi) s) (\<lambda>s. Inr (Return (-1), s))
        else Inr (Waits (ChPipeRead pi) 0, s))
      else
        bindE (piperead_copy pi addr [0..<nat n] 0 s) (\<lambda>(i, s).
        bindE (wakeup (ChPipeWrite pi) s) (\<lambda>s.
        bindE (release (LPipe pi) s) (\<lambda>s. Inr (Return (int i), s)))))"

definition piperead :: "u64 \<Rightarrow> u64 \<Rightarrow> int \<Rightarrow> 'a pipek_scheme \<Rightarrow> (int outcome \<times> 'a pipek_scheme) kres" where
  "piperead pi addr n s = bindE (acquire (LPipe pi) s) (\<lambda>s. piperead_locked pi addr n s)"

end
