(* ===== verification/Console.thy ===== *)
theory Console
  imports Pipe
begin

text \<open>
  The consoles (\<open>kernel/console.c\<close>): one line-edited input buffer per console
  device, of which one is active.  What is sent to the UART is recorded in
  \<open>uart\<close>, oldest byte first; the messages \<open>printf\<close> writes there are not.
\<close>

section \<open>State\<close>

definition NDEV :: nat where "NDEV = 10"
definition INPUT_BUF :: nat where "INPUT_BUF = 128"
definition BACKSPACE :: int where "BACKSPACE = 0x100"

record input =
  in_buf :: "u8 list"
  in_r :: u32
  in_w :: u32
  in_e :: u32

record consk = pipek +
  cons :: "input list"
  active :: nat
  uart :: "u8 list"

definition upd_cons :: "nat \<Rightarrow> (input \<Rightarrow> input) \<Rightarrow> 'a consk_scheme \<Rightarrow> 'a consk_scheme" where
  "upd_cons i f s = s\<lparr>cons := (cons s)[i := f (cons s ! i)]\<rparr>"

text \<open>\<open>C('D')\<close> and the other control characters.\<close>

definition ctrl :: "char \<Rightarrow> int" where
  "ctrl c = of_char c - of_char CHR ''@''"

definition NL :: int where "NL = 10"

section \<open>Output\<close>

definition uartputc :: "int \<Rightarrow> 'a consk_scheme \<Rightarrow> 'a consk_scheme" where
  "uartputc c s = s\<lparr>uart := uart s @ [word_of_int c]\<rparr>"

definition consputc :: "int \<Rightarrow> 'a consk_scheme \<Rightarrow> 'a consk_scheme" where
  "consputc c s =
     (if c = BACKSPACE then uartputc 8 (uartputc 32 (uartputc 8 s)) else uartputc c s)"

fun consolewrite_loop :: "nat \<Rightarrow> source \<Rightarrow> nat list \<Rightarrow> 'a consk_scheme \<Rightarrow> 'a consk_scheme kres" where
  "consolewrite_loop d src [] s = Inr s"
| "consolewrite_loop d src (i # is) s =
     bindE (either_copyin (source_add src i) 1 s) (\<lambda>(r, c).
     if r = -1 then Inr s
     else consolewrite_loop d src is (if d = active s then consputc (uint (hd c)) s else s))"

definition consolewrite :: "nat \<Rightarrow> source \<Rightarrow> int \<Rightarrow> 'a consk_scheme \<Rightarrow> (int \<times> 'a consk_scheme) kres" where
  "consolewrite d src n s =
     bindE (acquire (LCons d) s) (\<lambda>s.
     bindE (consolewrite_loop d src [0..<nat n] s) (\<lambda>s.
     bindE (release (LCons d) s) (\<lambda>s. Inr (n, s))))"

section \<open>Input\<close>

text \<open>
  The loop of \<open>consoleread\<close> with \<open>k\<close> bytes delivered and \<open>left\<close> still
  wanted; \<open>Waits\<close> says how many had been delivered when it went to sleep.
\<close>

fun consoleread_loop :: "nat \<Rightarrow> dest \<Rightarrow> nat \<Rightarrow> nat \<Rightarrow> 'a consk_scheme \<Rightarrow> (int outcome \<times> 'a consk_scheme) kres" where
  "consoleread_loop d dst k 0 s = bindE (release (LCons d) s) (\<lambda>s. Inr (Return (int k), s))"
| "consoleread_loop d dst k (Suc left) s =
     (let c = cons s ! d in
      if in_r c = in_w c then
        bindE (mykilled s) (\<lambda>killed.
        if killed then bindE (release (LCons d) s) (\<lambda>s. Inr (Return (-1), s))
        else Inr (Waits (ChCons d) k, s))
      else
        let ch = in_buf c ! (unat (in_r c) mod INPUT_BUF);
            s = upd_cons d (\<lambda>x. x\<lparr>in_r := in_r x + 1\<rparr>) s in
        if uint ch = ctrl CHR ''D'' then
          let s = (if 0 < k then upd_cons d (\<lambda>x. x\<lparr>in_r := in_r x - 1\<rparr>) s else s) in
          bindE (release (LCons d) s) (\<lambda>s. Inr (Return (int k), s))
        else
          bindE (either_copyout (dest_add dst k) [ch] s) (\<lambda>(r, s).
          if r = -1 then bindE (release (LCons d) s) (\<lambda>s. Inr (Return (int k), s))
          else if uint ch = NL then bindE (release (LCons d) s) (\<lambda>s. Inr (Return (int (k + 1)), s))
          else consoleread_loop d dst (k + 1) left s))"

definition consoleread :: "nat \<Rightarrow> dest \<Rightarrow> int \<Rightarrow> 'a consk_scheme \<Rightarrow> (int outcome \<times> 'a consk_scheme) kres" where
  "consoleread d dst n s =
     bindE (acquire (LCons d) s) (\<lambda>s. consoleread_loop d dst 0 (nat n) s)"

definition nextconsole :: "'a consk_scheme \<Rightarrow> 'a consk_scheme" where
  "nextconsole s = s\<lparr>active := (active s + 1) mod NDEV\<rparr>"

definition prevconsole :: "'a consk_scheme \<Rightarrow> 'a consk_scheme" where
  "prevconsole s = s\<lparr>active := if int (active s) - 1 < 0 then NDEV - 1 else (active s - 1) mod NDEV\<rparr>"

lemma cons_consputc [simp]: "cons (consputc c s) = cons s"
  by (simp add: consputc_def uartputc_def)

text \<open>Erase back to the start of the line.  Each round takes one byte from the edit region.\<close>

function kill_line :: "nat \<Rightarrow> 'a consk_scheme \<Rightarrow> 'a consk_scheme" where
  "kill_line d s =
     (let c = cons s ! d in
      if d < length (cons s) \<and> in_e c \<noteq> in_w c \<and> uint (in_buf c ! (unat (in_e c - 1) mod INPUT_BUF)) \<noteq> NL then
        kill_line d (consputc BACKSPACE (upd_cons d (\<lambda>x. x\<lparr>in_e := in_e x - 1\<rparr>) s))
      else s)"
  by pat_completeness auto

termination
proof (relation "measure (\<lambda>(d, s). unat (in_e (cons s ! d) - in_w (cons s ! d)))", goal_cases)
  case (2 d s x)
  let ?e = "in_e (cons s ! d)" and ?w = "in_w (cons s ! d)"
  have "?e - ?w \<noteq> 0" using 2 by simp
  then have "unat (?e - ?w - 1) < unat (?e - ?w)" by (simp add: unat_minus_one unat_gt_0)
  then show ?case using 2 by (simp add: upd_cons_def algebra_simps)
qed simp

declare kill_line.simps [simp del]

definition consoleintr :: "int \<Rightarrow> 'a consk_scheme \<Rightarrow> 'a consk_scheme kres" where
  "consoleintr c s =
     (let d = active s in
      bindE (acquire (LCons d) s) (\<lambda>s.
      bindE (if c = ctrl CHR ''N'' \<or> c = ctrl CHR ''B'' \<or> c = ctrl CHR ''P'' then Inr s
        else if c = ctrl CHR ''U'' then Inr (kill_line d s)
        else if c = ctrl CHR ''H'' \<or> c = 0x7f then
          if in_e (cons s ! d) \<noteq> in_w (cons s ! d) then
            Inr (consputc BACKSPACE (upd_cons d (\<lambda>x. x\<lparr>in_e := in_e x - 1\<rparr>) s))
          else Inr s
        else if c \<noteq> 0 \<and> unat (in_e (cons s ! d) - in_r (cons s ! d)) < INPUT_BUF then
          let c = (if c = 13 then NL else c);
              s = consputc c s;
              s = upd_cons d (\<lambda>x. x\<lparr>in_buf := (in_buf x)[unat (in_e x) mod INPUT_BUF := word_of_int c],
                    in_e := in_e x + 1\<rparr>) s in
          if c = NL \<or> c = ctrl CHR ''D'' \<or> in_e (cons s ! d) = in_r (cons s ! d) + of_nat INPUT_BUF then
            wakeup (ChCons d) (upd_cons d (\<lambda>x. x\<lparr>in_w := in_e x\<rparr>) s)
          else Inr s
        else Inr s) (\<lambda>s.
      bindE (release (LCons d) s) (\<lambda>s.
      Inr (if c = ctrl CHR ''N'' then nextconsole s else if c = ctrl CHR ''B'' then prevconsole s else s)))))"

definition consoleinit :: "'a consk_scheme \<Rightarrow> 'a consk_scheme" where
  "consoleinit s =
     (let s = fold (\<lambda>i s. upd_cons i (\<lambda>x. x\<lparr>in_r := 0, in_w := 0, in_e := 0\<rparr>) s) [0..<NDEV] s in
      s\<lparr>active := 1\<rparr>)"

end
