(* ===== verification/Ring.thy ===== *)
theory Ring
  imports Prelude
begin

text \<open>
  Ring buffers with free-running 32-bit counters, as pipes and consoles use
  them: the bytes between a read and a write counter are a queue, although
  the counters wrap around.
\<close>

section \<open>The bytes between two counters\<close>

definition ring_seq :: "nat \<Rightarrow> 'a list \<Rightarrow> u32 \<Rightarrow> u32 \<Rightarrow> 'a list" where
  "ring_seq N d r w = map (\<lambda>i. d ! (unat (r + of_nat i) mod N)) [0..<unat (w - r)]"

lemma length_ring_seq [simp]: "length (ring_seq N d r w) = unat (w - r)"
  by (simp add: ring_seq_def)

lemma ring_index: "N dvd 2 ^ 32 \<Longrightarrow> unat (r + of_nat i :: u32) mod N = (unat r + i) mod N"
  by (simp add: unat_word_ariths unat_of_nat mod_mod_cancel) (metis mod_add_right_eq mod_mod_cancel)

lemma u32_of_nat_eq: "a < 2 ^ 32 \<Longrightarrow> b < 2 ^ 32 \<Longrightarrow> (of_nat a :: u32) = of_nat b \<longleftrightarrow> a = b"
  by (simp add: word_unat_eq_iff unat_of_nat)

lemma ring_eq_Nil: "ring_seq N d r w = [] \<longleftrightarrow> r = w"
  by (auto simp: ring_seq_def unat_eq_zero)

text \<open>Writing at the end.\<close>

lemma ring_snoc:
  assumes N: "N dvd 2 ^ 32" "length d = N" "N < 2 ^ 32" and room: "unat (w - r) < N"
  shows "ring_seq N (d[unat w mod N := c]) r (w + 1) = ring_seq N d r w @ [c]"
proof -
  define k where "k = unat (w - r)"
  have N0: "0 < N" using room by simp
  have w: "w = r + of_nat k" by (simp add: k_def)
  have wi: "unat w mod N = (unat r + k) mod N" unfolding w by (rule ring_index [OF N(1)])
  have "unat (w - r + 1) = Suc k" using room N(3) by (subst unat_word_ariths) (simp add: k_def)
  then have Suc: "unat (w + 1 - r) = Suc k" by (simp add: algebra_simps)
  have "(d[unat w mod N := c]) ! (unat (r + of_nat i) mod N) = d ! (unat (r + of_nat i) mod N)" if "i < k" for i
  proof -
    have "(unat r + i) mod N \<noteq> (unat r + k) mod N"
    proof
      assume "(unat r + i) mod N = (unat r + k) mod N"
      then have "N dvd (unat r + k) - (unat r + i)" using that mod_eq_dvd_iff_nat [of "unat r + i" "unat r + k" N] by (simp add: eq_commute)
      then show False using that room dvd_imp_le [of N "k - i"] by (simp add: k_def)
    qed
    then show ?thesis unfolding wi ring_index [OF N(1)] by simp
  qed
  moreover have "(d[unat w mod N := c]) ! (unat (r + of_nat k) mod N) = c" unfolding w [symmetric] using N(2) N0(1) by simp
  ultimately show ?thesis unfolding ring_seq_def Suc k_def [symmetric] by simp
qed

text \<open>Reading at the front.\<close>

lemma ring_Cons:
  assumes "r \<noteq> w"
  shows "ring_seq N d r w = d ! (unat r mod N) # ring_seq N d (r + 1) w"
proof -
  have nz: "w - r \<noteq> 0" using assms by simp
  then have "0 < unat (w - r)" by (simp add: unat_gt_0)
  then have "unat (w - r) = Suc (unat (w - r - 1))" unfolding unat_minus_one [OF nz] by linarith
  then have k: "unat (w - r) = Suc (unat (w - (r + 1)))" by (simp only: diff_diff_eq)
  show ?thesis unfolding ring_seq_def k by (simp add: upt_conv_Cons map_Suc_upt [symmetric] del: upt_Suc) (simp add: add.assoc)
qed

text \<open>A third counter between the two splits the queue; taking back the last item.\<close>

lemma unat_ring_add:
  fixes r w e :: u32
  assumes "unat (w - r) \<le> unat (e - r)"
  shows "unat (e - r) = unat (w - r) + unat (e - w)"
proof -
  have "unat ((e - r) - (w - r)) = unat (e - r) - unat (w - r)" using assms by (intro unat_sub) (simp add: word_le_nat_alt)
  moreover have "(e - r) - (w - r) = e - w" by simp
  ultimately show ?thesis using assms by simp
qed

lemma ring_append:
  assumes "unat (w - r) \<le> unat (e - r)"
  shows "ring_seq N d r e = ring_seq N d r w @ ring_seq N d w e"
proof (rule nth_equalityI)
  show "length (ring_seq N d r e) = length (ring_seq N d r w @ ring_seq N d w e)" using unat_ring_add [OF assms] by simp
  fix i assume i: "i < length (ring_seq N d r e)"
  show "ring_seq N d r e ! i = (ring_seq N d r w @ ring_seq N d w e) ! i"
  proof (cases "i < unat (w - r)")
    case False
    then have "w + of_nat (i - unat (w - r)) = r + of_nat i" by (simp add: of_nat_diff)
    then show ?thesis using False i unat_ring_add [OF assms] by (simp add: ring_seq_def nth_append add.commute)
  qed (use i in \<open>simp add: ring_seq_def nth_append\<close>)
qed

lemma ring_butlast:
  assumes "w \<noteq> e"
  shows "ring_seq N d w (e - 1) = butlast (ring_seq N d w e)" "last (ring_seq N d w e) = d ! (unat (e - 1) mod N)"
proof -
  have nz: "e - w \<noteq> 0" using assms by simp
  then have "0 < unat (e - w)" by (simp add: unat_gt_0)
  then have "unat (e - w) = Suc (unat (e - w - 1))" unfolding unat_minus_one [OF nz] by linarith
  moreover have "e - w - 1 = e - 1 - w" by simp
  ultimately have k: "unat (e - w) = Suc (unat (e - 1 - w))" by simp
  have "w + of_nat (unat (e - 1 - w)) = e - 1" by simp
  then have "ring_seq N d w e = ring_seq N d w (e - 1) @ [d ! (unat (e - 1) mod N)]" unfolding ring_seq_def k by simp
  then show "ring_seq N d w (e - 1) = butlast (ring_seq N d w e)" "last (ring_seq N d w e) = d ! (unat (e - 1) mod N)" by simp_all
qed

section \<open>Bounded queues\<close>

text \<open>
  What the users of a ring rely on: the stored items, seen as a list, grow at
  the end as long as there is room and are taken from the front.
\<close>

locale fifo =
  fixes items :: "'q \<Rightarrow> 'a list" and ok :: "'q \<Rightarrow> bool" and cap :: nat
    and put :: "'a \<Rightarrow> 'q \<Rightarrow> 'q" and front :: "'q \<Rightarrow> 'a" and pop :: "'q \<Rightarrow> 'q"
  assumes put_items: "ok q \<Longrightarrow> length (items q) < cap \<Longrightarrow> items (put c q) = items q @ [c]"
    and put_ok: "ok q \<Longrightarrow> length (items q) < cap \<Longrightarrow> ok (put c q)"
    and front_items: "ok q \<Longrightarrow> items q \<noteq> [] \<Longrightarrow> items q = front q # items (pop q)"
    and pop_ok: "ok q \<Longrightarrow> items q \<noteq> [] \<Longrightarrow> ok (pop q)"
begin

lemma puts:
  "ok q \<Longrightarrow> length (items q) + length cs \<le> cap \<Longrightarrow> items (fold put cs q) = items q @ cs \<and> ok (fold put cs q)"
  by (induction cs arbitrary: q) (auto simp: put_items put_ok)

lemma pops:
  "ok q \<Longrightarrow> n \<le> length (items q) \<Longrightarrow> items ((pop ^^ n) q) = drop n (items q) \<and> ok ((pop ^^ n) q)"
proof (induction n arbitrary: q)
  case (Suc n)
  then have ne: "items q \<noteq> []" by auto
  have "n \<le> length (items (pop q))" using Suc.prems(2) front_items [OF Suc.prems(1) ne] by (metis Suc_le_mono length_Cons)
  from Suc.IH [OF pop_ok [OF Suc.prems(1) ne] this] show ?case
    using front_items [OF Suc.prems(1) ne] by (metis drop_Suc_Cons comp_apply funpow_Suc_right)
qed simp

end

end
