(* ===== verification/Pgtab.thy ===== *)
theory Pgtab
  imports Vm
begin

text \<open>
  Page tables as maps: a table is a tree of pages, followed here from the
  root by the indices of an address; \<open>pte\<close> is the entry \<open>walk\<close> finds for an
  address.  Storing an entry changes the map at that address only, and adding
  an empty table page does not change it at all.
\<close>

section \<open>Pages\<close>

text \<open>Alignment is kept as a remainder.\<close>

declare mod_0_imp_dvd [rule del]

definition same_page :: "memory \<Rightarrow> memory \<Rightarrow> u64 \<Rightarrow> bool" where
  "same_page m m' p \<longleftrightarrow> (\<forall>i<4096. m' (p + of_nat i) = m (p + of_nat i))"

lemma same_page_refl [simp]: "same_page m m p"
  by (simp add: same_page_def)

lemma same_page_trans: "same_page m m1 p \<Longrightarrow> same_page m1 m2 p \<Longrightarrow> same_page m m2 p"
  by (simp add: same_page_def)

lemma same_page_memset:
  assumes "p mod PGSIZE = 0" "q mod PGSIZE = 0" "p \<noteq> q"
  shows "same_page m (memset m q c 4096) p"
  unfolding same_page_def using page_apart [OF assms(2,1)] assms(3) by (force simp: memset_apply)

definition entry :: "memory \<Rightarrow> u64 \<Rightarrow> u64 \<Rightarrow> u64" where
  "entry m t k = load64 m (t + 8 * k)"

lemma unat_slot:
  fixes k :: u64
  assumes "k < 512" and "i < 8"
  shows "8 * k + of_nat i = of_nat (8 * unat k + i)" "8 * unat k + i < 4096"
  using assms by (simp_all add: word_less_nat_alt)

lemma entry_same: "same_page m m' t \<Longrightarrow> k < 512 \<Longrightarrow> entry m' t k = entry m t k"
  unfolding entry_def
proof (rule load64_cong)
  fix i :: nat
  assume "same_page m m' t" "k < 512" "i < 8"
  then have "m' (t + (8 * k + of_nat i)) = m (t + (8 * k + of_nat i))"
    unfolding unat_slot(1) [OF \<open>k < 512\<close> \<open>i < 8\<close>] by (simp only: same_page_def unat_slot(2))
  then show "m' (t + 8 * k + of_nat i) = m (t + 8 * k + of_nat i)" by (simp only: add.assoc)
qed

lemma unat_slot_diff:
  fixes k j :: u64
  assumes "k < 512" "j < 512" "k \<noteq> j"
  shows "8 \<le> unat (8 * k - 8 * j)"
proof (cases "j \<le> k")
  case True
  then have "8 * j \<le> 8 * k" "unat (8 * k) = 8 * unat k" "unat (8 * j) = 8 * unat j"
    using assms by (simp_all add: word_le_nat_alt word_less_nat_alt unat_word_ariths)
  moreover have "unat j < unat k" using True assms(3) by (simp add: word_le_nat_alt word_unat_eq_iff)
  ultimately show ?thesis by (simp add: unat_sub)
next
  case False
  then have "8 * k < 8 * j" "unat (8 * k) = 8 * unat k" "unat (8 * j) = 8 * unat j"
    using assms by (simp_all add: word_le_nat_alt word_less_nat_alt unat_word_ariths)
  then show ?thesis using assms(1,2) by (simp add: unat_diff_wrap_u64 word_less_nat_alt)
qed

lemma entry_store:
  assumes "k < 512" "j < 512"
  shows "entry (store64 m (t + 8 * k) v) t j = (if j = k then v else entry m t j)"
  using assms unat_slot_diff [of k j] unat_slot_diff [of j k] by (simp add: entry_def load64_store64_other)

lemma store_apart:
  assumes "p mod PGSIZE = 0" "t mod PGSIZE = 0" "p \<noteq> t" "k < (512 :: u64)" "i < 4096"
  shows "8 \<le> unat (p + of_nat i - (t + 8 * k))"
proof (rule ccontr)
  let ?x = "p + of_nat i - (t + 8 * k)"
  assume "\<not> ?thesis"
  then have x: "unat ?x < 8" by simp
  note u = unat_slot [OF assms(4) x]
  have e: "p + of_nat i - t = 8 * k + of_nat (unat ?x)" by simp
  have "unat (p + of_nat i - t) < 4096" unfolding e u(1) using u(2) by (subst unat_of_nat_u64) simp_all
  with page_apart [OF assms(2,1) assms(3) [symmetric] assms(5)] show False by simp
qed

lemma same_page_store:
  assumes "p mod PGSIZE = 0" "t mod PGSIZE = 0" "p \<noteq> t" "k < (512 :: u64)"
  shows "same_page m (store64 m (t + 8 * k) v) p"
  unfolding same_page_def using store_apart [OF assms] by (force simp: store64_apply)

lemma entry_memset: "k < 512 \<Longrightarrow> entry (memset m p 0 4096) p k = 0"
proof -
  assume k: "k < 512"
  have "load64 (memset m p 0 4096) (p + 8 * k) = load64 (\<lambda>_. 0) 0"
  proof (rule load64_cong)
    fix i :: nat assume "i < 8"
    note u = unat_slot [OF k this]
    have "unat (8 * k + of_nat i) < 4096" unfolding u(1) using u(2) by (subst unat_of_nat_u64) simp_all
    moreover have "p + 8 * k + of_nat i - p = 8 * k + of_nat i" by simp
    ultimately show "memset m p 0 4096 (p + 8 * k + of_nat i) = 0" by (subst memset_apply) simp_all
  qed
  also have "\<dots> = 0" by (simp add: load64_def upt8)
  finally show ?thesis by (simp add: entry_def)
qed

section \<open>The tree\<close>

abbreviation valid_pte :: "u64 \<Rightarrow> bool" where
  "valid_pte e \<equiv> e AND PTE_V \<noteq> 0"

text \<open>The page reached from \<open>t\<close> by the indices \<open>ks\<close>.\<close>

fun node :: "memory \<Rightarrow> u64 \<Rightarrow> u64 list \<Rightarrow> u64 option" where
  "node m t [] = Some t"
| "node m t (k # ks) = (if valid_pte (entry m t k) then node m (PTE2PA (entry m t k)) ks else None)"

lemma node_snoc:
  "node m t (ks @ [k]) = (case node m t ks of None \<Rightarrow> None
     | Some u \<Rightarrow> if valid_pte (entry m u k) then Some (PTE2PA (entry m u k)) else None)"
  by (induction ks arbitrary: t) auto

declare node.simps(2) [simp del]

definition key :: "u64 list \<Rightarrow> bool" where
  "key ks \<longleftrightarrow> length ks \<le> 2 \<and> (\<forall>k\<in>set ks. k < 512)"

definition tables :: "memory \<Rightarrow> u64 \<Rightarrow> u64 set" where
  "tables m pt = {t. \<exists>ks. key ks \<and> node m pt ks = Some t}"

text \<open>Table pages are pages of RAM, and each is reached in one way.\<close>

definition pt_ok :: "memory \<Rightarrow> u64 \<Rightarrow> bool" where
  "pt_ok m pt \<longleftrightarrow> (\<forall>t\<in>tables m pt. page_ok KERNBASE t) \<and>
     (\<forall>ks js t. key ks \<longrightarrow> key js \<longrightarrow> node m pt ks = Some t \<longrightarrow> node m pt js = Some t \<longrightarrow> ks = js)"

definition pte :: "memory \<Rightarrow> u64 \<Rightarrow> u64 \<Rightarrow> u64" where
  "pte m pt va = (case node m pt [PX 2 va, PX 1 va] of None \<Rightarrow> 0 | Some t \<Rightarrow> entry m t (PX 0 va))"

lemma PX_less: "PX l va < 512"
  using take_bit_nat_less_exp [of 9 "unat (drop_bit (12 + 9 * l) va)"]
  by (simp add: PX_eq word_less_nat_alt unsigned_take_bit_eq)

lemma key_simps [simp]: "key []" "key [k] \<longleftrightarrow> k < 512" "key [k, j] \<longleftrightarrow> k < 512 \<and> j < 512"
    "key (ks @ [k]) \<longleftrightarrow> length ks \<le> 1 \<and> key ks \<and> k < 512" "\<not> key (i # j # k # ks)"
  by (auto simp: key_def)

lemma key_PX [simp]: "key [PX l va, PX k va]"
  by (simp add: PX_less)

lemma node_table: "key ks \<Longrightarrow> node m pt ks = Some t \<Longrightarrow> t \<in> tables m pt"
  by (auto simp: tables_def)

lemma pt_okD:
  assumes "pt_ok m pt" and "key ks" "node m pt ks = Some t"
  shows "t \<in> tables m pt" "page_ok KERNBASE t" "t mod PGSIZE = 0" "key js \<Longrightarrow> node m pt js = Some t \<Longrightarrow> js = ks"
  using assms unfolding pt_ok_def tables_def page_ok_def by blast+

lemma pt_root [simp]: "pt \<in> tables m pt"
  unfolding tables_def using node.simps(1) key_simps(1) by blast

lemma table_page: "pt_ok m pt \<Longrightarrow> t \<in> tables m pt \<Longrightarrow> page_ok KERNBASE t \<and> t mod PGSIZE = 0"
  by (auto simp: pt_ok_def page_ok_def)

text \<open>Memory may change outside the tables.\<close>

lemma node_frame:
  assumes "\<And>t. t \<in> tables m pt \<Longrightarrow> same_page m m' t" and "key ks"
  shows "node m' pt ks = node m pt ks"
  using assms(2)
proof (induction ks rule: rev_induct)
  case (snoc k ks)
  have "entry m' t k = entry m t k" if "node m pt ks = Some t" for t
    using snoc.prems assms(1) node_table [OF _ that] by (intro entry_same) auto
  then show ?case using snoc by (simp add: node_snoc split: option.split)
qed simp

lemma pte_frame:
  assumes "\<And>t. t \<in> tables m pt \<Longrightarrow> same_page m m' t"
  shows "tables m' pt = tables m pt" "pt_ok m' pt = pt_ok m pt" "pte m' pt va = pte m pt va"
proof -
  have n: "node m' pt ks = node m pt ks" if "key ks" for ks using node_frame [OF assms that] .
  then show t: "tables m' pt = tables m pt" by (auto simp: tables_def)
  show "pt_ok m' pt = pt_ok m pt" unfolding pt_ok_def t using n by (simp cong: imp_cong)
  have "entry m' t (PX 0 va) = entry m t (PX 0 va)" if "node m pt [PX 2 va, PX 1 va] = Some t" for t
    using node_table [OF key_PX that] assms PX_less by (intro entry_same) auto
  then show "pte m' pt va = pte m pt va" using n [OF key_PX] by (simp add: pte_def split: option.split)
qed

text \<open>Storing an entry in a last-level table.\<close>

lemma node_leaf:
  assumes ok: "pt_ok m pt" and t: "node m pt [i, j] = Some t" "i < 512" "j < 512" "k < 512" and "key ks"
  shows "node (store64 m (t + 8 * k) v) pt ks = node m pt ks"
  using assms(6)
proof (induction ks rule: rev_induct)
  case (snoc l ks)
  have "entry (store64 m (t + 8 * k) v) u l = entry m u l" if u: "node m pt ks = Some u" for u
  proof -
    have "u \<noteq> t" using pt_okD(4) [OF ok _ t(1), of ks] u t snoc.prems by auto
    then show ?thesis using snoc.prems pt_okD(3) [OF ok _ u] pt_okD(3) [OF ok _ t(1)] t by (intro entry_same same_page_store) auto
  qed
  then show ?case using snoc by (simp add: node_snoc split: option.split)
qed simp

lemma pte_leaf:
  fixes v :: u64
  assumes ok: "pt_ok m pt" and t: "node m pt [i, j] = Some t" "i < 512" "j < 512" "k < 512"
  defines "m' \<equiv> store64 m (t + 8 * k) v"
  shows "pt_ok m' pt" "tables m' pt = tables m pt"
    "pte m' pt va = (if PX 2 va = i \<and> PX 1 va = j \<and> PX 0 va = k then v else pte m pt va)"
proof -
  have n: "node m' pt ks = node m pt ks" if "key ks" for ks unfolding m'_def using node_leaf [OF ok t that] .
  then show tb: "tables m' pt = tables m pt" by (auto simp: tables_def)
  show "pt_ok m' pt" using ok unfolding pt_ok_def tb using n by (simp cong: imp_cong)
  have "entry m' u (PX 0 va) = (if u = t \<and> PX 0 va = k then v else entry m u (PX 0 va))" if u: "node m pt [PX 2 va, PX 1 va] = Some u" for u
  proof (cases "u = t")
    case True
    then show ?thesis using entry_store [OF t(4) PX_less] by (simp add: m'_def)
  next
    case False
    have "same_page m m' u"
      unfolding m'_def using pt_okD(3) [OF ok key_PX u] pt_okD(3) [OF ok _ t(1)] t(2-4) by (intro same_page_store False) simp_all
    then show ?thesis using False entry_same PX_less by simp
  qed
  moreover have "u = t \<longleftrightarrow> PX 2 va = i \<and> PX 1 va = j" if u: "node m pt [PX 2 va, PX 1 va] = Some u" for u
  proof
    assume e: "u = t"
    have "key [i, j]" using t(2,3) by simp
    from pt_okD(4) [OF ok this t(1) key_PX, of 2 va 1] u e show "PX 2 va = i \<and> PX 1 va = j" by simp
  next
    assume "PX 2 va = i \<and> PX 1 va = j"
    then show "u = t" using u t(1) by simp
  qed
  ultimately show "pte m' pt va = (if PX 2 va = i \<and> PX 1 va = j \<and> PX 0 va = k then v else pte m pt va)"
    using n [OF key_PX, of 2 va 1] t(1) by (cases "node m pt [PX 2 va, PX 1 va]") (auto simp: pte_def)
qed

text \<open>Hanging a cleared page \<open>p\<close> below the table reached by \<open>ks\<close>.\<close>

lemma new_pte: "page_ok KERNBASE p \<Longrightarrow> PTE2PA (PA2PTE p OR PTE_V) = p" "valid_pte (x OR PTE_V)"
proof -
  assume p: "page_ok KERNBASE p"
  have "p < 2 ^ 32" using p by (simp add: page_ok_def PHYSTOP_def KERNBASE_def word_less_nat_alt)
  then have "unat p < 2 ^ 56" by (simp add: word_less_nat_alt)
  then have "take_bit 56 p = p" by (metis take_bit_nat_eq_self unsigned_take_bit_eq unsigned_word_eqI)
  moreover have "take_bit 12 p = 0" using p by (simp add: page_ok_def PGSIZE_def take_bit_eq_mod)
  moreover have "take_bit 10 PTE_V = PTE_V" by (simp add: PTE_V_def)
  ultimately show "PTE2PA (PA2PTE p OR PTE_V) = p" by (simp add: PTE2PA_or_flags PTE2PA_PA2PTE)
next
  have "bit ((x OR PTE_V) AND PTE_V) 0" by (simp add: bit_simps PTE_V_def)
  then show "valid_pte (x OR PTE_V)" by auto
qed

lemma node_new:
  assumes ok: "pt_ok m pt" and t: "node m pt ks = Some t" "key ks" "length ks \<le> 1" "k < 512" "\<not> valid_pte (entry m t k)"
    and p: "page_ok KERNBASE p" "p \<notin> tables m pt"
    and m': "m' = store64 (memset m p 0 4096) (t + 8 * k) (PA2PTE p OR PTE_V)" and js: "key js"
  shows "node m' pt js = (if js = ks @ [k] then Some p else node m pt js)"
  using js
proof (induction js rule: rev_induct)
  case (snoc j js)
  have pt: "p \<noteq> t" "p mod PGSIZE = 0" "t mod PGSIZE = 0" using p pt_okD(1,3) [OF ok t(2,1)] by (auto simp: page_ok_def)
  have j: "j < 512" "key js" "length js \<le> 1" using snoc.prems by simp_all
  show ?case
  proof (cases "js = ks @ [k]")
    case True
    have "node m pt js = None" unfolding True using t(1,5) by (simp add: node_snoc)
    moreover have "entry m' p j = 0"
      unfolding m' using entry_same [OF same_page_store [OF pt(2,3,1) t(4)] j(1)] entry_memset [OF j(1)] by simp
    moreover have "node m' pt js = Some p" using snoc.IH [OF j(2)] True by simp
    moreover have "js @ [j] \<noteq> ks @ [k]" using True by simp
    ultimately show ?thesis unfolding node_snoc [of _ _ js] by simp
  next
    case False
    then have e: "node m' pt js = node m pt js" using snoc.IH [OF j(2)] by simp
    have "entry m' u j = (if js = ks \<and> j = k then PA2PTE p OR PTE_V else entry m u j)" if u: "node m pt js = Some u" for u
    proof -
      note U = pt_okD [OF ok j(2) u]
      have "u \<noteq> p" using U(1) p(2) by auto
      then have s: "same_page m (memset m p 0 4096) u" using U(3) pt(2) by (intro same_page_memset)
      show ?thesis
      proof (cases "u = t")
        case True
        then have "js = ks" using U(4) t(1,2) by simp
        then show ?thesis unfolding m' True using entry_store [OF t(4) j(1)] entry_same [OF s j(1)] True by simp
      next
        case ne: False
        then have "js \<noteq> ks" using u t(1) by auto
        moreover have "entry m' u j = entry m u j"
          unfolding m' using entry_same [OF same_page_store [OF U(3) pt(3) ne t(4)] j(1)] entry_same [OF s j(1)] by simp
        ultimately show ?thesis by simp
      qed
    qed
    then show ?thesis using e t(1) new_pte(1) [OF p(1)] new_pte(2) by (auto simp: node_snoc split: option.split)
  qed
qed (use m' in simp)

lemma pte_new:
  assumes ok: "pt_ok m pt" and t: "node m pt ks = Some t" "key ks" "length ks \<le> 1" "k < 512" "\<not> valid_pte (entry m t k)"
    and p: "page_ok KERNBASE p" "p \<notin> tables m pt"
    and m': "m' = store64 (memset m p 0 4096) (t + 8 * k) (PA2PTE p OR PTE_V)"
  shows "pt_ok m' pt" "tables m' pt = insert p (tables m pt)" "pte m' pt va = pte m pt va"
proof -
  note n = node_new [OF ok t p m']
  have k: "key (ks @ [k])" using t by simp
  have none: "node m pt (ks @ [k]) = None" using t by (simp add: node_snoc)
  show tb: "tables m' pt = insert p (tables m pt)"
  proof (intro subset_antisym subsetI)
    fix u assume "u \<in> tables m' pt"
    then show "u \<in> insert p (tables m pt)" using n by (auto simp: tables_def split: if_split_asm)
  next
    fix u assume "u \<in> insert p (tables m pt)"
    then consider "u = p" | js where "key js" "node m pt js = Some u" by (auto simp: tables_def)
    then show "u \<in> tables m' pt"
    proof cases
      case 1
      then show ?thesis using n [OF k] node_table [OF k] by simp
    next
      case 2
      then have "js \<noteq> ks @ [k]" using none by auto
      then show ?thesis using n [OF 2(1)] 2 node_table by simp
    qed
  qed
  show "pt_ok m' pt" unfolding pt_ok_def tb
    using ok p n none node_table by (auto simp: pt_ok_def split: if_split_asm)
  have pt: "p mod PGSIZE = 0" "t mod PGSIZE = 0" using p pt_okD(3) [OF ok t(2,1)] by (auto simp: page_ok_def)
  show "pte m' pt va = pte m pt va"
  proof (cases "[PX 2 va, PX 1 va] = ks @ [k]")
    case True
    have "p \<noteq> t" using p pt_okD(1) [OF ok t(2,1)] by auto
    then have "entry m' p (PX 0 va) = 0"
      unfolding m' using entry_same [OF same_page_store [OF pt _ t(4)] PX_less] entry_memset [OF PX_less] by simp
    then show ?thesis unfolding pte_def True using n [OF k] none by simp
  next
    case False
    have "entry m' u (PX 0 va) = entry m u (PX 0 va)" if u: "node m pt [PX 2 va, PX 1 va] = Some u" for u
    proof -
      note U = pt_okD [OF ok key_PX u]
      have "u \<noteq> t" using U(4) [OF t(2)] t(1,3) by auto
      then have "same_page (memset m p 0 4096) m' u" unfolding m' using U(3) pt t(4) by (intro same_page_store)
      moreover have "same_page m (memset m p 0 4096) u" using U(1,3) p(2) pt(1) by (intro same_page_memset) auto
      ultimately show ?thesis using entry_same [OF _ PX_less] by simp
    qed
    moreover have "node m' pt [PX 2 va, PX 1 va] = node m pt [PX 2 va, PX 1 va]" using n [OF key_PX] False by (simp only: if_False)
    ultimately show ?thesis unfolding pte_def by (cases "node m pt [PX 2 va, PX 1 va]") simp_all
  qed
qed

section \<open>walk\<close>

lemma page_gap: "a mod 4096 = 0 \<Longrightarrow> b mod 4096 = 0 \<Longrightarrow> a < b \<Longrightarrow> a + 4096 \<le> (b :: nat)"
  by (auto elim!: dvdE simp: mod_eq_0_iff_dvd)

lemma entry_in_ram: "page_ok KERNBASE t \<Longrightarrow> k < 512 \<Longrightarrow> in_ram (t + 8 * k)"
proof -
  assume t: "page_ok KERNBASE t" and k: "k < 512"
  have "unat t mod 4096 = 0" using t by (simp add: page_ok_def unat_page_mod)
  moreover have "unat t < unat PHYSTOP" "unat PHYSTOP mod 4096 = 0" using t by (simp_all add: page_ok_def word_less_nat_alt PHYSTOP_def KERNBASE_def)
  ultimately have b: "unat t + 4096 \<le> unat PHYSTOP" by (intro page_gap)
  have "unat (8 * k) = 8 * unat k" "8 * unat k < 4096" using k by (simp_all add: word_less_nat_alt unat_word_ariths)
  then have "unat (t + 8 * k) = unat t + 8 * unat k" using b by (subst unat_add_u64) (simp_all add: PHYSTOP_def KERNBASE_def)
  then show ?thesis using t b \<open>8 * unat k < 4096\<close> by (simp add: in_ram_def page_ok_def word_le_nat_alt word_less_nat_alt)
qed

text \<open>Looking up: the address of the entry, or 0 where a table is missing.\<close>

definition pte_at :: "memory \<Rightarrow> u64 \<Rightarrow> u64 \<Rightarrow> u64" where
  "pte_at m pt va = (case node m pt [PX 2 va, PX 1 va] of None \<Rightarrow> 0 | Some t \<Rightarrow> t + 8 * PX 0 va)"

lemma rd64_entry: "page_ok KERNBASE t \<Longrightarrow> rd64 (t + 8 * PX l va) s = Inr (entry (mem s) t (PX l va))"
  using entry_in_ram PX_less by (simp add: rd64_def entry_def)

lemma walk_lookup:
  assumes "pt_ok (mem s) pt" and "va < MAXVA"
  shows "walk pt va False s = Inr (pte_at (mem s) pt va, s)"
proof -
  have r: "page_ok KERNBASE pt" using assms(1) table_page by simp
  have e1: "node (mem s) pt [PX 2 va] = (if valid_pte (entry (mem s) pt (PX 2 va)) then Some (PTE2PA (entry (mem s) pt (PX 2 va))) else None)"
    by (simp add: node.simps)
  have t: "page_ok KERNBASE t" if "node (mem s) pt [PX 2 va] = Some t" for t
    using pt_okD(2) [OF assms(1) _ that] PX_less by simp
  show ?thesis
    using assms(2) r t e1 by (simp add: walk_def numeral_2_eq_2 Let_def rd64_entry pte_at_def node.simps not_le)
qed

section \<open>walk that allocates\<close>

text \<open>What the allocator and page tables do not touch.\<close>

definition vm_frm :: "'a kmem_scheme \<Rightarrow> 'a kmem_scheme" where
  "vm_frm s = s\<lparr>mem := (\<lambda>_. 0), freelist := 0, conts := []\<rparr>"

lemma vm_frm_simps [simp]:
  "vm_frm (s\<lparr>mem := m\<rparr>) = vm_frm s" "vm_frm (s\<lparr>freelist := a\<rparr>) = vm_frm s" "vm_frm (s\<lparr>conts := c\<rparr>) = vm_frm s"
  "vm_frm (upd_cont i f s) = vm_frm s"
  by (simp_all add: vm_frm_def upd_cont_def)

lemma vm_frm_charge [simp]: "vm_frm (charge d s) = vm_frm s"
  by (simp add: charge_def updatecontmem_def Let_def split: option.split)

lemma kalloc_mem:
  assumes "free_pages s (p # ps)" and "can_alloc (Suc n) s"
  shows "\<exists>s'. kalloc s = Inr (p, s') \<and> free_pages s' ps \<and> can_alloc n s' \<and> kend s' = kend s \<and> mem s' = memset (mem s) p 5 4096 \<and>
    vm_frm s' = vm_frm s"
proof -
  have "freelist s = p" "p \<noteq> 0" using assms(1) by (auto simp: free_pages_def)
  then show ?thesis using kalloc_pages [OF assms] kalloc_eq [OF _ assms(2)] by auto
qed

lemma can_alloc_mono: "can_alloc n s \<Longrightarrow> k \<le> n \<Longrightarrow> can_alloc k s"
  unfolding can_alloc_def by (meson add_left_mono le_trans mult_le_mono2)

lemma memset_memset: "memset (memset m p c 4096) p d 4096 = memset m p d 4096"
  by (rule ext) (simp add: memset_apply)

text \<open>The free pages \<open>ps\<close> are none of the tables, and \<open>n\<close> of them may be taken.\<close>

definition vmst :: "u64 \<Rightarrow> nat \<Rightarrow> u64 list \<Rightarrow> 'a kmem_scheme \<Rightarrow> bool" where
  "vmst pt n ps s \<longleftrightarrow> pt_ok (mem s) pt \<and> free_pages s ps \<and> set ps \<inter> tables (mem s) pt = {} \<and> KERNBASE \<le> kend s \<and>
     can_alloc n s \<and> n \<le> length ps"

text \<open>From \<open>s\<close> to \<open>s'\<close> free pages have become tables, and nothing outside the tables has changed.\<close>

definition grows :: "u64 \<Rightarrow> u64 list \<Rightarrow> 'a kmem_scheme \<Rightarrow> u64 list \<Rightarrow> 'a kmem_scheme \<Rightarrow> bool" where
  "grows pt ps s ps' s' \<longleftrightarrow> (\<exists>us. ps = us @ ps' \<and> tables (mem s') pt = tables (mem s) pt \<union> set us) \<and>
     (\<forall>q. q mod PGSIZE = 0 \<longrightarrow> q \<notin> tables (mem s') pt \<longrightarrow> same_page (mem s) (mem s') q) \<and> vm_frm s' = vm_frm s \<and> kend s' = kend s"

lemma grows_refl [simp]: "grows pt ps s ps s"
  by (simp add: grows_def)

lemma grows_trans:
  assumes "grows pt ps s ps1 s1" and "grows pt ps1 s1 ps2 s2"
  shows "grows pt ps s ps2 s2"
proof -
  from assms obtain us vs where 1: "ps = us @ ps1" "tables (mem s1) pt = tables (mem s) pt \<union> set us"
    "ps1 = vs @ ps2" "tables (mem s2) pt = tables (mem s1) pt \<union> set vs" by (auto simp: grows_def)
  then have "ps = (us @ vs) @ ps2" "tables (mem s2) pt = tables (mem s) pt \<union> set (us @ vs)" by auto
  moreover have "same_page (mem s) (mem s2) q" if "q mod PGSIZE = 0" "q \<notin> tables (mem s2) pt" for q
  proof (rule same_page_trans)
    show "same_page (mem s) (mem s1) q" using assms(1) that 1(4) by (simp add: grows_def)
    show "same_page (mem s1) (mem s2) q" using assms(2) that by (simp add: grows_def)
  qed
  moreover have "vm_frm s2 = vm_frm s" "kend s2 = kend s" using assms by (simp_all add: grows_def)
  ultimately show ?thesis unfolding grows_def by blast
qed

lemma free_page_ok: "free_pages s ps \<Longrightarrow> KERNBASE \<le> kend s \<Longrightarrow> p \<in> set ps \<Longrightarrow> page_ok KERNBASE p"
  by (auto simp: free_pages_def list_all_iff page_ok_def)

text \<open>The free list survives stores to pages that are not on it.\<close>

lemma free_pages_cong:
  assumes "free_pages s ps" and "freelist s' = freelist s" "kend s' = kend s" and "\<And>p. p \<in> set ps \<Longrightarrow> same_page (mem s) (mem s') p"
  shows "free_pages s' ps"
proof -
  have "load64 (mem s') p = load64 (mem s) p" if "p \<in> set ps" for p
    using entry_same [OF assms(4) [OF that], of 0] by (simp add: entry_def)
  then show ?thesis using assms(1-3) flist_cong [of ps "mem s'" "mem s"] by (simp add: free_pages_def)
qed

lemma walk_step:
  assumes v: "vmst pt (Suc n) ps s" and t: "node (mem s) pt ks = Some t" "key ks" "length ks \<le> 1"
  shows "\<exists>t' ps' s'. walk_loop (Suc l) t va True s = walk_loop l t' va True s' \<and> node (mem s') pt (ks @ [PX (Suc l) va]) = Some t' \<and>
    vmst pt n ps' s' \<and> grows pt ps s ps' s' \<and> (\<forall>va. pte (mem s') pt va = pte (mem s) pt va)"
proof -
  let ?k = "PX (Suc l) va"
  let ?e = "entry (mem s) t ?k"
  have V: "pt_ok (mem s) pt" "free_pages s ps" "set ps \<inter> tables (mem s) pt = {}" "KERNBASE \<le> kend s" "can_alloc (Suc n) s" "Suc n \<le> length ps"
    using v by (simp_all add: vmst_def)
  note T = pt_okD [OF V(1) t(2,1)]
  have rd: "rd64 (t + 8 * ?k) s = Inr ?e" by (rule rd64_entry [OF T(2)])
  show ?thesis
  proof (cases "valid_pte ?e")
    case True
    then have "walk_loop (Suc l) t va True s = walk_loop l (PTE2PA ?e) va True s" using rd by (simp add: Let_def)
    moreover have "node (mem s) pt (ks @ [?k]) = Some (PTE2PA ?e)" using t(1) True by (simp add: node_snoc)
    moreover have "vmst pt n ps s" using V can_alloc_mono [OF V(5), of n] by (simp add: vmst_def)
    ultimately show ?thesis using grows_refl by blast
  next
    case False
    from V(6) obtain p qs where ps: "ps = p # qs" by (cases ps) auto
    from kalloc_mem [OF V(2) [unfolded ps] V(5)] obtain s1 where 1: "kalloc s = Inr (p, s1)" "free_pages s1 qs" "can_alloc n s1"
      "kend s1 = kend s" "mem s1 = memset (mem s) p 5 4096" "vm_frm s1 = vm_frm s" by blast
    have p: "page_ok KERNBASE p" "p \<notin> tables (mem s) pt" "p \<noteq> 0" "p mod PGSIZE = 0" "p \<notin> set qs"
      using free_page_ok [OF V(2,4), of p] V(2,3) ps by (auto simp: free_pages_def page_ok_def)
    define m' where "m' = store64 (memset (mem s) p 0 4096) (t + 8 * ?k) (PA2PTE p OR PTE_V)"
    let ?s = "s1\<lparr>mem := m'\<rparr>"
    have "in_ram p" "in_ram (t + 8 * ?k)" using p(1) entry_in_ram [OF T(2) PX_less] by (simp_all add: in_ram_def page_ok_def)
    then have "walk_loop (Suc l) t va True s = walk_loop l p va True ?s"
      using False rd 1(1,5) p(3) by (simp add: Let_def zero_page_def wr64_def memset_memset m'_def)
    moreover note N = node_new [OF V(1) t PX_less False p(1,2) m'_def] and P = pte_new [OF V(1) t PX_less False p(1,2) m'_def]
    have "node (mem ?s) pt (ks @ [?k]) = Some p" using N t(2,3) PX_less by simp
    moreover have m1: "m' = store64 (memset (mem s1) p 0 4096) (t + 8 * ?k) (PA2PTE p OR PTE_V)" by (simp only: m'_def 1(5) memset_memset)
    have sp: "same_page m (store64 (memset m p 0 4096) (t + 8 * ?k) x) q" if "q mod PGSIZE = 0" "q \<noteq> p" "q \<noteq> t" for q m x
      using that p(4) T(3) PX_less by (intro same_page_trans [OF same_page_memset same_page_store])
    moreover have "vmst pt n qs ?s"
    proof -
      have "q mod PGSIZE = 0" "q \<noteq> p" "q \<noteq> t" if "q \<in> set qs" for q
        using that V(2,3) ps p(5) T(1) by (auto simp: free_pages_def list_all_iff page_ok_def)
      then have "free_pages ?s qs" using sp unfolding m1 by (intro free_pages_cong [OF 1(2)]) auto
      moreover have "can_alloc n ?s" using 1(3) by (simp add: can_alloc_def)
      ultimately show ?thesis using P(1,2) 1(4) V(3,4,6) ps p(5) by (auto simp: vmst_def)
    qed
    moreover have "same_page (mem s) (mem ?s) q" if "q mod PGSIZE = 0" "q \<notin> tables (mem ?s) pt" for q
    proof -
      have "q \<noteq> p" "q \<noteq> t" using that(2) P(2) T(1) by auto
      then show ?thesis using sp [OF that(1)] by (simp add: m'_def)
    qed
    then have "grows pt ps s qs ?s"
      unfolding grows_def using ps P(2) 1(4,6) by (intro conjI exI [of _ "[p]"]) simp_all
    ultimately show ?thesis using P(3) by (intro exI [of _ p] exI [of _ qs] exI [of _ ?s]) simp
  qed
qed

lemma walk_alloc:
  assumes v: "vmst pt (n + 2) ps s" and va: "va < MAXVA"
  shows "\<exists>t ps' s'. walk pt va True s = Inr (t + 8 * PX 0 va, s') \<and> node (mem s') pt [PX 2 va, PX 1 va] = Some t \<and>
    vmst pt n ps' s' \<and> grows pt ps s ps' s' \<and> (\<forall>va. pte (mem s') pt va = pte (mem s) pt va)"
proof -
  have v2: "vmst pt (Suc (Suc n)) ps s" using v by simp
  from walk_step [OF v2, of "[]" pt 1 va] obtain t1 ps1 s1 where
    1: "walk_loop (Suc 1) pt va True s = walk_loop 1 t1 va True s1" "node (mem s1) pt [PX (Suc 1) va] = Some t1"
      "vmst pt (Suc n) ps1 s1" "grows pt ps s ps1 s1" "\<forall>va. pte (mem s1) pt va = pte (mem s) pt va" by auto
  from walk_step [OF 1(3,2), of 0 va] PX_less obtain t2 ps2 s2 where
    2: "walk_loop (Suc 0) t1 va True s1 = walk_loop 0 t2 va True s2" "node (mem s2) pt [PX (Suc 1) va, PX (Suc 0) va] = Some t2"
      "vmst pt n ps2 s2" "grows pt ps1 s1 ps2 s2" "\<forall>va. pte (mem s2) pt va = pte (mem s1) pt va" by auto
  have "walk pt va True s = Inr (t2 + 8 * PX 0 va, s2)"
    unfolding walk_def using va 1(1) 2(1) by (simp add: not_le numeral_2_eq_2 del: walk_loop.simps(2))
  then show ?thesis using 2(2,3,5) 1(5) grows_trans [OF 1(4) 2(4)] by (auto simp: numeral_2_eq_2)
qed

end
