(* ===== verification/Vmprops.thy ===== *)
theory Vmprops
  imports Pgtab
begin

text \<open>
  Address spaces: \<open>mappages\<close> extends the map of a page table, and copying
  between the kernel and user memory reaches exactly the bytes that user-mode
  entries map.
\<close>

section \<open>Pages of virtual addresses\<close>

lemma PGROUNDDOWN_mod [simp]: "PGROUNDDOWN va mod PGSIZE = 0"
  using unat_page_mod [of "PGROUNDDOWN va"] by (simp add: unat_PGROUNDDOWN unat_eq_zero)

lemma aligned_PGROUNDDOWN: "a mod PGSIZE = 0 \<Longrightarrow> PGROUNDDOWN a = a"
proof -
  assume "a mod PGSIZE = 0"
  then have "unat a mod 4096 = 0" by (simp add: unat_page_mod)
  then have "unat (PGROUNDDOWN a) = unat a" using div_mult_mod_eq [of "unat a" 4096] by (simp add: unat_PGROUNDDOWN)
  then show ?thesis by (rule unsigned_word_eqI)
qed

lemma PX_PGROUNDDOWN [simp]: "PX l (PGROUNDDOWN va) = PX l va"
  unfolding PX_eq PGROUNDDOWN_eq by (rule bit_word_eqI) (auto simp: bit_simps add.assoc dest: bit_imp_le_length)

lemma PX_page:
  assumes "va < MAXVA" and "vb < MAXVA"
  shows "PX 2 va = PX 2 vb \<and> PX 1 va = PX 1 vb \<and> PX 0 va = PX 0 vb \<longleftrightarrow> PGROUNDDOWN va = PGROUNDDOWN vb"
proof
  assume px: "PX 2 va = PX 2 vb \<and> PX 1 va = PX 1 vb \<and> PX 0 va = PX 0 vb"
  have t: "PGROUNDDOWN x = push_bit 30 (PX 2 x) OR push_bit 21 (PX 1 x) OR push_bit 12 (PX 0 x)" if "x < MAXVA" for x
  proof -
    have "PGROUNDDOWN x = PGROUNDDOWN (push_bit 30 (PX 2 x) OR push_bit 21 (PX 1 x) OR push_bit 12 (PX 0 x) OR take_bit 12 x)"
      using va_split [OF that] by simp
    also have "\<dots> = push_bit 30 (PX 2 x) OR push_bit 21 (PX 1 x) OR push_bit 12 (PX 0 x)"
      unfolding PGROUNDDOWN_eq by (rule bit_word_eqI) (auto simp: bit_simps)
    finally show ?thesis .
  qed
  show "PGROUNDDOWN va = PGROUNDDOWN vb" unfolding t [OF assms(1)] t [OF assms(2)] using px by simp
next
  assume "PGROUNDDOWN va = PGROUNDDOWN vb"
  then show "PX 2 va = PX 2 vb \<and> PX 1 va = PX 1 vb \<and> PX 0 va = PX 0 vb" by (metis PX_PGROUNDDOWN)
qed

lemma pte_page [simp]: "pte m pt (PGROUNDDOWN va) = pte m pt va"
  unfolding pte_def PX_PGROUNDDOWN ..

lemma MAXVA_unat: "unat MAXVA = 2 ^ 38"
  by (simp add: MAXVA_def unsigned_push_bit_eq)

lemma next_page:
  assumes "a mod PGSIZE = 0" "r mod PGSIZE = 0" "a \<le> r" "r \<noteq> a"
  shows "a + PGSIZE \<le> r" "unat (a + PGSIZE) = unat a + 4096"
proof -
  have m: "unat a mod 4096 = 0" "unat r mod 4096 = 0" "unat a < unat r"
    using assms by (auto simp: unat_page_mod word_le_nat_alt word_unat_eq_iff)
  then have le: "unat a + 4096 \<le> unat r" by (rule page_gap)
  then show "unat (a + PGSIZE) = unat a + 4096"
    using unat_less_2p64 [of r] by (subst unat_add_u64) (simp_all add: PGSIZE_def)
  with le show "a + PGSIZE \<le> r" by (simp add: word_le_nat_alt)
qed

lemma page_step:
  assumes "a mod PGSIZE = 0" "r mod PGSIZE = 0" "unat a + 4096 < 2 ^ 64"
  shows "a \<le> r \<longleftrightarrow> r = a \<or> a + PGSIZE \<le> r"
proof
  assume "a \<le> r"
  then show "r = a \<or> a + PGSIZE \<le> r" using next_page(1) [OF assms(1,2)] by blast
next
  assume "r = a \<or> a + PGSIZE \<le> r"
  moreover have "unat (a + PGSIZE) = unat a + 4096" using assms(3) by (subst unat_add_u64) (simp_all add: PGSIZE_def)
  ultimately show "a \<le> r" by (auto simp: word_le_nat_alt)
qed

lemma aligned_add [simp]: "a mod PGSIZE = 0 \<Longrightarrow> (a + PGSIZE) mod PGSIZE = 0"
proof -
  assume "a mod PGSIZE = 0"
  then have "unat a mod 4096 = 0" by (simp add: unat_page_mod)
  moreover have "unat (a + PGSIZE) = (unat a + 4096) mod 2 ^ 64" by (simp add: unat_word_ariths PGSIZE_def)
  then have "unat (a + PGSIZE) mod 4096 = (unat a + 4096) mod 4096" by (simp add: mod_mod_cancel)
  ultimately have "unat (a + PGSIZE) mod 4096 = 0" by simp
  then show ?thesis by (simp only: unat_page_mod unat_eq_zero)
qed

section \<open>mappages\<close>

lemma in_ram_nonzero: "in_ram a \<Longrightarrow> a \<noteq> 0"
  by (auto simp: in_ram_def KERNBASE_def)

text \<open>One round of the loop.\<close>

lemma map_page:
  assumes v: "vmst pt (n + 2) ps s" and a: "a < MAXVA" "\<not> valid_pte (pte (mem s) pt a)"
  shows "\<exists>ps' s'. mappages_loop (Suc N) pt a lst pa perm s =
      (if a = lst then Inr (0, s') else mappages_loop N pt (a + PGSIZE) lst (pa + PGSIZE) perm s') \<and>
    vmst pt n ps' s' \<and> grows pt ps s ps' s' \<and>
    (\<forall>va<MAXVA. pte (mem s') pt va = (if PGROUNDDOWN va = PGROUNDDOWN a then PA2PTE pa OR perm OR PTE_V else pte (mem s) pt va))"
proof -
  from walk_alloc [OF v a(1)] obtain t ps' s1 where
    1: "walk pt a True s = Inr (t + 8 * PX 0 a, s1)" "node (mem s1) pt [PX 2 a, PX 1 a] = Some t" "vmst pt n ps' s1" "grows pt ps s ps' s1"
      "\<forall>va. pte (mem s1) pt va = pte (mem s) pt va" by blast
  have V: "pt_ok (mem s1) pt" "free_pages s1 ps'" "set ps' \<inter> tables (mem s1) pt = {}" "KERNBASE \<le> kend s1" "can_alloc n s1" "n \<le> length ps'"
    using 1(3) by (simp_all add: vmst_def)
  note T = pt_okD [OF V(1) key_PX 1(2)]
  let ?e = "PA2PTE pa OR perm OR PTE_V"
  define m' where "m' = store64 (mem s1) (t + 8 * PX 0 a) ?e"
  let ?s = "s1\<lparr>mem := m'\<rparr>"
  note P = pte_leaf [OF V(1) 1(2) PX_less PX_less PX_less, of 0 a ?e, folded m'_def]
  have rd: "rd64 (t + 8 * PX 0 a) s1 = Inr (pte (mem s1) pt a)" using rd64_entry [OF T(2), of 0 a s1] 1(2) by (simp add: pte_def)
  have "t + 8 * PX 0 a \<noteq> 0" "in_ram (t + 8 * PX 0 a)" using entry_in_ram [OF T(2) PX_less] in_ram_nonzero by blast+
  then have "mappages_loop (Suc N) pt a lst pa perm s =
      (if a = lst then Inr (0, ?s) else mappages_loop N pt (a + PGSIZE) lst (pa + PGSIZE) perm ?s)"
    using 1(1,5) rd a(2) by (simp add: wr64_def m'_def)
  moreover have sp: "same_page (mem s1) m' q" if "q mod PGSIZE = 0" "q \<noteq> t" for q
    unfolding m'_def using that T(3) PX_less by (intro same_page_store)
  moreover have "free_pages ?s ps'"
  proof (rule free_pages_cong [OF V(2)])
    fix p assume p: "p \<in> set ps'"
    then have "p mod PGSIZE = 0" "p \<noteq> t" using V(2,3) T(1) by (auto simp: free_pages_def list_all_iff page_ok_def)
    then show "same_page (mem s1) (mem ?s) p" using sp by simp
  qed simp_all
  then have "vmst pt n ps' ?s" using V P(1,2) by (simp add: vmst_def can_alloc_def)
  moreover have "grows pt ps' s1 ps' ?s"
  proof -
    have "same_page (mem s1) (mem ?s) q" if "q mod PGSIZE = 0" "q \<notin> tables (mem ?s) pt" for q
      using that P(2) T(1) sp [OF that(1)] by auto
    then show ?thesis unfolding grows_def using P(2) by (intro conjI exI [of _ "[]"]) simp_all
  qed
  then have "grows pt ps s ps' ?s" using grows_trans [OF 1(4)] by blast
  moreover have "pte (mem ?s) pt va = (if PGROUNDDOWN va = PGROUNDDOWN a then ?e else pte (mem s) pt va)" if "va < MAXVA" for va
    using P(3) [of va] PX_page [OF that a(1)] 1(5) by simp
  ultimately show ?thesis by blast
qed

lemma mappages_loop_ok:
  assumes "vmst pt (n + 2 * Suc N) ps s" "a mod PGSIZE = 0" "lst mod PGSIZE = 0" "unat lst = unat a + 4096 * N" "lst < MAXVA"
    and "\<And>va. va < MAXVA \<Longrightarrow> a \<le> PGROUNDDOWN va \<Longrightarrow> PGROUNDDOWN va \<le> lst \<Longrightarrow> \<not> valid_pte (pte (mem s) pt va)"
  shows "\<exists>ps' s'. mappages_loop (Suc N) pt a lst pa perm s = Inr (0, s') \<and> vmst pt n ps' s' \<and> grows pt ps s ps' s' \<and>
    (\<forall>va<MAXVA. pte (mem s') pt va =
      (if a \<le> PGROUNDDOWN va \<and> PGROUNDDOWN va \<le> lst then PA2PTE (pa + (PGROUNDDOWN va - a)) OR perm OR PTE_V else pte (mem s) pt va))"
  using assms
proof (induction N arbitrary: a pa ps s)
  case 0
  have al: "a = lst" using 0(4) by (simp add: word_unat_eq_iff)
  have r: "PGROUNDDOWN a = a" using 0(2) by (rule aligned_PGROUNDDOWN)
  have "vmst pt (n + 2) ps s" "a < MAXVA" "\<not> valid_pte (pte (mem s) pt a)" using 0 al r by simp_all
  from map_page [OF this, of 0 lst pa perm] al obtain ps' s' where
    1: "mappages_loop (Suc 0) pt a lst pa perm s = Inr (0, s')" "vmst pt n ps' s'" "grows pt ps s ps' s'"
      "\<And>va. va < MAXVA \<Longrightarrow> pte (mem s') pt va = (if PGROUNDDOWN va = a then PA2PTE pa OR perm OR PTE_V else pte (mem s) pt va)"
    unfolding r by (auto simp del: mappages_loop.simps)
  have "pte (mem s') pt va = (if a \<le> PGROUNDDOWN va \<and> PGROUNDDOWN va \<le> lst then PA2PTE (pa + (PGROUNDDOWN va - a)) OR perm OR PTE_V
      else pte (mem s) pt va)" if "va < MAXVA" for va
    using 1(4) [OF that] al by (cases "PGROUNDDOWN va = a") (auto dest: order_antisym)
  then show ?case using 1(1-3) by blast
next
  case (Suc N)
  have r: "PGROUNDDOWN a = a" using Suc.prems(2) by (rule aligned_PGROUNDDOWN)
  have lt: "unat a + 4096 \<le> unat lst" using Suc.prems(4) by simp
  then have a: "a < MAXVA" "a \<noteq> lst" "a \<le> lst" using Suc.prems(5) by (auto simp: word_less_nat_alt word_le_nat_alt)
  have v: "vmst pt (n + 2 * Suc N + 2) ps s" using Suc.prems(1) by simp
  have "\<not> valid_pte (pte (mem s) pt a)" using Suc.prems(6) a r by simp
  from map_page [OF v a(1) this, of "Suc N" lst pa perm] a(2) obtain ps1 s1 where
    1: "mappages_loop (Suc (Suc N)) pt a lst pa perm s = mappages_loop (Suc N) pt (a + PGSIZE) lst (pa + PGSIZE) perm s1"
      "vmst pt (n + 2 * Suc N) ps1 s1" "grows pt ps s ps1 s1"
      "\<And>va. va < MAXVA \<Longrightarrow> pte (mem s1) pt va = (if PGROUNDDOWN va = a then PA2PTE pa OR perm OR PTE_V else pte (mem s) pt va)"
    unfolding r by (auto simp del: mappages_loop.simps)
  have n: "unat (a + PGSIZE) = unat a + 4096" using lt unat_less_2p64 [of lst] by (subst unat_add_u64) (simp_all add: PGSIZE_def)
  have le: "a \<le> PGROUNDDOWN va \<longleftrightarrow> PGROUNDDOWN va = a \<or> a + PGSIZE \<le> PGROUNDDOWN va" "PGROUNDDOWN va = a \<Longrightarrow> \<not> a + PGSIZE \<le> PGROUNDDOWN va" for va
    using page_step [OF Suc.prems(2) PGROUNDDOWN_mod] n lt unat_less_2p64 [of lst] by (auto simp: word_le_nat_alt)
  have "\<exists>ps' s'. mappages_loop (Suc N) pt (a + PGSIZE) lst (pa + PGSIZE) perm s1 = Inr (0, s') \<and> vmst pt n ps' s' \<and> grows pt ps1 s1 ps' s' \<and>
    (\<forall>va<MAXVA. pte (mem s') pt va = (if a + PGSIZE \<le> PGROUNDDOWN va \<and> PGROUNDDOWN va \<le> lst
      then PA2PTE (pa + PGSIZE + (PGROUNDDOWN va - (a + PGSIZE))) OR perm OR PTE_V else pte (mem s1) pt va))"
  proof (rule Suc.IH [OF 1(2) _ Suc.prems(3) _ Suc.prems(5)])
    show "(a + PGSIZE) mod PGSIZE = 0" using Suc.prems(2) by simp
    show "unat lst = unat (a + PGSIZE) + 4096 * N" using Suc.prems(4) n by simp
    show "\<not> valid_pte (pte (mem s1) pt va)" if "va < MAXVA" "a + PGSIZE \<le> PGROUNDDOWN va" "PGROUNDDOWN va \<le> lst" for va
      using 1(4) [OF that(1)] Suc.prems(6) [OF that(1)] le that(2,3) by auto
  qed
  then obtain ps2 s2 where
    2: "mappages_loop (Suc N) pt (a + PGSIZE) lst (pa + PGSIZE) perm s1 = Inr (0, s2)" "vmst pt n ps2 s2" "grows pt ps1 s1 ps2 s2"
      "\<And>va. va < MAXVA \<Longrightarrow> pte (mem s2) pt va = (if a + PGSIZE \<le> PGROUNDDOWN va \<and> PGROUNDDOWN va \<le> lst
        then PA2PTE (pa + (PGROUNDDOWN va - a)) OR perm OR PTE_V else pte (mem s1) pt va)" by (auto simp del: mappages_loop.simps)
  have "pte (mem s2) pt va = (if a \<le> PGROUNDDOWN va \<and> PGROUNDDOWN va \<le> lst
      then PA2PTE (pa + (PGROUNDDOWN va - a)) OR perm OR PTE_V else pte (mem s) pt va)" if "va < MAXVA" for va
    using 2(4) [OF that] 1(4) [OF that] le [of va] a(3) by auto
  then show ?case unfolding 1(1) using 2(1,2) grows_trans [OF 1(3) 2(3)] by blast
qed

text \<open>The page of \<open>va'\<close> is one of those the range of \<open>sz\<close> bytes at \<open>va\<close> touches.\<close>

definition in_pages :: "u64 \<Rightarrow> u64 \<Rightarrow> u64 \<Rightarrow> bool" where
  "in_pages va sz va' \<longleftrightarrow> PGROUNDDOWN va \<le> PGROUNDDOWN va' \<and> PGROUNDDOWN va' \<le> PGROUNDDOWN (va + sz - 1)"

definition npages :: "u64 \<Rightarrow> u64 \<Rightarrow> nat" where
  "npages va sz = Suc (pages_to (PGROUNDDOWN va) (PGROUNDDOWN (va + sz - 1)))"

lemma mappages_ok:
  assumes v: "vmst pt (n + 2 * npages va sz) ps s" and sz: "0 < sz" "unat va + unat sz \<le> 2 ^ 38"
    and un: "\<And>x. x < MAXVA \<Longrightarrow> in_pages va sz x \<Longrightarrow> \<not> valid_pte (pte (mem s) pt x)"
  shows "\<exists>ps' s'. mappages pt va sz pa perm s = Inr (0, s') \<and> vmst pt n ps' s' \<and> grows pt ps s ps' s' \<and>
    (\<forall>x<MAXVA. pte (mem s') pt x =
      (if in_pages va sz x then PA2PTE (pa + (PGROUNDDOWN x - PGROUNDDOWN va)) OR perm OR PTE_V else pte (mem s) pt x))"
proof -
  let ?a = "PGROUNDDOWN va" and ?l = "PGROUNDDOWN (va + sz - 1)"
  define N where "N = pages_to ?a ?l"
  have "unat (va + sz) = unat va + unat sz" using sz(2) by (subst unat_add_u64) simp_all
  moreover have "0 < unat sz" using sz(1) by (simp add: unat_gt_0 word_gt_0)
  ultimately have u: "unat (va + sz - 1) = unat va + unat sz - 1" by (simp add: unat_sub word_le_nat_alt)
  have mono: "unat ?a \<le> unat ?l" unfolding unat_PGROUNDDOWN u using \<open>0 < unat sz\<close> by (intro mult_le_mono div_le_mono) simp_all
  then have d: "unat (?l - ?a) = unat ?l - unat ?a" by (simp add: unat_sub word_le_nat_alt)
  have l: "unat ?l = unat ?a + 4096 * N"
    unfolding N_def pages_to_def d using mono by (simp add: unat_PGROUNDDOWN diff_mult_distrib [symmetric])
  have "unat ?l \<le> unat (va + sz - 1)" using PGROUNDDOWN_le by (simp only: word_le_nat_alt)
  then have lt: "?l < MAXVA" using u sz(2) \<open>0 < unat sz\<close> by (simp add: word_less_nat_alt MAXVA_unat)
  have v': "vmst pt (n + 2 * Suc N) ps s" using v by (simp add: npages_def N_def)
  from mappages_loop_ok [OF v' PGROUNDDOWN_mod PGROUNDDOWN_mod l lt, of pa perm] un show ?thesis
    unfolding mappages_def Let_def in_pages_def N_def [symmetric] by blast
qed

section \<open>User memory\<close>

definition user_pte :: "u64 \<Rightarrow> bool" where
  "user_pte e \<longleftrightarrow> valid_pte e \<and> e AND PTE_U \<noteq> 0 \<and> PTE2PA e \<noteq> 0"

text \<open>The physical address of a byte that user code can reach.\<close>

definition upa :: "memory \<Rightarrow> u64 \<Rightarrow> u64 \<Rightarrow> u64 option" where
  "upa m pt va = (if va < MAXVA \<and> user_pte (pte m pt va) then Some (PTE2PA (pte m pt va) + (va - PGROUNDDOWN va)) else None)"

definition ubyte :: "memory \<Rightarrow> u64 \<Rightarrow> u64 \<Rightarrow> u8 option" where
  "ubyte m pt va = map_option m (upa m pt va)"

lemma PGROUNDDOWN_MAXVA: "PGROUNDDOWN va < MAXVA \<longleftrightarrow> va < MAXVA"
  unfolding word_less_nat_alt unat_PGROUNDDOWN MAXVA_unat by (auto simp: less_mult_imp_div_less) 

lemma walkaddr_eq:
  assumes "pt_ok (mem s) pt"
  shows "walkaddr pt va s = Inr (if va < MAXVA \<and> user_pte (pte (mem s) pt va) then PTE2PA (pte (mem s) pt va) else 0)"
proof (cases "va < MAXVA")
  case True
  show ?thesis
  proof (cases "node (mem s) pt [PX 2 va, PX 1 va]")
    case None
    then show ?thesis using True walk_lookup [OF assms True] by (simp add: walkaddr_def pte_at_def pte_def user_pte_def)
  next
    case (Some t)
    note T = pt_okD [OF assms key_PX Some]
    have "t + 8 * PX 0 va \<noteq> 0" using entry_in_ram [OF T(2) PX_less] in_ram_nonzero by blast
    moreover have "rd64 (t + 8 * PX 0 va) s = Inr (pte (mem s) pt va)" using rd64_entry [OF T(2), of 0 va s] Some by (simp add: pte_def)
    ultimately show ?thesis
      using True walk_lookup [OF assms True] Some by (auto simp: walkaddr_def pte_at_def user_pte_def not_le)
  qed
qed (auto simp: walkaddr_def)

lemma page_rest_step:
  assumes "i < page_rest va"
  shows "PGROUNDDOWN (va + of_nat i) = PGROUNDDOWN va" "va + of_nat i - PGROUNDDOWN va = va - PGROUNDDOWN va + of_nat i"
proof -
  have i: "unat va mod 4096 + i < 4096" using assms by (simp add: page_rest_eq)
  have "unat va div 4096 < 4503599627370496" using unat_less_2p64 [of va] by (simp add: less_mult_imp_div_less)
  then have "unat va + i < 18446744073709551616" using i div_mult_mod_eq [of "unat va" 4096] by linarith
  then have "unat va + i < 2 ^ 64" by simp
  then have u: "unat (va + of_nat i) = unat va + i" using i by (subst unat_add_u64) (simp_all add: unat_of_nat_u64)
  have "unat va + i = (unat va mod 4096 + i) + 4096 * (unat va div 4096)" by simp
  then have "(unat va + i) div 4096 = unat va div 4096" using i div_mult_self2 [of 4096 "unat va mod 4096 + i" "unat va div 4096"] by simp
  then have "unat (PGROUNDDOWN (va + of_nat i)) = unat (PGROUNDDOWN va)" by (simp add: unat_PGROUNDDOWN u)
  then show "PGROUNDDOWN (va + of_nat i) = PGROUNDDOWN va" by (rule unsigned_word_eqI)
qed simp

lemma page_rest_next: "PGROUNDDOWN va + PGSIZE = va + of_nat (page_rest va)"
proof -
  have "of_nat (page_rest va) = PGSIZE - (va - PGROUNDDOWN va)" by (simp add: page_rest_def)
  then show ?thesis by simp
qed

lemma upa_page:
  assumes "i < page_rest va"
  shows "upa m pt (va + of_nat i) = map_option (\<lambda>a. a + of_nat i) (upa m pt va)"
proof -
  note R = page_rest_step [OF assms]
  have "va + of_nat i < MAXVA \<longleftrightarrow> va < MAXVA" using R(1) PGROUNDDOWN_MAXVA by metis
  moreover have "pte m pt (va + of_nat i) = pte m pt va" using R(1) pte_page by metis
  ultimately show ?thesis using R by (simp add: upa_def)
qed

lemma walkaddr_page:
  assumes "pt_ok (mem s) pt"
  shows "walkaddr pt (PGROUNDDOWN va) s = Inr (case upa (mem s) pt va of None \<Rightarrow> 0 | Some a \<Rightarrow> a - (va - PGROUNDDOWN va))"
  using walkaddr_eq [OF assms, of "PGROUNDDOWN va"] PGROUNDDOWN_MAXVA by (simp add: upa_def)

lemma upa_base: "upa m pt va = Some a \<Longrightarrow> a - (va - PGROUNDDOWN va) = PTE2PA (pte m pt va) \<and> PTE2PA (pte m pt va) \<noteq> 0"
  by (auto simp: upa_def user_pte_def split: if_split_asm)

lemma all_less_split: "k \<le> n \<Longrightarrow> (\<forall>i<n. P i) \<longleftrightarrow> (\<forall>i<k. P i) \<and> (\<forall>i<n - k. P (k + i))" for n :: nat
proof (intro iffI conjI allI impI)
  fix i assume k: "k \<le> n" and P: "(\<forall>i<k. P i) \<and> (\<forall>i<n - k. P (k + i))" and i: "i < n"
  show "P i"
  proof (cases "i < k")
    case False
    then have "i - k < n - k" "i = k + (i - k)" using i by simp_all
    then show ?thesis using P by metis
  qed (use P in simp)
qed simp_all

text \<open>All \<open>n\<close> bytes from \<open>va\<close> on can be reached.\<close>

definition umapped :: "memory \<Rightarrow> u64 \<Rightarrow> u64 \<Rightarrow> nat \<Rightarrow> bool" where
  "umapped m pt va n \<longleftrightarrow> (\<forall>i<n. upa m pt (va + of_nat i) \<noteq> None)"

lemma umapped_page:
  assumes "0 < n" "k = min (page_rest va) n"
  shows "umapped m pt va n \<longleftrightarrow> upa m pt va \<noteq> None \<and> umapped m pt (PGROUNDDOWN va + PGSIZE) (n - k)"
proof -
  have k: "0 < k" "k \<le> n" "k \<le> page_rest va" using assms page_rest_pos [of va] by auto
  have "upa m pt (PGROUNDDOWN va + PGSIZE + of_nat i) = upa m pt (va + of_nat (k + i))" if "i < n - k" for i
  proof -
    have "k = page_rest va" using that assms(2) by auto
    then show ?thesis unfolding page_rest_next by (simp add: add.assoc)
  qed
  then have A: "umapped m pt (PGROUNDDOWN va + PGSIZE) (n - k) \<longleftrightarrow> (\<forall>i<n - k. upa m pt (va + of_nat (k + i)) \<noteq> None)"
    by (simp add: umapped_def)
  have B: "(\<forall>i<k. upa m pt (va + of_nat i) \<noteq> None) \<longleftrightarrow> upa m pt va \<noteq> None"
    using k upa_page [of _ va m pt] by fastforce
  have "(\<forall>i<n. P i) \<longleftrightarrow> (\<forall>i<k. P i) \<and> (\<forall>i<n - k. P (k + i))" for P
    using k(2) by (rule all_less_split)
  then show ?thesis unfolding A umapped_def [of m pt va n] B [symmetric] .
qed

lemma nth_read_bytes: "i < n \<Longrightarrow> read_bytes m a n ! i = m (a + of_nat i)"
  by (simp add: read_bytes_def)

lemma length_read_bytes [simp]: "length (read_bytes m a n) = n"
  by (simp add: read_bytes_def)

lemma copyin_spec:
  assumes ok: "pt_ok (mem s) pt"
  shows "\<exists>xs. copyin pt va n s = Inr (if umapped (mem s) pt va n then 0 else -1, xs) \<and> length xs \<le> n \<and>
    (umapped (mem s) pt va n \<longrightarrow> length xs = n) \<and> (\<forall>i<length xs. ubyte (mem s) pt (va + of_nat i) = Some (xs ! i))"
proof (induction n arbitrary: va rule: less_induct)
  case (less n)
  show ?case
  proof (cases "n = 0")
    case True
    then show ?thesis by (simp add: copyin.simps umapped_def)
  next
    case False
    define k where "k = min (page_rest va) n"
    have k: "0 < k" "k \<le> n" "k \<le> page_rest va" using False page_rest_pos [of va] by (auto simp: k_def)
    have um: "umapped (mem s) pt va n \<longleftrightarrow> upa (mem s) pt va \<noteq> None \<and> umapped (mem s) pt (PGROUNDDOWN va + PGSIZE) (n - k)"
      using False by (intro umapped_page) (simp_all add: k_def)
    show ?thesis
    proof (cases "upa (mem s) pt va")
      case None
      then show ?thesis using False walkaddr_page [OF ok, of va] um by (intro exI [of _ "[]"]) (simp add: copyin.simps Let_def)
    next
      case (Some a)
      from less.IH [of "n - k" "PGROUNDDOWN va + PGSIZE"] k obtain ys where
        1: "copyin pt (PGROUNDDOWN va + PGSIZE) (n - k) s = Inr (if umapped (mem s) pt (PGROUNDDOWN va + PGSIZE) (n - k) then 0 else -1, ys)"
          "length ys \<le> n - k" "umapped (mem s) pt (PGROUNDDOWN va + PGSIZE) (n - k) \<longrightarrow> length ys = n - k"
          "\<forall>i<length ys. ubyte (mem s) pt (PGROUNDDOWN va + PGSIZE + of_nat i) = Some (ys ! i)" by auto
      let ?xs = "read_bytes (mem s) a k @ ys"
      have "a - (va - PGROUNDDOWN va) + (va - PGROUNDDOWN va) = a" by simp
      moreover have "a - (va - PGROUNDDOWN va) \<noteq> 0" using upa_base [OF Some] by simp
      ultimately have "copyin pt va n s = Inr (if umapped (mem s) pt va n then 0 else -1, ?xs)"
        using False walkaddr_page [OF ok, of va] Some 1(1) um k_def by (subst copyin.simps) (simp add: Let_def)
      moreover have "ubyte (mem s) pt (va + of_nat i) = Some (?xs ! i)" if i: "i < length ?xs" for i
      proof (cases "i < k")
        case True
        then show ?thesis using upa_page [of i va "mem s" pt] k(3) Some by (simp add: ubyte_def nth_append nth_read_bytes)
      next
        case ge: False
        then have "k = page_rest va" using i 1(2) by (auto simp: k_def)
        then have e: "PGROUNDDOWN va + PGSIZE + of_nat (i - k) = va + of_nat i" unfolding page_rest_next using ge by (simp add: of_nat_diff not_less)
        have "i - k < length ys" using i ge by simp
        then have "ubyte (mem s) pt (PGROUNDDOWN va + PGSIZE + of_nat (i - k)) = Some (ys ! (i - k))" using 1(4) by blast
        then show ?thesis unfolding e using ge by (simp add: nth_append)
      qed
      ultimately show ?thesis using 1(2,3) um k(2) by (intro exI [of _ ?xs]) auto
    qed
  qed
qed

text \<open>An entry for page \<open>p\<close> with the flags \<open>fl\<close>.\<close>

lemma bit_PTE: "bit PTE_V n \<longleftrightarrow> n = 0" "bit PTE_U n \<longleftrightarrow> n = 4"
  unfolding PTE_V_def PTE_U_def bit_push_bit_iff by (auto simp: bit_1_iff)

lemma user_leaf:
  assumes "page_ok KERNBASE p" "take_bit 10 fl = fl"
  shows "PTE2PA (PA2PTE p OR fl OR PTE_V) = p" "valid_pte (PA2PTE p OR fl OR PTE_V)" "PTE_FLAGS (PA2PTE p OR fl OR PTE_V) = fl OR PTE_V"
    "user_pte (PA2PTE p OR fl OR PTE_V) \<longleftrightarrow> fl AND PTE_U \<noteq> 0"
proof -
  have V: "take_bit 10 (fl OR PTE_V) = fl OR PTE_V" using assms(2) by (simp add: PTE_V_def)
  have P: "PTE2PA (PA2PTE p) = p" using PTE2PA_or_flags [of PTE_V p] new_pte(1) [OF assms(1)] by (simp add: PTE_V_def)
  then show 1: "PTE2PA (PA2PTE p OR fl OR PTE_V) = p" using PTE2PA_or_flags [OF V, of p] by (simp add: or.assoc)
  show 2: "valid_pte (PA2PTE p OR fl OR PTE_V)" using new_pte(2) [of "PA2PTE p OR fl"] by (simp add: or.assoc)
  show "PTE_FLAGS (PA2PTE p OR fl OR PTE_V) = fl OR PTE_V" using PTE_FLAGS_or [OF V] by (simp add: or.assoc)
  have "p \<noteq> 0" using assms(1) by (auto simp: page_ok_def KERNBASE_def)
  moreover have "(PA2PTE p OR fl OR PTE_V) AND PTE_U = fl AND PTE_U"
    unfolding PA2PTE_def by (rule bit_word_eqI) (auto simp: bit_simps bit_PTE)
  ultimately show "user_pte (PA2PTE p OR fl OR PTE_V) \<longleftrightarrow> fl AND PTE_U \<noteq> 0" using 1 2 by (simp add: user_pte_def)
qed

section \<open>Writing to user memory\<close>

lemma PTE2PA_aligned [simp]: "PTE2PA e mod PGSIZE = 0"
proof -
  have "take_bit 12 (PTE2PA e) = 0" unfolding PTE2PA_def by (rule bit_word_eqI) (simp add: bit_simps)
  then show ?thesis by (simp add: PGSIZE_def take_bit_eq_mod)
qed

text \<open>User pages are no table pages, and no page is mapped for user code twice.\<close>

definition user_ok :: "memory \<Rightarrow> u64 \<Rightarrow> bool" where
  "user_ok m pt \<longleftrightarrow> pt_ok m pt \<and> (\<forall>x<MAXVA. user_pte (pte m pt x) \<longrightarrow> PTE2PA (pte m pt x) \<notin> tables m pt) \<and>
     (\<forall>x<MAXVA. \<forall>y<MAXVA. user_pte (pte m pt x) \<longrightarrow> user_pte (pte m pt y) \<longrightarrow> PTE2PA (pte m pt x) = PTE2PA (pte m pt y) \<longrightarrow>
        PGROUNDDOWN x = PGROUNDDOWN y)"

definition upages :: "memory \<Rightarrow> u64 \<Rightarrow> u64 set" where
  "upages m pt = {PTE2PA (pte m pt x) | x. x < MAXVA \<and> user_pte (pte m pt x)}"

lemma write_bytes_apply:
  "length xs \<le> 2 ^ 64 \<Longrightarrow> write_bytes m a xs b = (if unat (b - a) < length xs then xs ! unat (b - a) else m b)"
proof (induction xs arbitrary: m a)
  case (Cons x xs)
  have l: "length xs \<le> 2 ^ 64" using Cons.prems by simp
  have e: "write_bytes m a (x # xs) b = (if unat (b - (a + 1)) < length xs then xs ! unat (b - (a + 1)) else if b = a then x else m b)"
    unfolding write_bytes.simps Cons.IH [OF l] fun_upd_apply ..
  show ?case
  proof (cases "b = a")
    case True
    have "unat (a - (a + 1)) = 2 ^ 64 - 1" using unat_minus_one_u64 by simp
    then have "\<not> unat (a - (a + 1)) < length xs" using Cons.prems by simp
    then show ?thesis unfolding e using True by simp
  next
    case False
    then have "unat (b - a) = Suc (unat (b - (a + 1)))" by (rule unat_diff_Suc_u64)
    then show ?thesis unfolding e using False by simp
  qed
qed simp

lemma apart_in_page:
  assumes "p mod PGSIZE = 0" "q mod PGSIZE = 0" "p \<noteq> q" "i < 4096" "k + n \<le> 4096"
  shows "n \<le> unat (p + of_nat i - (q + of_nat k))"
proof (rule ccontr)
  let ?x = "p + of_nat i - (q + of_nat k)"
  assume "\<not> ?thesis"
  then have x: "k + unat ?x < 4096" using assms(5) by simp
  have e: "p + of_nat i - q = of_nat (k + unat ?x)" by simp
  have "unat (p + of_nat i - q) = k + unat ?x" unfolding e using x by (intro unat_of_nat_u64) simp
  with page_apart [OF assms(2,1) assms(3) [symmetric] assms(4)] x show False by simp
qed

lemma same_page_write:
  assumes "p mod PGSIZE = 0" "q mod PGSIZE = 0" "p \<noteq> q" "k + length xs \<le> 4096"
  shows "same_page m (write_bytes m (q + of_nat k) xs) p"
  unfolding same_page_def using apart_in_page [OF assms(1-3) _ assms(4)] assms(4) by (auto simp: write_bytes_apply not_less [symmetric])

lemma upa_SomeD:
  assumes "upa m pt va = Some a"
  shows "va < MAXVA" "user_pte (pte m pt va)" "a = PTE2PA (pte m pt va) + of_nat (unat va mod 4096)"
proof -
  show "va < MAXVA" "user_pte (pte m pt va)" using assms by (auto simp: upa_def split: if_split_asm)
  have "va - PGROUNDDOWN va = of_nat (unat va mod 4096)" unfolding unat_offset [symmetric] by simp
  then show "a = PTE2PA (pte m pt va) + of_nat (unat va mod 4096)" using assms by (auto simp: upa_def split: if_split_asm)
qed

lemma same_index:
  assumes "unat (x - va) < k" "k \<le> page_rest va"
  shows "x = va + of_nat (unat (x - va))" "PGROUNDDOWN x = PGROUNDDOWN va"
proof -
  show e: "x = va + of_nat (unat (x - va))" by simp
  have "unat (x - va) < page_rest va" using assms by simp
  from page_rest_step(1) [OF this] e show "PGROUNDDOWN x = PGROUNDDOWN va" by simp
qed

text \<open>One page of \<open>copyout\<close>.\<close>

lemma copyout_page:
  assumes ok: "user_ok m pt" and a: "upa m pt va = Some a" and ys: "length ys \<le> page_rest va"
  defines "m' \<equiv> write_bytes m a ys"
  shows "user_ok m' pt" "pte m' pt x = pte m pt x" "tables m' pt = tables m pt"
    "ubyte m' pt x = (if unat (x - va) < length ys then Some (ys ! unat (x - va)) else ubyte m pt x)"
    "q mod PGSIZE = 0 \<Longrightarrow> q \<notin> upages m pt \<Longrightarrow> same_page m m' q"
proof -
  note A = upa_SomeD [OF a]
  let ?P = "PTE2PA (pte m pt va)" and ?o = "unat va mod 4096"
  have l: "?o + length ys \<le> 4096" using ys by (simp add: page_rest_eq)
  have sp: "same_page m m' q" if "q mod PGSIZE = 0" "q \<noteq> ?P" for q
    unfolding m'_def A(3) using that l by (intro same_page_write) simp_all
  have "?P \<in> upages m pt" using A(1,2) by (auto simp: upages_def)
  with sp show "q mod PGSIZE = 0 \<Longrightarrow> q \<notin> upages m pt \<Longrightarrow> same_page m m' q" by metis
  have O: "pt_ok m pt" "?P \<notin> tables m pt" using ok A(1,2) by (auto simp: user_ok_def)
  have t: "same_page m m' q" if "q \<in> tables m pt" for q
    using table_page [OF O(1) that] O(2) that sp by metis
  have F: "tables m' pt = tables m pt" "pt_ok m' pt = pt_ok m pt" "\<And>x. pte m' pt x = pte m pt x"
    using pte_frame [of m pt m'] t by blast+
  show "pte m' pt x = pte m pt x" "tables m' pt = tables m pt" using F by blast+
  have p: "pte m' pt = pte m pt" using F(3) by blast
  show "user_ok m' pt" using ok unfolding user_ok_def p F(1,2) .
  have u: "upa m' pt x = upa m pt x" by (simp add: upa_def p)
  have ap: "m' b = (if unat (b - a) < length ys then ys ! unat (b - a) else m b)" for b
    unfolding m'_def using l by (intro write_bytes_apply) simp
  show "ubyte m' pt x = (if unat (x - va) < length ys then Some (ys ! unat (x - va)) else ubyte m pt x)"
  proof (cases "upa m pt x")
    case None
    have "\<not> unat (x - va) < length ys"
    proof
      assume "unat (x - va) < length ys"
      note S = same_index [OF this ys]
      have "unat (x - va) < page_rest va" using \<open>unat (x - va) < length ys\<close> ys by simp
      from upa_page [OF this, of m pt] S(1) a None show False by simp
    qed
    then show ?thesis using None u by (simp add: ubyte_def)
  next
    case (Some b)
    note B = upa_SomeD [OF Some]
    show ?thesis
    proof (cases "PGROUNDDOWN x = PGROUNDDOWN va")
      case True
      then have "pte m pt x = pte m pt va" by (metis pte_page)
      then have "b - a = x - va" using a Some True by (auto simp: upa_def split: if_split_asm)
      then show ?thesis using Some u ap [of b] by (simp add: ubyte_def)
    next
      case False
      then have "PTE2PA (pte m pt x) \<noteq> ?P" using ok A(1,2) B(1,2) unfolding user_ok_def by blast
      from apart_in_page [OF PTE2PA_aligned PTE2PA_aligned this _ l, of "unat x mod 4096"] have "length ys \<le> unat (b - a)"
        unfolding A(3) B(3) by simp
      moreover have "\<not> unat (x - va) < length ys" using False same_index(2) [OF _ ys] by blast
      ultimately show ?thesis using Some u ap [of b] by (simp add: ubyte_def)
    qed
  qed
qed

lemma unat_shift:
  fixes x va :: u64
  assumes "r + k \<le> 2 ^ 64" "r < 2 ^ 64"
  shows "unat (x - (va + of_nat r)) < k \<longleftrightarrow> r \<le> unat (x - va) \<and> unat (x - va) < r + k"
    and "r \<le> unat (x - va) \<Longrightarrow> unat (x - (va + of_nat r)) = unat (x - va) - r"
proof -
  let ?d = "x - va"
  have e: "x - (va + of_nat r) = ?d - of_nat r" by simp
  have r: "unat (of_nat r :: u64) = r" using assms(2) by (rule unat_of_nat_u64)
  show g: "unat (x - (va + of_nat r)) = unat ?d - r" if "r \<le> unat ?d"
    unfolding e using that r unat_diff_u64 [of "of_nat r" ?d] by (simp add: word_le_nat_alt)
  show "unat (x - (va + of_nat r)) < k \<longleftrightarrow> r \<le> unat ?d \<and> unat ?d < r + k"
  proof (cases "r \<le> unat ?d")
    case True
    then show ?thesis unfolding g [OF True] by linarith
  next
    case False
    then have "unat (?d - of_nat r) = 2 ^ 64 - (r - unat ?d)"
      using r unat_diff_wrap_u64 [of ?d "of_nat r"] by (simp add: word_less_nat_alt)
    then show ?thesis unfolding e using False assms by simp
  qed
qed

text \<open>The bytes of user memory after \<open>xs\<close> has been written at \<open>va\<close>.\<close>

definition uwrite :: "u64 \<Rightarrow> u8 list \<Rightarrow> (u64 \<Rightarrow> u8 option) \<Rightarrow> u64 \<Rightarrow> u8 option" where
  "uwrite va xs f x = (if unat (x - va) < length xs then Some (xs ! unat (x - va)) else f x)"

lemma uwrite_append:
  assumes "length xs + length ys \<le> 2 ^ 64" "length xs < 2 ^ 64"
  shows "uwrite (va + of_nat (length xs)) ys (uwrite va xs f) = uwrite va (xs @ ys) f"
proof (rule ext)
  fix x
  show "uwrite (va + of_nat (length xs)) ys (uwrite va xs f) x = uwrite va (xs @ ys) f x"
    using unat_shift [OF assms, of x va] by (auto simp: uwrite_def nth_append)
qed

definition same_map :: "u64 \<Rightarrow> memory \<Rightarrow> memory \<Rightarrow> bool" where
  "same_map pt m m' \<longleftrightarrow> user_ok m' pt \<and> pte m' pt = pte m pt \<and> tables m' pt = tables m pt \<and>
     (\<forall>q. q mod PGSIZE = 0 \<longrightarrow> q \<notin> upages m pt \<longrightarrow> same_page m m' q)"

lemma same_map_trans:
  assumes "same_map pt m m1" and "same_map pt m1 m2"
  shows "same_map pt m m2"
proof -
  have "upages m1 pt = upages m pt" using assms(1) by (simp add: same_map_def upages_def)
  then have "same_page m m2 q" if "q mod PGSIZE = 0" "q \<notin> upages m pt" for q
    using assms that same_page_trans [of m m1 q m2] by (simp add: same_map_def)
  then show ?thesis using assms by (simp add: same_map_def)
qed

lemma copyout_spec:
  assumes "user_ok (mem s) pt" and "length xs < 2 ^ 64"
  shows "\<exists>k m'. copyout pt va xs s = Inr (if umapped (mem s) pt va (length xs) then 0 else -1, s\<lparr>mem := m'\<rparr>) \<and> k \<le> length xs \<and>
    (umapped (mem s) pt va (length xs) \<longrightarrow> k = length xs) \<and> same_map pt (mem s) m' \<and> ubyte m' pt = uwrite va (take k xs) (ubyte (mem s) pt)"
  using assms
proof (induction "length xs" arbitrary: xs va s rule: less_induct)
  case less
  have ok: "pt_ok (mem s) pt" using less.prems(1) by (simp add: user_ok_def)
  show ?case
  proof (cases "xs = []")
    case True
    then show ?thesis using less.prems(1)
      by (intro exI [of _ 0] exI [of _ "mem s"]) (simp add: copyout.simps umapped_def same_map_def uwrite_def fun_eq_iff)
  next
    case False
    define n where "n = min (page_rest va) (length xs)"
    have n: "0 < n" "n \<le> length xs" "n \<le> page_rest va" using False page_rest_pos [of va] by (auto simp: n_def)
    have um: "umapped (mem s) pt va (length xs) \<longleftrightarrow> upa (mem s) pt va \<noteq> None \<and> umapped (mem s) pt (PGROUNDDOWN va + PGSIZE) (length xs - n)"
      using False by (intro umapped_page) (simp_all add: n_def)
    show ?thesis
    proof (cases "upa (mem s) pt va")
      case None
      then have "copyout pt va xs s = Inr (-1, s)" using False walkaddr_page [OF ok, of va] by (subst copyout.simps) (simp add: Let_def)
      then show ?thesis using um None less.prems(1)
        by (intro exI [of _ 0] exI [of _ "mem s"]) (simp add: same_map_def uwrite_def fun_eq_iff)
    next
      case (Some a)
      define m1 where "m1 = write_bytes (mem s) a (take n xs)"
      let ?s = "s\<lparr>mem := m1\<rparr>" and ?v = "PGROUNDDOWN va + PGSIZE"
      have tk: "length (take n xs) \<le> page_rest va" "length (take n xs) = n" using n by simp_all
      note C = copyout_page [OF less.prems(1) Some tk(1), folded m1_def]
      have sm: "same_map pt (mem s) m1" unfolding same_map_def using C(1-3,5) by blast
      have u1: "umapped m1 pt ?v (length xs - n) \<longleftrightarrow> umapped (mem s) pt ?v (length xs - n)" by (simp add: umapped_def upa_def C(2))
      have d: "length (drop n xs) < length xs" "length (drop n xs) < 2 ^ 64" "length (drop n xs) = length xs - n" "mem ?s = m1" "user_ok (mem ?s) pt"
        using n less.prems(2) C(1) by simp_all
      from less.hyps [OF d(1,5,2), of ?v, unfolded d(3,4) u1] obtain k m2 where
        2: "copyout pt ?v (drop n xs) ?s = Inr (if umapped (mem s) pt ?v (length xs - n) then 0 else -1, ?s\<lparr>mem := m2\<rparr>)" "k \<le> length xs - n"
          "umapped (mem s) pt ?v (length xs - n) \<longrightarrow> k = length xs - n" "same_map pt m1 m2" "ubyte m2 pt = uwrite ?v (take k (drop n xs)) (ubyte m1 pt)"
        by blast
      have "a - (va - PGROUNDDOWN va) + (va - PGROUNDDOWN va) = a" by simp
      moreover have "a - (va - PGROUNDDOWN va) \<noteq> 0" using upa_base [OF Some] by simp
      ultimately have "copyout pt va xs s = Inr (if umapped (mem s) pt va (length xs) then 0 else -1, s\<lparr>mem := m2\<rparr>)"
        using False walkaddr_page [OF ok, of va] Some 2(1) um n_def m1_def by (subst copyout.simps) (simp add: Let_def)
      moreover have "ubyte m2 pt = uwrite va (take (n + k) xs) (ubyte (mem s) pt)"
      proof (cases "k = 0")
        case True
        then show ?thesis using 2(5) C(4) by (auto simp: uwrite_def fun_eq_iff)
      next
        case pos: False
        then have v: "?v = va + of_nat (length (take n xs))" using 2(2) tk(2) by (auto simp: page_rest_next n_def min_def)
        have b1: "ubyte m1 pt = uwrite va (take n xs) (ubyte (mem s) pt)" using C(4) by (auto simp: uwrite_def fun_eq_iff)
        show ?thesis unfolding 2(5) v b1 using n(2) 2(2) less.prems(2) by (subst uwrite_append) (simp_all add: take_add)
      qed
      ultimately show ?thesis using 2(2,3) n(2) um same_map_trans [OF sm 2(4)]
        by (intro exI [of _ "n + k"] exI [of _ m2]) auto
    qed
  qed
qed

end
