(* ===== verification/Vmex.thy ===== *)
theory Vmex
  imports Vmprops
begin

text \<open>
  A small machine for examples: a few free pages, and address spaces built on
  them by the code itself.
\<close>

text \<open>The pages from \<open>KERNBASE + 0x100000\<close> on; the kernel ends where they start.\<close>

definition ex_page :: "nat \<Rightarrow> u64" where
  "ex_page i = page_at (KERNBASE + 0x100000) i"

definition ex_mach :: kmem where
  "ex_mach = \<lparr>held = [], procs = replicate NPROC proc0, conts = replicate NCONT cont0, nextpid = 1,
     curproc = None, initproc = None, ticks = 0, mem = (\<lambda>_. 0), freelist = 0, kend = KERNBASE + 0x100000\<rparr>"

lemma unat_ex_page: "i < 100 \<Longrightarrow> unat (ex_page i) = 2148532224 + 4096 * i"
  unfolding ex_page_def by (subst unat_page_at) (simp_all add: KERNBASE_def)

lemma ex_page_inj: "i < 100 \<Longrightarrow> j < 100 \<Longrightarrow> ex_page i = ex_page j \<longleftrightarrow> i = j"
  using unat_ex_page by (metis add_left_cancel mult_left_cancel zero_neq_numeral)

lemma ex_page_ok: "i < 100 \<Longrightarrow> page_ok (kend ex_mach) (ex_page i)" "i < 100 \<Longrightarrow> page_ok KERNBASE (ex_page i)"
  "i < 100 \<Longrightarrow> ex_page i mod PGSIZE = 0"
proof -
  have "page_ok (kend ex_mach) (ex_page i)" if "i < 100"
    unfolding ex_page_def ex_mach_def using that by (intro page_ok_page_at) (simp_all add: KERNBASE_def PGSIZE_def PHYSTOP_def)
  then show "i < 100 \<Longrightarrow> page_ok (kend ex_mach) (ex_page i)" "i < 100 \<Longrightarrow> page_ok KERNBASE (ex_page i)" "i < 100 \<Longrightarrow> ex_page i mod PGSIZE = 0"
    by (auto simp: page_ok_def ex_mach_def KERNBASE_def word_le_nat_alt)
qed

lemma kfree_mem:
  assumes "free_pages s ps" "LKmem \<notin> set (held s)" "page_ok (kend s) p" "p \<notin> set ps"
  shows "\<exists>s'. kfree p s = Inr s' \<and> free_pages s' (p # ps) \<and> kend s' = kend s \<and> held s' = held s \<and> curproc s' = curproc s \<and>
    (\<forall>q. q mod PGSIZE = 0 \<longrightarrow> q \<noteq> p \<longrightarrow> same_page (mem s) (mem s') q)"
proof -
  let ?m = "store64 (memset (mem s) p 1 4096) p (freelist s)"
  let ?s = "charge (- PGSIZE) (s\<lparr>mem := ?m, freelist := p\<rparr>)"
  have p: "p mod PGSIZE = 0" using assms(3) by (simp add: page_ok_def)
  have "same_page (mem s) ?m q" if "q mod PGSIZE = 0" "q \<noteq> p" for q
    using same_page_trans [OF same_page_memset [OF that(1) p that(2)] same_page_store [OF that(1) p that(2), of 0]] by simp
  then show ?thesis using kfree_pages [OF assms] kfree_eq [OF assms(3,2)] by auto
qed

text \<open>\<open>n\<close> pages on the free list, the first \<open>k\<close> left out and still clear.\<close>

lemma ex_pool:
  "n + k \<le> 100 \<Longrightarrow> \<exists>s :: kmem. free_pages s (rev (map ex_page [k..<n + k])) \<and> kend s = kend ex_mach \<and> held s = [] \<and> curproc s = None \<and>
     (\<forall>i<k. same_page (\<lambda>_. 0) (mem s) (ex_page i))"
proof (induction n)
  case 0
  have "free_pages ex_mach []" by (simp add: free_pages_def ex_mach_def KERNBASE_def)
  then show ?case by (intro exI [of _ ex_mach]) (simp add: ex_mach_def same_page_def)
next
  case (Suc n)
  then obtain s :: kmem where s: "free_pages s (rev (map ex_page [k..<n + k]))" "kend s = kend ex_mach" "held s = []" "curproc s = None"
    "\<forall>i<k. same_page (\<lambda>_. 0) (mem s) (ex_page i)" by auto
  have new: "ex_page (n + k) \<notin> set (rev (map ex_page [k..<n + k]))" using Suc.prems ex_page_inj by auto
  have ok: "page_ok (kend s) (ex_page (n + k))" using Suc.prems ex_page_ok(1) s(2) by simp
  from kfree_mem [OF s(1) _ ok new] s(3) obtain s' :: kmem where 1: "free_pages s' (ex_page (n + k) # rev (map ex_page [k..<n + k]))"
    "kend s' = kend s" "held s' = held s" "curproc s' = curproc s" "\<forall>q. q mod PGSIZE = 0 \<longrightarrow> q \<noteq> ex_page (n + k) \<longrightarrow> same_page (mem s) (mem s') q" by auto
  have "same_page (\<lambda>_. 0) (mem s') (ex_page i)" if "i < k" for i
    using s(5) that 1(5) ex_page_inj [of i "n + k"] ex_page_ok(3) [of i] Suc.prems same_page_trans by auto
  then show ?case using 1(1-4) s(2-4) by (intro exI [of _ s']) simp
qed

text \<open>A clear page is an empty page table.\<close>

lemma clear_table:
  assumes "page_ok KERNBASE pt" "same_page (\<lambda>_. 0) m pt"
  shows "pt_ok m pt" "tables m pt = {pt}" "pte m pt va = 0"
proof -
  have "load64 (\<lambda>_. 0) x = 0" for x by (simp add: load64_def upt8)
  then have e: "entry m pt k = 0" if "k < 512" for k using entry_same [OF assms(2) that] by (simp add: entry_def)
  have n: "node m pt ks = (if ks = [] then Some pt else None)" if "key ks" for ks
    using that e by (cases ks) (simp_all add: node.simps key_def)
  then show t: "tables m pt = {pt}" using pt_root [of pt m] by (auto simp: tables_def split: if_split_asm)
  show "pt_ok m pt" unfolding pt_ok_def t using n assms(1) by (auto split: if_split_asm)
  show "pte m pt va = 0" using n [OF key_PX] by (simp add: pte_def)
qed

text \<open>An address space with one user page, at address 0, and a clear page beside it.\<close>

abbreviation uperm :: u64 where "uperm \<equiv> PTE_R OR PTE_W OR PTE_U"

lemma ex_space:
  assumes "n \<le> 90"
  shows "\<exists>(s :: kmem) ps. vmst (ex_page 0) n ps s \<and> user_ok (mem s) (ex_page 0) \<and> held s = [] \<and> curproc s = None \<and>
    (\<forall>x<MAXVA. pte (mem s) (ex_page 0) x = (if PGROUNDDOWN x = 0 then PA2PTE (ex_page 1) OR uperm OR PTE_V else 0)) \<and>
    same_page (\<lambda>_. 0) (mem s) (ex_page 1) \<and> same_page (\<lambda>_. 0) (mem s) (ex_page 2) \<and>
    {ex_page 1, ex_page 2} \<inter> (set ps \<union> tables (mem s) (ex_page 0)) = {}"
proof -
  let ?pt = "ex_page 0"
  from ex_pool [of "n + 2" 3] assms obtain s :: kmem where s: "free_pages s (rev (map ex_page [3..<n + 5]))" "kend s = kend ex_mach" "held s = []"
    "curproc s = None" "\<forall>i<3. same_page (\<lambda>_. 0) (mem s) (ex_page i)" by (auto simp: eval_nat_numeral)
  note C = clear_table [OF ex_page_ok(2) [of 0], of "mem s"]
  have c: "same_page (\<lambda>_. 0) (mem s) ?pt" "same_page (\<lambda>_. 0) (mem s) (ex_page 1)" "same_page (\<lambda>_. 0) (mem s) (ex_page 2)" using s(5) by simp_all
  have out: "ex_page i \<notin> set (rev (map ex_page [3..<n + 5]))" if "i < 3" for i
  proof
    assume "ex_page i \<in> set (rev (map ex_page [3..<n + 5]))"
    then obtain j where "ex_page i = ex_page j" "3 \<le> j" "j < n + 5" by auto
    then show False using ex_page_inj [of i j] that assms by simp
  qed
  have np: "npages 0 PGSIZE = 1" by (simp add: npages_def pages_to_def PGROUNDDOWN_def PGSIZE_def)
  have v: "vmst ?pt (n + 2 * npages 0 PGSIZE) (rev (map ex_page [3..<n + 5])) s"
    using C c(1) out [of 0] s(1-4) unfolding np by (simp add: vmst_def can_alloc_def ex_mach_def KERNBASE_def)
  have ip: "in_pages 0 PGSIZE x \<longleftrightarrow> PGROUNDDOWN x = 0" for x
    by (auto simp: in_pages_def PGROUNDDOWN_def [of 0] PGROUNDDOWN_def [of 4095] PGSIZE_def)
  have p0: "PGROUNDDOWN 0 = 0" by (simp add: PGROUNDDOWN_def)
  have pre: "0 < PGSIZE" "unat (0 :: u64) + unat PGSIZE \<le> 2 ^ 38" "\<not> valid_pte (pte (mem s) ?pt x)" for x
    using C(3) c(1) by (simp_all add: PGSIZE_def)
  from mappages_ok [OF v pre, of "ex_page 1" uperm] obtain ps' s' where
    M: "vmst ?pt n ps' s'" "grows ?pt (rev (map ex_page [3..<n + 5])) s ps' s'"
      "\<And>x. x < MAXVA \<Longrightarrow> pte (mem s') ?pt x = (if in_pages 0 PGSIZE x then PA2PTE (ex_page 1 + (PGROUNDDOWN x - PGROUNDDOWN 0)) OR uperm OR PTE_V
        else pte (mem s) ?pt x)" by blast
  have "\<forall>x<MAXVA. pte (mem s') ?pt x = (if PGROUNDDOWN x = 0 then PA2PTE (ex_page 1) OR uperm OR PTE_V else 0)"
    using M(3) C(3) c(1) by (simp add: ip p0)
  note 1 = M(1,2) this
  from 1(2) obtain us where us: "rev (map ex_page [3..<n + 5]) = us @ ps'" "tables (mem s') ?pt = {?pt} \<union> set us"
    using C(2) c(1) by (auto simp: grows_def)
  have o: "ex_page i \<notin> set ps' \<union> tables (mem s') ?pt" if "i = 1 \<or> i = 2" for i
    using that out [of i] us ex_page_inj [of i 0] by auto
  have sp: "same_page (\<lambda>_. 0) (mem s') (ex_page i)" if "i = 1 \<or> i = 2" for i
    using that o [OF that] c 1(2) ex_page_ok(3) [of i] same_page_trans by (auto simp: grows_def)
  have fl: "take_bit 10 uperm = uperm" "uperm AND PTE_U \<noteq> 0" by (simp_all add: PTE_R_def PTE_W_def PTE_U_def)
  note U = user_leaf [OF ex_page_ok(2) [of 1] fl(1)]
  have "user_ok (mem s') ?pt" unfolding user_ok_def using 1(1,3) o [of 1] U by (auto simp: vmst_def user_pte_def split: if_split_asm)
  moreover have "held s' = []" "curproc s' = None" using 1(2) s(3,4) by (auto simp: grows_def vm_frm_def dest: arg_cong [where f = held] arg_cong [where f = curproc])
  ultimately show ?thesis using 1(1,3) sp o by (intro exI [of _ s'] exI [of _ ps']) auto
qed

end
