(* ===== verification/Uspace.thy ===== *)
theory Uspace
  imports Vmex
begin

text \<open>
  What the virtual memory code promises: \<open>mappages\<close> extends the map of a page
  table, \<open>copyin\<close> and \<open>copyout\<close> reach the bytes of user memory and nothing
  else, and \<open>uvmcopy\<close> gives a child a copy of its parent's memory that shares
  no page with it.
\<close>

section \<open>Copying a page\<close>

lemma memmove_page:
  assumes "p mod PGSIZE = 0" "P mod PGSIZE = 0"
  shows "memmove m p P 4096 a = (if unat (a - p) < 4096 then m (P + (a - p)) else m a)"
proof -
  have le: "unat q + 4096 \<le> 2 ^ 64" if "q mod PGSIZE = 0" for q :: u64
  proof -
    have "unat q mod 4096 = 0" using that by (simp add: unat_page_mod)
    moreover have "unat q < 18446744073709551616" using unat_less_2p64 [of q] by simp
    ultimately have "unat q + 4096 \<le> 18446744073709551616" by (intro page_gap) simp_all
    then show ?thesis by simp
  qed
  show ?thesis using le [OF assms(1)] le [OF assms(2)] by (intro memmove_apply) simp_all
qed

lemma same_page_memmove:
  assumes "p mod PGSIZE = 0" "P mod PGSIZE = 0" "q mod PGSIZE = 0" "q \<noteq> p"
  shows "same_page m (memmove m p P 4096) q"
  unfolding same_page_def using page_apart [OF assms(1,3) assms(4) [symmetric]] memmove_page [OF assms(1,2)] by (simp add: not_less [symmetric])

section \<open>Two address spaces\<close>

text \<open>The pages of an address space.\<close>

definition space :: "memory \<Rightarrow> u64 \<Rightarrow> u64 set" where
  "space m pt = tables m pt \<union> upages m pt"

lemma space_frame:
  assumes ok: "user_ok m pt" and "\<And>q. q \<in> space m pt \<Longrightarrow> same_page m m' q"
  shows "user_ok m' pt" "space m' pt = space m pt" "pte m' pt = pte m pt" "ubyte m' pt = ubyte m pt" "tables m' pt = tables m pt" "upages m' pt = upages m pt"
proof -
  have t: "same_page m m' q" if "q \<in> tables m pt" for q using assms(2) that by (simp add: space_def)
  have F: "tables m' pt = tables m pt" "pt_ok m' pt = pt_ok m pt" "\<And>x. pte m' pt x = pte m pt x" using pte_frame [of m pt m'] t by blast+
  show p: "pte m' pt = pte m pt" using F(3) by blast
  show "tables m' pt = tables m pt" by (rule F(1))
  show u: "upages m' pt = upages m pt" by (simp add: upages_def p)
  show "space m' pt = space m pt" by (simp add: space_def F(1) u)
  show "user_ok m' pt" using ok unfolding user_ok_def p F(1,2) .
  have "upa m' pt x = upa m pt x" for x by (simp add: upa_def p)
  moreover have "m' a = m a" if "upa m pt x = Some a" for x a
  proof -
    note A = upa_SomeD [OF that]
    have "PTE2PA (pte m pt x) \<in> space m pt" using A(1,2) by (auto simp: space_def upages_def)
    from assms(2) [OF this] show ?thesis unfolding A(3) by (simp add: same_page_def)
  qed
  ultimately have "ubyte m' pt x = ubyte m pt x" for x by (cases "upa m pt x") (simp_all add: ubyte_def)
  then show "ubyte m' pt = ubyte m pt" by blast
qed

text \<open>The new space is being filled from the free pages \<open>ps\<close>, beside the old one.\<close>

definition copying :: "u64 \<Rightarrow> u64 \<Rightarrow> nat \<Rightarrow> u64 list \<Rightarrow> 'a kmem_scheme \<Rightarrow> bool" where
  "copying old new n ps s \<longleftrightarrow> vmst new n ps s \<and> user_ok (mem s) old \<and> user_ok (mem s) new \<and>
     space (mem s) old \<inter> (space (mem s) new \<union> set ps) = {} \<and> upages (mem s) new \<inter> set ps = {}"

lemma pte_flags:
  "take_bit 10 (PTE_FLAGS e) = PTE_FLAGS e" "PTE_FLAGS e AND PTE_U \<noteq> 0 \<longleftrightarrow> e AND PTE_U \<noteq> 0" "valid_pte e \<Longrightarrow> PTE_FLAGS e OR PTE_V = PTE_FLAGS e"
proof -
  have f: "bit (PTE_FLAGS e) n \<longleftrightarrow> n < 10 \<and> bit e n" for n
    unfolding PTE_FLAGS_def by (auto simp: flagmask bit_simps)
  show "take_bit 10 (PTE_FLAGS e) = PTE_FLAGS e" by (rule bit_word_eqI) (auto simp: bit_simps f)
  have "PTE_FLAGS e AND PTE_U = e AND PTE_U" by (rule bit_word_eqI) (auto simp: bit_simps f bit_PTE)
  then show "PTE_FLAGS e AND PTE_U \<noteq> 0 \<longleftrightarrow> e AND PTE_U \<noteq> 0" by simp
  assume v: "valid_pte e"
  have "bit e 0"
  proof (rule ccontr)
    assume "\<not> bit e 0"
    then have "e AND PTE_V = 0" by (intro bit_word_eqI) (auto simp: bit_simps bit_PTE intro!: gr0I)
    with v show False by simp
  qed
  then show "PTE_FLAGS e OR PTE_V = PTE_FLAGS e" by (intro bit_word_eqI) (auto simp: bit_simps f bit_PTE)
qed

lemma walk_valid:
  assumes "pt_ok (mem s) pt" "va < MAXVA" "valid_pte (pte (mem s) pt va)"
  shows "\<exists>a. walk pt va False s = Inr (a, s) \<and> a \<noteq> 0 \<and> rd64 a s = Inr (pte (mem s) pt va)"
proof (cases "node (mem s) pt [PX 2 va, PX 1 va]")
  case None
  then show ?thesis using assms(3) by (simp add: pte_def)
next
  case (Some t)
  note T = pt_okD [OF assms(1) key_PX Some]
  have "t + 8 * PX 0 va \<noteq> 0" using entry_in_ram [OF T(2) PX_less] in_ram_nonzero by blast
  then show ?thesis using walk_lookup [OF assms(1,2)] rd64_entry [OF T(2), of 0 va s] Some by (simp add: pte_at_def pte_def)
qed

text \<open>One page mapped at the page-aligned address \<open>i\<close>.\<close>

lemma map_one:
  assumes v: "vmst pt (n + 2) ps s" and i: "i < MAXVA" "i mod PGSIZE = 0" "\<not> valid_pte (pte (mem s) pt i)"
  shows "\<exists>ps' s'. mappages pt i PGSIZE pa perm s = Inr (0, s') \<and> vmst pt n ps' s' \<and> grows pt ps s ps' s' \<and>
    (\<forall>x<MAXVA. pte (mem s') pt x = (if PGROUNDDOWN x = i then PA2PTE pa OR perm OR PTE_V else pte (mem s) pt x))"
proof -
  have r: "PGROUNDDOWN i = i" by (rule aligned_PGROUNDDOWN [OF i(2)])
  have u: "unat i + 4096 \<le> 2 ^ 38"
    using i(1,2) page_gap [of "unat i" "2 ^ 38"] by (simp add: word_less_nat_alt MAXVA_unat unat_page_mod)
  have l: "PGROUNDDOWN (i + PGSIZE - 1) = i"
    using page_rest_step(1) [of 4095 i] r i(2) by (simp add: page_rest_eq unat_page_mod PGSIZE_def add.commute)
  have np: "npages i PGSIZE = 1" unfolding npages_def l r by (simp add: pages_to_def)
  have ip: "in_pages i PGSIZE x \<longleftrightarrow> PGROUNDDOWN x = i" for x unfolding in_pages_def l r by auto
  have "\<not> valid_pte (pte (mem s) pt x)" if "PGROUNDDOWN x = i" for x using i(3) that by (metis pte_page)
  then show ?thesis
    using mappages_ok [of pt n i PGSIZE ps s pa perm] v u r unfolding np ip by (simp add: PGSIZE_def cong: conj_cong if_cong)
qed

lemma copyingD:
  assumes "copying old new n ps s"
  shows "vmst new n ps s" "user_ok (mem s) old" "user_ok (mem s) new" "q \<in> space (mem s) old \<Longrightarrow> q \<notin> space (mem s) new \<and> q \<notin> set ps"
    "q \<in> upages (mem s) new \<Longrightarrow> q \<notin> set ps" "q \<in> tables (mem s) new \<Longrightarrow> q \<notin> set ps" "q \<in> set ps \<Longrightarrow> page_ok KERNBASE q \<and> q mod PGSIZE = 0"
    "q \<in> space (mem s) pt \<Longrightarrow> pt = old \<or> pt = new \<Longrightarrow> q mod PGSIZE = 0"
proof -
  show "vmst new n ps s" "user_ok (mem s) old" "user_ok (mem s) new" "q \<in> space (mem s) old \<Longrightarrow> q \<notin> space (mem s) new \<and> q \<notin> set ps"
    "q \<in> upages (mem s) new \<Longrightarrow> q \<notin> set ps" "q \<in> tables (mem s) new \<Longrightarrow> q \<notin> set ps" "q \<in> set ps \<Longrightarrow> page_ok KERNBASE q \<and> q mod PGSIZE = 0"
    using assms free_page_ok [of s ps q] by (auto simp: copying_def vmst_def page_ok_def)
  show "q \<in> space (mem s) pt \<Longrightarrow> pt = old \<or> pt = new \<Longrightarrow> q mod PGSIZE = 0"
    using assms table_page by (auto simp: copying_def user_ok_def space_def upages_def)
qed

text \<open>\<open>kalloc\<close> and \<open>memmove\<close>: only the new page \<open>p\<close> changes, which then holds the bytes of \<open>P\<close>.\<close>

lemma copy_page:
  assumes c: "copying old new (Suc n) ps s" and P: "P mod PGSIZE = 0"
  shows "\<exists>p qs s1. ps = p # qs \<and> kalloc s = Inr (p, s1) \<and> p \<noteq> 0 \<and>
    copying old new n qs (s1\<lparr>mem := memmove (mem s1) p P 4096\<rparr>) \<and> vm_frm s1 = vm_frm s \<and> kend s1 = kend s \<and>
    (\<forall>q. q mod PGSIZE = 0 \<longrightarrow> q \<noteq> p \<longrightarrow> same_page (mem s) (memmove (mem s1) p P 4096) q) \<and>
    (P \<noteq> p \<longrightarrow> (\<forall>j<4096. memmove (mem s1) p P 4096 (p + of_nat j) = mem s (P + of_nat j)))"
proof -
  note C = copyingD [OF c]
  have V: "free_pages s ps" "can_alloc (Suc n) s" "Suc n \<le> length ps" "KERNBASE \<le> kend s" "pt_ok (mem s) new" using C(1) by (simp_all add: vmst_def)
  from V(3) obtain p qs where ps: "ps = p # qs" by (cases ps) auto
  from kalloc_mem [OF V(1) [unfolded ps] V(2)] obtain s1 where 1: "kalloc s = Inr (p, s1)" "free_pages s1 qs" "can_alloc n s1"
    "kend s1 = kend s" "mem s1 = memset (mem s) p 5 4096" "vm_frm s1 = vm_frm s" by blast
  have p: "page_ok KERNBASE p" "p mod PGSIZE = 0" "p \<noteq> 0" "p \<notin> set qs" using C(7) [of p] V(1) ps by (auto simp: free_pages_def)
  let ?m = "memmove (mem s1) p P 4096"
  let ?s = "s1\<lparr>mem := ?m\<rparr>"
  have sp1: "same_page (mem s1) ?m q" if "q mod PGSIZE = 0" "q \<noteq> p" for q using same_page_memmove [OF p(2) P that] .
  have sp: "same_page (mem s) ?m q" if "q mod PGSIZE = 0" "q \<noteq> p" for q
    using same_page_trans [OF same_page_memset [OF that(1) p(2) that(2)] sp1 [OF that, unfolded 1(5)]] unfolding 1(5) .
  have old: "same_page (mem s) ?m q" if "q \<in> space (mem s) old" for q using sp [OF C(8) [OF that]] C(4) [OF that] ps by auto
  have new: "same_page (mem s) ?m q" if "q \<in> space (mem s) new" for q
    using sp [OF C(8) [OF that]] C(5,6) [of q] that ps by (auto simp: space_def)
  note O = space_frame [OF C(2) old] and N = space_frame [OF C(3) new]
  have "free_pages ?s qs" using C(7) p(4) ps by (intro free_pages_cong [OF 1(2)]) (auto intro!: sp1)
  then have "vmst new n qs ?s" using 1(3,4) V(3,4) C(6) N(1,5) ps by (auto simp: vmst_def can_alloc_def user_ok_def)
  then have cp: "copying old new n qs ?s" unfolding copying_def using O(1,2) N(1,2,6) C(4,5) ps by auto
  have "?m (p + of_nat j) = mem s (P + of_nat j)" if "P \<noteq> p" "j < 4096" for j
  proof -
    have "?m (p + of_nat j) = mem s1 (P + of_nat j)" using that(2) by (simp add: memmove_page [OF p(2) P] unat_of_nat_u64)
    also have "\<dots> = mem s (P + of_nat j)" using same_page_memset [OF P p(2) that(1), of "mem s" 5] that(2) by (simp add: 1(5) same_page_def)
    finally show ?thesis .
  qed
  then show ?thesis using ps 1(1,4,6) p(3) cp sp by blast
qed

text \<open>The page \<open>p\<close> enters the new space at address \<open>i\<close>, with the flags of the entry \<open>e\<close>.\<close>

lemma copy_map:
  assumes c: "copying old new (n + 2) qs s" and p: "page_ok KERNBASE p" "p \<notin> set qs" "p \<notin> space (mem s) old" "p \<notin> space (mem s) new"
    and i: "i < MAXVA" "i mod PGSIZE = 0" "\<not> valid_pte (pte (mem s) new i)" and e: "valid_pte e"
  shows "\<exists>ps' s'. mappages new i PGSIZE p (PTE_FLAGS e) s = Inr (0, s') \<and> copying old new n ps' s' \<and> vm_frm s' = vm_frm s \<and>
    pte (mem s') old = pte (mem s) old \<and> ubyte (mem s') old = ubyte (mem s) old \<and>
    (\<forall>x<MAXVA. PGROUNDDOWN x = i \<longrightarrow> PTE_FLAGS (pte (mem s') new x) = PTE_FLAGS e \<and>
      ubyte (mem s') new x = (if e AND PTE_U \<noteq> 0 then Some (mem s (p + (x - i))) else None)) \<and>
    (\<forall>x<MAXVA. PGROUNDDOWN x \<noteq> i \<longrightarrow> pte (mem s') new x = pte (mem s) new x \<and> ubyte (mem s') new x = ubyte (mem s) new x)"
proof -
  note C = copyingD [OF c]
  let ?e = "PA2PTE p OR PTE_FLAGS e OR PTE_V"
  from map_one [OF C(1) i, of p "PTE_FLAGS e"] obtain ps' s' where
    1: "mappages new i PGSIZE p (PTE_FLAGS e) s = Inr (0, s')" "vmst new n ps' s'" "grows new qs s ps' s'"
      "\<And>x. x < MAXVA \<Longrightarrow> pte (mem s') new x = (if PGROUNDDOWN x = i then ?e else pte (mem s) new x)" by blast
  from 1(3) obtain us where us: "qs = us @ ps'" "tables (mem s') new = tables (mem s) new \<union> set us" by (auto simp: grows_def)
  have sp: "same_page (mem s) (mem s') q" if "q mod PGSIZE = 0" "q \<notin> tables (mem s) new" "q \<notin> set qs" for q
    using 1(3) that us by (auto simp: grows_def)
  have pm: "p mod PGSIZE = 0" using p(1) by (simp add: page_ok_def)
  note U = user_leaf [OF p(1) pte_flags(1) [of e]]
  have old: "same_page (mem s) (mem s') q" if "q \<in> space (mem s) old" for q
    using sp [OF C(8) [OF that]] C(4) [OF that] by (auto simp: space_def)
  note O = space_frame [OF C(2) old]
  have up: "upages (mem s') new \<subseteq> insert p (upages (mem s) new)"
    using 1(4) U(1) by (auto simp: upages_def split: if_split_asm)
  have cong: "PTE2PA (pte (mem s') new x) = (if PGROUNDDOWN x = i then p else PTE2PA (pte (mem s) new x))" if "x < MAXVA" for x
    using 1(4) [OF that] U(1) by simp
  have new: "user_ok (mem s') new"
  proof -
    have np: "PTE2PA (pte (mem s) new x) \<noteq> p" if "x < MAXVA" "user_pte (pte (mem s) new x)" for x
      using that p(4) by (auto simp: space_def upages_def)
    have "PTE2PA (pte (mem s') new x) \<notin> tables (mem s') new" if x: "x < MAXVA" "user_pte (pte (mem s') new x)" for x
    proof -
      have "PTE2PA (pte (mem s') new x) \<in> insert p (upages (mem s) new)" using up x by (auto simp: upages_def)
      moreover have "q \<notin> tables (mem s) new" if "q \<in> upages (mem s) new" for q using C(3) that by (auto simp: user_ok_def upages_def)
      ultimately show ?thesis using p(2,4) C(5) us by (auto simp: space_def)
    qed
    moreover have "PGROUNDDOWN x = PGROUNDDOWN y" if xy: "x < MAXVA" "y < MAXVA" "user_pte (pte (mem s') new x)" "user_pte (pte (mem s') new y)"
      "PTE2PA (pte (mem s') new x) = PTE2PA (pte (mem s') new y)" for x y
    proof (cases "PGROUNDDOWN x = i \<or> PGROUNDDOWN y = i")
      case True
      then show ?thesis using xy np [of x] np [of y] 1(4) cong by (auto split: if_split_asm)
    next
      case False
      then have "user_pte (pte (mem s) new x)" "user_pte (pte (mem s) new y)" "PTE2PA (pte (mem s) new x) = PTE2PA (pte (mem s) new y)"
        using xy 1(4) by simp_all
      then show ?thesis using C(3) xy(1,2) unfolding user_ok_def by blast
    qed
    moreover have "pt_ok (mem s') new" using 1(2) by (simp add: vmst_def)
    ultimately show ?thesis unfolding user_ok_def by blast
  qed
  have "copying old new n ps' s'"
    unfolding copying_def using 1(2) O(1,2) new up us p(2,3) C(4,5) by (auto simp: space_def)
  moreover have "ubyte (mem s') new x = (if e AND PTE_U \<noteq> 0 then Some (mem s (p + (x - i))) else None)" if x: "x < MAXVA" "PGROUNDDOWN x = i" for x
  proof -
    have "same_page (mem s) (mem s') p" using sp pm p(2,4) by (auto simp: space_def)
    moreover have "x - i = of_nat (unat x mod 4096)" unfolding unat_offset [symmetric] using x(2) by simp
    ultimately have "mem s' (p + (x - i)) = mem s (p + (x - i))" by (simp add: same_page_def)
    then show ?thesis using x 1(4) U pte_flags(2) by (simp add: ubyte_def upa_def)
  qed
  moreover have "ubyte (mem s') new x = ubyte (mem s) new x" if x: "x < MAXVA" "PGROUNDDOWN x \<noteq> i" for x
  proof (cases "upa (mem s) new x")
    case None
    then show ?thesis using 1(4) x by (simp add: ubyte_def upa_def split: if_split_asm)
  next
    case (Some a)
    note A = upa_SomeD [OF Some]
    have "PTE2PA (pte (mem s) new x) \<in> upages (mem s) new" using A(1,2) by (auto simp: upages_def)
    then have "same_page (mem s) (mem s') (PTE2PA (pte (mem s) new x))"
      using C(3,5) A(1,2) by (intro sp) (auto simp: user_ok_def)
    then have "mem s' a = mem s a" unfolding A(3) by (simp add: same_page_def)
    moreover have "upa (mem s') new x = upa (mem s) new x" using 1(4) x by (simp add: upa_def)
    ultimately show ?thesis using Some by (simp add: ubyte_def)
  qed
  ultimately show ?thesis using 1(1,3,4) O(3,4) U(3) pte_flags(3) [OF e] by (intro exI [of _ ps'] exI [of _ s']) (simp add: grows_def)
qed

section \<open>uvmcopy\<close>

text \<open>One round of \<open>uvmcopy\<close>.\<close>

lemma uvmcopy_step:
  assumes c: "copying old new (n + 3) ps s" and i: "i < MAXVA" "i mod PGSIZE = 0" "\<not> valid_pte (pte (mem s) new i)" "i < sz"
    and e: "e = pte (mem s) old i" "valid_pte e" "PTE2PA e \<noteq> 0"
  shows "\<exists>ps' s'. uvmcopy_loop (Suc k) old new i sz s = uvmcopy_loop k old new (i + PGSIZE) sz s' \<and> copying old new n ps' s' \<and> vm_frm s' = vm_frm s \<and>
    pte (mem s') old = pte (mem s) old \<and> ubyte (mem s') old = ubyte (mem s) old \<and>
    (\<forall>x<MAXVA. PGROUNDDOWN x = i \<longrightarrow> PTE_FLAGS (pte (mem s') new x) = PTE_FLAGS e \<and> ubyte (mem s') new x = ubyte (mem s) old x) \<and>
    (\<forall>x<MAXVA. PGROUNDDOWN x \<noteq> i \<longrightarrow> pte (mem s') new x = pte (mem s) new x \<and> ubyte (mem s') new x = ubyte (mem s) new x)"
proof -
  note C = copyingD [OF c]
  have c': "copying old new (Suc (n + 2)) ps s" using c by (simp add: eval_nat_numeral)
  from copy_page [OF c' PTE2PA_aligned, of e] obtain p qs s1 where ps: "ps = p # qs"
    and 1: "kalloc s = Inr (p, s1)" "p \<noteq> 0" "copying old new (n + 2) qs (s1\<lparr>mem := memmove (mem s1) p (PTE2PA e) 4096\<rparr>)" "vm_frm s1 = vm_frm s"
      "\<And>q. q mod PGSIZE = 0 \<Longrightarrow> q \<noteq> p \<Longrightarrow> same_page (mem s) (memmove (mem s1) p (PTE2PA e) 4096) q"
      "\<And>j. PTE2PA e \<noteq> p \<Longrightarrow> j < 4096 \<Longrightarrow> memmove (mem s1) p (PTE2PA e) 4096 (p + of_nat j) = mem s (PTE2PA e + of_nat j)" by blast
  define m where "m = memmove (mem s1) p (PTE2PA e) 4096"
  let ?s = "s1\<lparr>mem := m\<rparr>"
  have p: "page_ok KERNBASE p" "p \<notin> set qs" "p \<notin> space (mem s) old" "p \<notin> space (mem s) new"
    using C(1) C(4-7) [of p] ps by (auto simp: vmst_def free_pages_def space_def)
  have old: "same_page (mem s) m q" if "q \<in> space (mem s) old" for q unfolding m_def using 1(5) [OF C(8) [OF that]] p(3) that by auto
  have new: "same_page (mem s) m q" if "q \<in> space (mem s) new" for q unfolding m_def using 1(5) [OF C(8) [OF that]] p(4) that by auto
  note O = space_frame [OF C(2) old] and N = space_frame [OF C(3) new]
  from copy_map [OF 1(3) [folded m_def], of p i e] p O(2) N(2,3) i e(2) obtain ps' s' where
    2: "mappages new i PGSIZE p (PTE_FLAGS e) ?s = Inr (0, s')" "copying old new n ps' s'" "vm_frm s' = vm_frm s"
      "pte (mem s') old = pte (mem s) old" "ubyte (mem s') old = ubyte (mem s) old"
      "\<And>x. x < MAXVA \<Longrightarrow> PGROUNDDOWN x = i \<Longrightarrow> PTE_FLAGS (pte (mem s') new x) = PTE_FLAGS e \<and>
        ubyte (mem s') new x = (if e AND PTE_U \<noteq> 0 then Some (m (p + (x - i))) else None)"
      "\<And>x. x < MAXVA \<Longrightarrow> PGROUNDDOWN x \<noteq> i \<Longrightarrow> pte (mem s') new x = pte (mem s) new x \<and> ubyte (mem s') new x = ubyte (mem s) new x"
    using O(3,4) N(3,4) 1(4) by auto
  have "pt_ok (mem s) old" using C(2) by (simp add: user_ok_def)
  from walk_valid [OF this i(1)] e(1,2) obtain a where "walk old i False s = Inr (a, s)" "a \<noteq> 0" "rd64 a s = Inr e" by auto
  then have "uvmcopy_loop (Suc k) old new i sz s = uvmcopy_loop k old new (i + PGSIZE) sz s'"
    using i(4) e(2) 1(1,2) 2(1) by (simp add: Let_def m_def)
  moreover have "ubyte (mem s') new x = ubyte (mem s) old x" if x: "x < MAXVA" "PGROUNDDOWN x = i" for x
  proof -
    have px: "pte (mem s) old x = e" using x(2) e(1) by (metis pte_page)
    show ?thesis
    proof (cases "e AND PTE_U = 0")
      case True
      then show ?thesis using 2(6) [OF x] px by (simp add: ubyte_def upa_def user_pte_def)
    next
      case False
      then have u: "user_pte e" using e by (simp add: user_pte_def)
      then have "PTE2PA e \<in> space (mem s) old" using px x(1) by (auto simp: space_def upages_def)
      then have "PTE2PA e \<noteq> p" using p(3) by auto
      moreover have "x - i = of_nat (unat x mod 4096)" unfolding unat_offset [symmetric] using x(2) by simp
      ultimately have "m (p + (x - i)) = mem s (PTE2PA e + (x - i))" unfolding m_def using 1(6) by simp
      then show ?thesis using 2(6) [OF x] px u x False by (simp add: ubyte_def upa_def)
    qed
  qed
  ultimately show ?thesis using 2 by (intro exI [of _ ps'] exI [of _ s']) simp
qed

lemma uvmcopy_loop_ok:
  assumes "copying old new (n + 3 * k) ps s" "i mod PGSIZE = 0" "unat sz \<le> unat i + 4096 * k" "unat sz \<le> 2 ^ 38"
    and "\<And>x. x < MAXVA \<Longrightarrow> i \<le> PGROUNDDOWN x \<Longrightarrow> PGROUNDDOWN x < sz \<Longrightarrow>
      valid_pte (pte (mem s) old x) \<and> PTE2PA (pte (mem s) old x) \<noteq> 0 \<and> \<not> valid_pte (pte (mem s) new x)"
  shows "\<exists>ps' s'. uvmcopy_loop k old new i sz s = Inr (0, s') \<and> copying old new n ps' s' \<and> vm_frm s' = vm_frm s \<and>
    pte (mem s') old = pte (mem s) old \<and> ubyte (mem s') old = ubyte (mem s) old \<and>
    (\<forall>x<MAXVA. i \<le> PGROUNDDOWN x \<and> PGROUNDDOWN x < sz \<longrightarrow>
      PTE_FLAGS (pte (mem s') new x) = PTE_FLAGS (pte (mem s) old x) \<and> ubyte (mem s') new x = ubyte (mem s) old x) \<and>
    (\<forall>x<MAXVA. \<not> (i \<le> PGROUNDDOWN x \<and> PGROUNDDOWN x < sz) \<longrightarrow> pte (mem s') new x = pte (mem s) new x \<and> ubyte (mem s') new x = ubyte (mem s) new x)"
  using assms
proof (induction k arbitrary: i ps s)
  case 0
  then show ?case by (intro exI [of _ ps] exI [of _ s]) (auto simp: word_less_nat_alt word_le_nat_alt)
next
  case (Suc k)
  show ?case
  proof (cases "i < sz")
    case False
    then have "\<not> (i \<le> PGROUNDDOWN x \<and> PGROUNDDOWN x < sz)" for x by auto
    moreover have "copying old new n ps s" using Suc.prems(1) can_alloc_mono [of _ s n] by (auto simp: copying_def vmst_def)
    ultimately show ?thesis using False by (intro exI [of _ ps] exI [of _ s]) auto
  next
    case True
    have i: "i < MAXVA" "PGROUNDDOWN i = i" using True Suc.prems(2,4) aligned_PGROUNDDOWN by (auto simp: word_less_nat_alt MAXVA_unat)
    define e where "e = pte (mem s) old i"
    have E: "valid_pte e" "PTE2PA e \<noteq> 0" "\<not> valid_pte (pte (mem s) new i)" using Suc.prems(5) [OF i(1)] i(2) True by (simp_all add: e_def)
    have c: "copying old new (n + 3 * k + 3) ps s" using Suc.prems(1) by (simp add: algebra_simps)
    from uvmcopy_step [OF c i(1) Suc.prems(2) E(3) True e_def E(1,2), of k] obtain ps1 s1 where
      1: "uvmcopy_loop (Suc k) old new i sz s = uvmcopy_loop k old new (i + PGSIZE) sz s1" "copying old new (n + 3 * k) ps1 s1" "vm_frm s1 = vm_frm s"
        "pte (mem s1) old = pte (mem s) old" "ubyte (mem s1) old = ubyte (mem s) old"
        "\<And>x. x < MAXVA \<Longrightarrow> PGROUNDDOWN x = i \<Longrightarrow> PTE_FLAGS (pte (mem s1) new x) = PTE_FLAGS e \<and> ubyte (mem s1) new x = ubyte (mem s) old x"
        "\<And>x. x < MAXVA \<Longrightarrow> PGROUNDDOWN x \<noteq> i \<Longrightarrow> pte (mem s1) new x = pte (mem s) new x \<and> ubyte (mem s1) new x = ubyte (mem s) new x" by blast
    have n: "unat (i + PGSIZE) = unat i + 4096"
      using i(1) by (subst unat_add_u64) (simp_all add: word_less_nat_alt MAXVA_unat PGSIZE_def)
    have le: "i \<le> PGROUNDDOWN x \<longleftrightarrow> PGROUNDDOWN x = i \<or> i + PGSIZE \<le> PGROUNDDOWN x" "PGROUNDDOWN x = i \<Longrightarrow> \<not> i + PGSIZE \<le> PGROUNDDOWN x" for x
      using page_step [OF Suc.prems(2) PGROUNDDOWN_mod, of x] n i(1) by (auto simp: word_le_nat_alt word_less_nat_alt MAXVA_unat)
    have al: "(i + PGSIZE) mod PGSIZE = 0" "unat sz \<le> unat (i + PGSIZE) + 4096 * k" using Suc.prems(2,3) n by simp_all
    have hyp: "valid_pte (pte (mem s1) old x) \<and> PTE2PA (pte (mem s1) old x) \<noteq> 0 \<and> \<not> valid_pte (pte (mem s1) new x)"
      if "x < MAXVA" "i + PGSIZE \<le> PGROUNDDOWN x" "PGROUNDDOWN x < sz" for x
    proof -
      have "PGROUNDDOWN x \<noteq> i" "i \<le> PGROUNDDOWN x" using le [of x] that(2) by auto
      then show ?thesis using Suc.prems(5) [OF that(1)] that(3) 1(4) 1(7) [OF that(1)] by simp
    qed
    from Suc.IH [OF 1(2) al Suc.prems(4) hyp] obtain ps2 s2 where
      2: "uvmcopy_loop k old new (i + PGSIZE) sz s1 = Inr (0, s2)" "copying old new n ps2 s2" "vm_frm s2 = vm_frm s1"
        "pte (mem s2) old = pte (mem s1) old" "ubyte (mem s2) old = ubyte (mem s1) old"
        "\<And>x. x < MAXVA \<Longrightarrow> i + PGSIZE \<le> PGROUNDDOWN x \<and> PGROUNDDOWN x < sz \<Longrightarrow>
          PTE_FLAGS (pte (mem s2) new x) = PTE_FLAGS (pte (mem s1) old x) \<and> ubyte (mem s2) new x = ubyte (mem s1) old x"
        "\<And>x. x < MAXVA \<Longrightarrow> \<not> (i + PGSIZE \<le> PGROUNDDOWN x \<and> PGROUNDDOWN x < sz) \<Longrightarrow>
          pte (mem s2) new x = pte (mem s1) new x \<and> ubyte (mem s2) new x = ubyte (mem s1) new x" by blast
    have "PTE_FLAGS (pte (mem s2) new x) = PTE_FLAGS (pte (mem s) old x) \<and> ubyte (mem s2) new x = ubyte (mem s) old x"
      if x: "x < MAXVA" "i \<le> PGROUNDDOWN x \<and> PGROUNDDOWN x < sz" for x
    proof (cases "PGROUNDDOWN x = i")
      case True
      moreover have "pte (mem s) old x = e" using True by (metis pte_page e_def)
      ultimately show ?thesis using 2(7) [OF x(1)] 1(6) [OF x(1)] le [of x] by simp
    next
      case False
      then show ?thesis using 2(6) [OF x(1)] le [of x] x(2) 1(4,5) by simp
    qed
    moreover have "pte (mem s2) new x = pte (mem s) new x \<and> ubyte (mem s2) new x = ubyte (mem s) new x"
      if x: "x < MAXVA" "\<not> (i \<le> PGROUNDDOWN x \<and> PGROUNDDOWN x < sz)" for x
      using 2(7) [OF x(1)] 1(7) [OF x(1)] le [of x] x(2) True by auto
    ultimately show ?thesis unfolding 1(1) using 2(1-5) 1(3-5) by (intro exI [of _ ps2] exI [of _ s2]) simp
  qed
qed

text \<open>Writing to the new space leaves the old one alone.\<close>

lemma copyout_isolated:
  assumes c: "copying old new n ps s" and "length xs < 2 ^ 64" and 1: "copyout new va xs s = Inr (r, s')"
  shows "ubyte (mem s') old = ubyte (mem s) old"
proof -
  note C = copyingD [OF c]
  from copyout_spec [OF C(3) assms(2), of va] 1 have "same_map new (mem s) (mem s')" by auto
  then have "same_page (mem s) (mem s') q" if "q \<in> space (mem s) old" for q
    using C(4) [OF that] C(8) [OF that] by (auto simp: same_map_def space_def)
  then show ?thesis by (rule space_frame(4) [OF C(2)])
qed

section \<open>Properties\<close>

text \<open>
  C11: \<open>mappages\<close> on unmapped addresses, with two free pages for each page to
  be mapped, returns 0 and extends the map of the page table: exactly the
  pages the range touches are now mapped, to consecutive physical pages with
  the permissions given; every other address maps as before, and no page
  outside the tables has changed.
\<close>

theorem mappages_extends:
  assumes "vmst pt (n + 2 * npages va sz) ps s" and "0 < sz" "unat va + unat sz \<le> 2 ^ 38"
    and "\<And>x. x < MAXVA \<Longrightarrow> in_pages va sz x \<Longrightarrow> \<not> valid_pte (pte (mem s) pt x)"
  shows "\<exists>ps' s'. mappages pt va sz pa perm s = Inr (0, s') \<and> vmst pt n ps' s' \<and>
      (\<forall>x<MAXVA. pte (mem s') pt x =
        (if in_pages va sz x then PA2PTE (pa + (PGROUNDDOWN x - PGROUNDDOWN va)) OR perm OR PTE_V else pte (mem s) pt x)) \<and>
      (\<forall>q. q mod PGSIZE = 0 \<and> q \<notin> tables (mem s') pt \<longrightarrow> same_page (mem s) (mem s') q) \<and> vm_frm s' = vm_frm s"
  using mappages_ok [OF assms, of pa perm] by (auto simp: grows_def)

theorem mappages_extends_witness:
  "\<exists>(s :: kmem) ps s'. vmst (ex_page 0) 4 ps s \<and> mappages (ex_page 0) 0x5000 0x1001 (ex_page 2) uperm s = Inr (0, s') \<and>
     pte (mem s') (ex_page 0) 0x5123 = PA2PTE (ex_page 2) OR uperm OR PTE_V \<and> pte (mem s') (ex_page 0) 0x6000 = PA2PTE (ex_page 3) OR uperm OR PTE_V \<and>
     pte (mem s') (ex_page 0) 0x7000 = 0"
proof -
  from ex_space [of 4] obtain s :: kmem and ps where s: "vmst (ex_page 0) 4 ps s"
    "\<And>x. x < MAXVA \<Longrightarrow> pte (mem s) (ex_page 0) x = (if PGROUNDDOWN x = 0 then PA2PTE (ex_page 1) OR uperm OR PTE_V else 0)" by auto
  have r: "PGROUNDDOWN 0x5000 = 0x5000" "PGROUNDDOWN 0x6000 = 0x6000" "PGROUNDDOWN 0x5123 = 0x5000" "PGROUNDDOWN 0x7000 = 0x7000"
    by (simp_all add: PGROUNDDOWN_def PGSIZE_def)
  then have np: "npages 0x5000 0x1001 = 2" "in_pages 0x5000 0x1001 x \<longleftrightarrow> 0x5000 \<le> PGROUNDDOWN x \<and> PGROUNDDOWN x \<le> 0x6000" for x
    by (simp_all add: npages_def pages_to_def in_pages_def)
  have v: "vmst (ex_page 0) (0 + 2 * npages 0x5000 0x1001) ps s" using s(1) np(1) by simp
  have "\<not> valid_pte (pte (mem s) (ex_page 0) x)" if "x < MAXVA" "in_pages 0x5000 0x1001 x" for x
    using that np(2) [of x] s(2) [OF that(1)] by (auto simp: word_le_nat_alt)
  from mappages_extends [OF v _ _ this, of "ex_page 2" uperm] obtain s' where
    1: "mappages (ex_page 0) 0x5000 0x1001 (ex_page 2) uperm s = Inr (0, s')"
      "\<And>x. x < MAXVA \<Longrightarrow> pte (mem s') (ex_page 0) x = (if in_pages 0x5000 0x1001 x
        then PA2PTE (ex_page 2 + (PGROUNDDOWN x - PGROUNDDOWN 0x5000)) OR uperm OR PTE_V else pte (mem s) (ex_page 0) x)" by auto
  have lt: "0x5123 < MAXVA" "0x6000 < MAXVA" "0x7000 < MAXVA" by (simp_all add: MAXVA_def)
  have "ex_page 2 + 0x1000 = ex_page 3" by (simp add: ex_page_def page_at_def)
  then show ?thesis using 1(1) 1(2) [OF lt(1)] 1(2) [OF lt(2)] 1(2) [OF lt(3)] s(1) s(2) [OF lt(3)] np(2) r by auto
qed

text \<open>
  C10: \<open>copyin\<close> of \<open>n\<close> bytes returns 0 exactly when a user-mode entry maps every
  one of them, and -1 otherwise; each byte it has put into the kernel's
  buffer, when it fails too, is the byte of user memory at that address, so
  no kernel page can be read through it.
\<close>

theorem copyin_user_only:
  assumes "pt_ok (mem s) pt"
  shows "\<exists>xs. copyin pt va n s = Inr (if umapped (mem s) pt va n then 0 else -1, xs) \<and>
    (if umapped (mem s) pt va n then map (\<lambda>i. ubyte (mem s) pt (va + of_nat i)) [0..<n] = map Some xs
     else length xs < n \<and> map (\<lambda>i. ubyte (mem s) pt (va + of_nat i)) [0..<length xs] = map Some xs)"
proof -
  from copyin_spec [OF assms, of va n] obtain xs where 1: "copyin pt va n s = Inr (if umapped (mem s) pt va n then 0 else -1, xs)"
    "length xs \<le> n" "umapped (mem s) pt va n \<longrightarrow> length xs = n" "\<And>i. i < length xs \<Longrightarrow> ubyte (mem s) pt (va + of_nat i) = Some (xs ! i)" by blast
  have m: "map (\<lambda>i. ubyte (mem s) pt (va + of_nat i)) [0..<length xs] = map Some xs"
    by (rule nth_equalityI) (use 1(4) in simp_all)
  have "umapped (mem s) pt va n" if "length xs = n"
    using 1(4) that by (auto simp: umapped_def ubyte_def)
  then show ?thesis using 1(1-3) m by (intro exI [of _ xs]) (auto simp: le_less)
qed

text \<open>A space with one user page of zeros.\<close>

lemma ex_user:
  "\<exists>(s :: kmem) ps. vmst (ex_page 0) n ps s \<and> user_ok (mem s) (ex_page 0) \<and> held s = [] \<and> curproc s = None \<and>
     (\<forall>x<MAXVA. ubyte (mem s) (ex_page 0) x = (if PGROUNDDOWN x = 0 then Some 0 else None)) \<and>
     (\<forall>x<MAXVA. PGROUNDDOWN x = 0 \<longrightarrow> valid_pte (pte (mem s) (ex_page 0) x) \<and> PTE2PA (pte (mem s) (ex_page 0) x) = ex_page 1) \<and>
     upages (mem s) (ex_page 0) = {ex_page 1} \<and> same_page (\<lambda>_. 0) (mem s) (ex_page 2) \<and> ex_page 2 \<notin> set ps \<union> space (mem s) (ex_page 0) \<and>
     ex_page 1 \<notin> set ps" if "n \<le> 90"
proof -
  from ex_space [OF that] obtain s :: kmem and ps where s: "vmst (ex_page 0) n ps s" "user_ok (mem s) (ex_page 0)" "held s = []" "curproc s = None"
    "\<And>x. x < MAXVA \<Longrightarrow> pte (mem s) (ex_page 0) x = (if PGROUNDDOWN x = 0 then PA2PTE (ex_page 1) OR uperm OR PTE_V else 0)"
    "same_page (\<lambda>_. 0) (mem s) (ex_page 1)" "same_page (\<lambda>_. 0) (mem s) (ex_page 2)"
    "{ex_page 1, ex_page 2} \<inter> (set ps \<union> tables (mem s) (ex_page 0)) = {}" by blast
  have fl: "take_bit 10 uperm = uperm" "uperm AND PTE_U \<noteq> 0" by (simp_all add: PTE_R_def PTE_W_def PTE_U_def)
  note U = user_leaf [OF ex_page_ok(2) [of 1] fl(1)]
  have m: "PTE2PA (pte (mem s) (ex_page 0) x) = ex_page 1" "user_pte (pte (mem s) (ex_page 0) x)" "valid_pte (pte (mem s) (ex_page 0) x)"
    if "x < MAXVA" "PGROUNDDOWN x = 0" for x using s(5) [OF that(1)] that(2) U fl by simp_all
  have z: "ubyte (mem s) (ex_page 0) x = (if PGROUNDDOWN x = 0 then Some 0 else None)" if x: "x < MAXVA" for x
  proof (cases "PGROUNDDOWN x = 0")
    case True
    have "mem s (ex_page 1 + of_nat (unat x mod 4096)) = 0" using s(6) by (simp add: same_page_def)
    moreover have "x - PGROUNDDOWN x = of_nat (unat x mod 4096)" unfolding unat_offset [symmetric] by simp
    ultimately show ?thesis using m [OF x True] x True by (simp add: ubyte_def upa_def)
  next
    case False
    then show ?thesis using s(5) [OF x] by (simp add: ubyte_def upa_def user_pte_def)
  qed
  have up: "upages (mem s) (ex_page 0) = {ex_page 1}"
  proof (intro subset_antisym subsetI)
    fix q assume "q \<in> upages (mem s) (ex_page 0)"
    then obtain x where x: "q = PTE2PA (pte (mem s) (ex_page 0) x)" "x < MAXVA" "user_pte (pte (mem s) (ex_page 0) x)" by (auto simp: upages_def)
    then have "PGROUNDDOWN x = 0" using s(5) [OF x(2)] by (auto simp: user_pte_def split: if_split_asm)
    then show "q \<in> {ex_page 1}" using x m(1) by simp
  next
    fix q assume "q \<in> {ex_page 1}"
    moreover have "(0 :: u64) < MAXVA" "PGROUNDDOWN 0 = 0" by (simp_all add: MAXVA_def PGROUNDDOWN_def)
    ultimately show "q \<in> upages (mem s) (ex_page 0)" unfolding upages_def using m(1,2) [of 0] by (auto intro!: exI [of _ 0])
  qed
  have "ex_page 2 \<noteq> ex_page 1" using ex_page_inj [of 2 1] by simp
  then show ?thesis using s z m up by (intro exI [of _ s] exI [of _ ps]) (auto simp: space_def)
qed

lemma ex_low: "i < 4096 \<Longrightarrow> of_nat i < MAXVA" "i < 4096 \<Longrightarrow> PGROUNDDOWN (of_nat i) = 0"
proof -
  assume i: "i < 4096"
  then have u: "unat (of_nat i :: u64) = i" by (intro unat_of_nat_u64) simp
  then show "of_nat i < MAXVA" using i by (simp add: word_less_nat_alt MAXVA_unat)
  have "unat (PGROUNDDOWN (of_nat i)) = 0" using i by (simp add: unat_PGROUNDDOWN u)
  then show "PGROUNDDOWN (of_nat i) = 0" by (simp add: unat_eq_zero)
qed

lemma ex_mapped:
  assumes "\<forall>x<MAXVA. ubyte m pt x = (if PGROUNDDOWN x = 0 then Some 0 else None)" and "a + n \<le> 4096"
  shows "umapped m pt (of_nat a) n" "\<And>i. i < n \<Longrightarrow> ubyte m pt (of_nat a + of_nat i) = Some 0"
proof -
  show u: "ubyte m pt (of_nat a + of_nat i) = Some 0" if "i < n" for i
    using assms ex_low [of "a + i"] that by simp
  show "umapped m pt (of_nat a) n" unfolding umapped_def using u by (fastforce simp: ubyte_def)
qed

theorem copyin_user_only_witness:
  "\<exists>(s :: kmem) pt xs. umapped (mem s) pt 0x10 3 \<and> copyin pt 0x10 3 s = Inr (0, [0, 0, 0]) \<and>
     \<not> umapped (mem s) pt 0xffe 4 \<and> copyin pt 0xffe 4 s = Inr (-1, xs) \<and> length xs < 4"
proof -
  let ?pt = "ex_page 0"
  from ex_user [of 0] obtain s :: kmem where s: "user_ok (mem s) ?pt"
    "\<forall>x<MAXVA. ubyte (mem s) ?pt x = (if PGROUNDDOWN x = 0 then Some 0 else None)" by auto
  have ok: "pt_ok (mem s) ?pt" using s(1) by (simp add: user_ok_def)
  have m: "umapped (mem s) ?pt 0x10 3" "ubyte (mem s) ?pt 0x10 = Some 0" "ubyte (mem s) ?pt 0x11 = Some 0" "ubyte (mem s) ?pt 0x12 = Some 0"
    using ex_mapped [OF s(2), of 16 3] ex_mapped(2) [OF s(2), of 16 3 0] ex_mapped(2) [OF s(2), of 16 3 1] ex_mapped(2) [OF s(2), of 16 3 2] by simp_all
  have "(0x1000 :: u64) < MAXVA" "PGROUNDDOWN 0x1000 = 0x1000" by (simp_all add: MAXVA_def PGROUNDDOWN_def PGSIZE_def)
  then have "ubyte (mem s) ?pt 0x1000 = None" using s(2) by simp
  then have "upa (mem s) ?pt (0xffe + of_nat 2) = None" by (simp add: ubyte_def)
  then have nm: "\<not> umapped (mem s) ?pt 0xffe 4" unfolding umapped_def by (auto intro!: exI [of _ 2])
  from copyin_user_only [OF ok, of "0x10" 3] m obtain xs where "copyin ?pt 0x10 3 s = Inr (0, xs)" "map Some xs = [Some 0, Some 0, Some 0]"
    by (auto simp: eval_nat_numeral)
  moreover from this(2) have "xs = [0, 0, 0]" by (auto simp: map_eq_Cons_conv)
  moreover from copyin_user_only [OF ok, of "0xffe" 4] nm obtain ys where "copyin ?pt 0xffe 4 s = Inr (-1, ys)" "length ys < 4" by auto
  ultimately show ?thesis using m(1) nm by blast
qed

text \<open>
  C5: In a well-formed address space \<open>copyout\<close> returns 0 exactly when all the
  bytes of the range are mapped for user code; then every byte of the range
  has been replaced and \<open>copyin\<close> of the range returns the data.  In every
  case the bytes of user memory outside the range, the mapping itself and all
  physical pages that are not mapped for user code are unchanged.
\<close>

theorem copyout_copyin:
  assumes "user_ok (mem s) pt" and "length xs < 2 ^ 64"
  shows "\<exists>s'. copyout pt va xs s = Inr (if umapped (mem s) pt va (length xs) then 0 else -1, s') \<and>
    (umapped (mem s) pt va (length xs) \<longrightarrow> ubyte (mem s') pt = uwrite va xs (ubyte (mem s) pt) \<and> copyin pt va (length xs) s' = Inr (0, xs)) \<and>
    (\<forall>x. length xs \<le> unat (x - va) \<longrightarrow> ubyte (mem s') pt x = ubyte (mem s) pt x) \<and>
    user_ok (mem s') pt \<and> pte (mem s') pt = pte (mem s) pt \<and> (\<forall>q. q mod PGSIZE = 0 \<and> q \<notin> upages (mem s) pt \<longrightarrow> same_page (mem s) (mem s') q)"
proof -
  from copyout_spec [OF assms, of va] obtain k m' where
    1: "copyout pt va xs s = Inr (if umapped (mem s) pt va (length xs) then 0 else -1, s\<lparr>mem := m'\<rparr>)" "k \<le> length xs"
      "umapped (mem s) pt va (length xs) \<longrightarrow> k = length xs" "same_map pt (mem s) m'" "ubyte m' pt = uwrite va (take k xs) (ubyte (mem s) pt)" by blast
  let ?s = "s\<lparr>mem := m'\<rparr>"
  have "copyin pt va (length xs) ?s = Inr (0, xs)" if u: "umapped (mem s) pt va (length xs)"
  proof -
    have ok: "pt_ok (mem ?s) pt" using 1(4) by (simp add: same_map_def user_ok_def)
    have "upa m' pt x = upa (mem s) pt x" for x using 1(4) by (simp add: same_map_def upa_def)
    then have um: "umapped (mem ?s) pt va (length xs)" using u by (simp add: umapped_def)
    from copyin_spec [OF ok, of va "length xs"] um obtain ys where ys: "copyin pt va (length xs) ?s = Inr (0, ys)" "length ys = length xs"
      "\<And>i. i < length ys \<Longrightarrow> ubyte m' pt (va + of_nat i) = Some (ys ! i)" by auto
    have "ys ! i = xs ! i" if "i < length xs" for i
    proof -
      have "unat (of_nat i :: u64) = i" using that assms(2) by (intro unat_of_nat_u64) simp
      then show ?thesis using ys(3) [of i] ys(2) that 1(3,5) u by (simp add: uwrite_def)
    qed
    then have "ys = xs" using ys(2) by (simp add: nth_equalityI)
    then show ?thesis using ys(1) by simp
  qed
  moreover have "ubyte m' pt x = ubyte (mem s) pt x" if "length xs \<le> unat (x - va)" for x
    using that 1(2,5) by (simp add: uwrite_def)
  ultimately show ?thesis using 1(1,3-5) by (intro exI [of _ ?s]) (auto simp: same_map_def)
qed

theorem copyout_copyin_witness:
  "\<exists>(s :: kmem) pt s'. copyout pt 5 [1, 2, 3] s = Inr (0, s') \<and> copyin pt 5 3 s' = Inr (0, [1, 2, 3]) \<and> ubyte (mem s') pt 8 = Some 0"
proof -
  let ?pt = "ex_page 0" and ?xs = "[1, 2, 3] :: u8 list"
  from ex_user [of 0] obtain s :: kmem where s: "user_ok (mem s) ?pt"
    "\<forall>x<MAXVA. ubyte (mem s) ?pt x = (if PGROUNDDOWN x = 0 then Some 0 else None)" by auto
  have l: "length ?xs = 3" by simp
  have m: "umapped (mem s) ?pt 5 3" "ubyte (mem s) ?pt 8 = Some 0"
    using ex_mapped(1) [OF s(2), of 5 3] ex_mapped(2) [OF s(2), of 8 1 0] by simp_all
  from copyout_copyin [OF s(1), of ?xs 5, unfolded l] m(1) obtain s' where
    "copyout ?pt 5 ?xs s = Inr (0, s')" "ubyte (mem s') ?pt = uwrite 5 ?xs (ubyte (mem s) ?pt)" "copyin ?pt 5 3 s' = Inr (0, ?xs)" by auto
  then show ?thesis using m(2) by (intro exI [of _ s] exI [of _ ?pt] exI [of _ s']) (simp add: uwrite_def)
qed

text \<open>
  C4: \<open>uvmcopy\<close> of an address space whose first \<open>sz\<close> bytes are mapped, with
  three free pages for each page to be copied, returns 0 and fills the empty
  new space with a copy: at every address in a page below \<open>sz\<close> the new space
  has the flags and the byte of the old one.  The old space is unchanged, the
  two share no page, and writing to the new space does not change the old one.
\<close>

theorem uvmcopy_copies:
  fixes s :: "'a kmem_scheme"
  assumes "copying old new (n + 3 * Suc (unat sz div 4096)) ps s" and "unat sz \<le> 2 ^ 38"
    and "\<And>x. x < MAXVA \<Longrightarrow> PGROUNDDOWN x < sz \<Longrightarrow>
      valid_pte (pte (mem s) old x) \<and> PTE2PA (pte (mem s) old x) \<noteq> 0 \<and> \<not> valid_pte (pte (mem s) new x)"
  shows "\<exists>s'. uvmcopy old new sz s = Inr (0, s') \<and> vm_frm s' = vm_frm s \<and>
    (\<forall>x<MAXVA. PGROUNDDOWN x < sz \<longrightarrow>
      PTE_FLAGS (pte (mem s') new x) = PTE_FLAGS (pte (mem s) old x) \<and> ubyte (mem s') new x = ubyte (mem s) old x) \<and>
    pte (mem s') old = pte (mem s) old \<and> ubyte (mem s') old = ubyte (mem s) old \<and> space (mem s') old \<inter> space (mem s') new = {} \<and>
    (\<forall>va xs r s''. length xs < 2 ^ 64 \<and> copyout new va xs s' = Inr (r, s'') \<longrightarrow> ubyte (mem s'') old = ubyte (mem s) old)"
proof -
  have "(0 :: u64) mod PGSIZE = 0" "unat sz \<le> unat (0 :: u64) + 4096 * Suc (unat sz div 4096)" by simp_all
  from uvmcopy_loop_ok [OF assms(1) this assms(2)] assms(3) obtain ps' s' where
    1: "uvmcopy_loop (Suc (unat sz div 4096)) old new 0 sz s = Inr (0, s')" "copying old new n ps' s'" "vm_frm s' = vm_frm s"
      "pte (mem s') old = pte (mem s) old" "ubyte (mem s') old = ubyte (mem s) old"
      "\<forall>x<MAXVA. PGROUNDDOWN x < sz \<longrightarrow> PTE_FLAGS (pte (mem s') new x) = PTE_FLAGS (pte (mem s) old x) \<and> ubyte (mem s') new x = ubyte (mem s) old x"
    by auto
  have "uvmcopy old new sz s = Inr (0, s')" using 1(1) by (simp only: uvmcopy_def pages_to_def diff_zero)
  moreover have "space (mem s') old \<inter> space (mem s') new = {}" using 1(2) by (auto simp: copying_def)
  moreover have "ubyte (mem s'') old = ubyte (mem s) old" if "length xs < 2 ^ 64" "copyout new va xs s' = Inr (r, s'')" for va xs r s''
    using copyout_isolated [OF 1(2) that] 1(5) by simp
  ultimately show ?thesis using 1(3-6) by blast
qed

theorem uvmcopy_copies_witness:
  "\<exists>(s :: kmem) old new s'. ubyte (mem s) old 7 = Some 9 \<and> uvmcopy old new 4096 s = Inr (0, s') \<and> ubyte (mem s') new 7 = Some 9 \<and>
     ubyte (mem s') old 7 = Some 9"
proof -
  let ?old = "ex_page 0" and ?new = "ex_page 2"
  from ex_user [of 6] obtain s0 :: kmem and ps where s: "vmst ?old 6 ps s0" "user_ok (mem s0) ?old" "held s0 = []" "curproc s0 = None"
    "\<forall>x<MAXVA. ubyte (mem s0) ?old x = (if PGROUNDDOWN x = 0 then Some 0 else None)"
    "\<forall>x<MAXVA. PGROUNDDOWN x = 0 \<longrightarrow> valid_pte (pte (mem s0) ?old x) \<and> PTE2PA (pte (mem s0) ?old x) = ex_page 1"
    "upages (mem s0) ?old = {ex_page 1}" "same_page (\<lambda>_. 0) (mem s0) ?new" "?new \<notin> set ps \<union> space (mem s0) ?old" "ex_page 1 \<notin> set ps" by auto
  have m: "umapped (mem s0) ?old 7 1" using ex_mapped(1) [OF s(5), of 7 1] by simp
  from copyout_spec [OF s(2), of "[9]" 7] m obtain mm where c: "same_map ?old (mem s0) mm" "ubyte mm ?old = uwrite 7 [9] (ubyte (mem s0) ?old)" by auto
  let ?s = "s0\<lparr>mem := mm\<rparr>"
  have C: "user_ok mm ?old" "pte mm ?old = pte (mem s0) ?old" "tables mm ?old = tables (mem s0) ?old"
    "\<And>q. q mod PGSIZE = 0 \<Longrightarrow> q \<noteq> ex_page 1 \<Longrightarrow> same_page (mem s0) mm q" using c(1) s(7) by (simp_all add: same_map_def)
  have ne: "?new \<noteq> ex_page 1" using s(7,9) by (auto simp: space_def)
  have "same_page (\<lambda>_. 0) mm ?new" using same_page_trans [OF s(8) C(4) [OF ex_page_ok(3) ne]] by simp
  note N = clear_table [OF ex_page_ok(2) [of 2] this, simplified]
  have V: "free_pages s0 ps" "6 \<le> length ps" "KERNBASE \<le> kend s0" "can_alloc 6 s0" "set ps \<inter> tables (mem s0) ?old = {}" using s(1) by (simp_all add: vmst_def)
  have "free_pages ?s ps" using V(1) s(10) by (intro free_pages_cong [OF V(1)]) (auto intro!: C(4) simp: free_pages_def list_all_iff page_ok_def)
  then have v: "vmst ?new 6 ps ?s" using V N s(9) by (simp add: vmst_def can_alloc_def)
  have un: "upages mm ?new = {}" using N(3) by (simp add: upages_def user_pte_def)
  have "user_ok mm ?new" using N by (simp add: user_ok_def user_pte_def)
  moreover have "upages mm ?old = {ex_page 1}" using s(7) C(2) by (simp add: upages_def)
  ultimately have cp: "copying ?old ?new (0 + 3 * Suc (unat (4096 :: u64) div 4096)) ps ?s"
    using v C(1,3) N(2) V(5) s(9,10) un ne by (auto simp: copying_def space_def)
  have z: "PGROUNDDOWN x = 0" if "PGROUNDDOWN x < 4096" for x
    using that page_gap [of 0 "unat (PGROUNDDOWN x)"] by (auto simp: word_less_nat_alt unat_PGROUNDDOWN unat_eq_zero [symmetric])
  have "ex_page 1 \<noteq> 0" using ex_page_ok(2) [of 1] by (auto simp: page_ok_def KERNBASE_def)
  then have hyp: "valid_pte (pte (mem ?s) ?old x) \<and> PTE2PA (pte (mem ?s) ?old x) \<noteq> 0 \<and> \<not> valid_pte (pte (mem ?s) ?new x)"
    if "x < MAXVA" "PGROUNDDOWN x < 4096" for x using s(6) that z C(2) N(3) by simp
  have b: "ubyte (mem ?s) ?old 7 = Some 9" using c(2) by (simp add: uwrite_def)
  have "(7 :: u64) < MAXVA" "PGROUNDDOWN 7 < 4096" using ex_low [of 7] by simp_all
  with uvmcopy_copies [OF cp _ hyp] b obtain s' where "uvmcopy ?old ?new 4096 ?s = Inr (0, s')" "ubyte (mem s') ?new 7 = Some 9"
    "ubyte (mem s') ?old 7 = Some 9" by auto
  with b show ?thesis by blast
qed

end
