(* ===== verification/Pipeprops.thy ===== *)
theory Pipeprops
  imports Pipe Ring Uspace
begin

text \<open>
  Pipes are queues of bytes: \<open>pipewrite\<close> appends bytes of the writer's
  memory as long as there is room and \<open>piperead\<close> moves bytes from the front
  into the reader's memory.
\<close>

section \<open>The pipe as a queue\<close>

definition pipe_seq :: "pipe \<Rightarrow> u8 list" where
  "pipe_seq p = ring_seq PIPESIZE (pi_data p) (pi_nread p) (pi_nwrite p)"

definition pipe_ok :: "pipe \<Rightarrow> bool" where
  "pipe_ok p \<longleftrightarrow> length (pi_data p) = PIPESIZE \<and> unat (pi_nwrite p - pi_nread p) \<le> PIPESIZE"

lemma length_pipe_seq: "length (pipe_seq p) = unat (pi_nwrite p - pi_nread p)"
  by (simp add: pipe_seq_def)

lemma PIPESIZE_dvd: "PIPESIZE dvd 2 ^ 32" "PIPESIZE < 2 ^ 32" "0 < PIPESIZE"
  by (simp_all add: PIPESIZE_def)

lemma pipe_put_seq:
  assumes "pipe_ok p" "length (pipe_seq p) < PIPESIZE"
  shows "pipe_seq (pipe_put c p) = pipe_seq p @ [c]" "pipe_ok (pipe_put c p)"
proof -
  show 1: "pipe_seq (pipe_put c p) = pipe_seq p @ [c]"
    using assms PIPESIZE_dvd unfolding length_pipe_seq by (simp add: pipe_seq_def pipe_put_def pipe_ok_def ring_snoc)
  have "unat (pi_nwrite (pipe_put c p) - pi_nread (pipe_put c p)) \<le> PIPESIZE"
    unfolding length_pipe_seq [symmetric] 1 using assms(2) by simp
  then show "pipe_ok (pipe_put c p)" using assms(1) by (simp add: pipe_ok_def pipe_put_def)
qed

lemma pipe_empty_seq: "pipe_empty p \<longleftrightarrow> pipe_seq p = []"
  by (simp add: pipe_empty_def pipe_seq_def ring_eq_Nil)

lemma pipe_pop_seq:
  assumes "pipe_ok p" "pipe_seq p \<noteq> []"
  shows "pipe_seq p = pipe_head p # pipe_seq (pipe_pop p)" "pipe_ok (pipe_pop p)"
proof -
  show 1: "pipe_seq p = pipe_head p # pipe_seq (pipe_pop p)"
    using assms(2) ring_Cons [of "pi_nread p" "pi_nwrite p" PIPESIZE "pi_data p"]
    by (simp add: pipe_seq_def pipe_head_def pipe_pop_def ring_eq_Nil)
  have "length (pipe_seq (pipe_pop p)) \<le> PIPESIZE"
    using assms(1) arg_cong [OF 1, of length] by (simp add: pipe_ok_def length_pipe_seq)
  then show "pipe_ok (pipe_pop p)" using assms(1) by (simp add: pipe_ok_def pipe_pop_def length_pipe_seq)
qed

lemma pipe_full_seq: "pipe_ok p \<Longrightarrow> pipe_full p \<longleftrightarrow> length (pipe_seq p) = PIPESIZE"
proof -
  have "pi_nwrite p = pi_nread p + of_nat PIPESIZE \<longleftrightarrow> pi_nwrite p - pi_nread p = of_nat PIPESIZE" by (auto simp: algebra_simps)
  also have "\<dots> \<longleftrightarrow> unat (pi_nwrite p - pi_nread p) = unat (of_nat PIPESIZE :: u32)" by (rule word_unat_eq_iff)
  also have "unat (of_nat PIPESIZE :: u32) = PIPESIZE" by (simp add: PIPESIZE_def)
  finally show ?thesis by (simp add: pipe_full_def length_pipe_seq)
qed

interpretation pq: fifo pipe_seq pipe_ok PIPESIZE pipe_put pipe_head pipe_pop
  by unfold_locales (simp_all add: pipe_put_seq pipe_pop_seq(1) [symmetric] pipe_pop_seq(2))

section \<open>Writing\<close>

text \<open>The user bytes \<open>xs\<close> at \<open>addr\<close> in the space of the current process.\<close>

definition ubytes :: "memory \<Rightarrow> u64 \<Rightarrow> u64 \<Rightarrow> u8 list \<Rightarrow> bool" where
  "ubytes m pt addr xs \<longleftrightarrow> (\<forall>i<length xs. ubyte m pt (addr + of_nat i) = Some (xs ! i))"

lemma copyin_byte:
  assumes "pt_ok (mem s) pt" "ubyte (mem s) pt va = Some b"
  shows "copyin pt va 1 s = Inr (0, [b])"
proof -
  have "umapped (mem s) pt va 1" using assms(2) by (auto simp: umapped_def ubyte_def)
  with copyin_spec [OF assms(1), of va 1] obtain xs where "copyin pt va 1 s = Inr (0, xs)" "length xs = 1"
    "\<forall>i<1. ubyte (mem s) pt (va + of_nat i) = Some (xs ! i)" by auto
  then show ?thesis using assms(2) by (auto simp: length_Suc_conv)
qed

lemma upd_pipe_simps [simp]:
  "pipes (upd_pipe p f s) p = f (pipes s p)" "curproc (upd_pipe p f s) = curproc s" "procs (upd_pipe p f s) = procs s"
  "mem (upd_pipe p f s) = mem s" "held (upd_pipe p f s) = held s" "upd_pipe p f (upd_pipe p g s) = upd_pipe p (f \<circ> g) s"
  "mypagetable (upd_pipe p f s) = mypagetable s" "q \<noteq> p \<Longrightarrow> pipes (upd_pipe p f s) q = pipes s q"
  by (simp_all add: upd_pipe_def mypagetable_def cong: option.case_cong)

lemma upd_pipe_id: "upd_pipe p id s = s" "upd_pipe p (\<lambda>x. x) s = s"
  by (simp_all add: upd_pipe_def)

text \<open>As long as there is room, the loop puts byte after byte.\<close>

lemma pipewrite_loop_puts:
  assumes "pipe_ok (pipes s pi)" "mypagetable s = Inr pt" "pt_ok (mem s) pt" "ubytes (mem s) pt addr xs"
    and "k \<le> length xs" "length (pipe_seq (pipes s pi)) + k \<le> PIPESIZE"
  shows "pipewrite_loop pi addr n [0..<length xs] s = pipewrite_loop pi addr n [k..<length xs] (upd_pipe pi (fold pipe_put (take k xs)) s)"
  using assms(5,6)
proof (induction k)
  case 0
  then show ?case by (simp add: upd_pipe_id)
next
  case (Suc k)
  let ?s = "upd_pipe pi (fold pipe_put (take k xs)) s"
  have P: "pipe_seq (pipes ?s pi) = pipe_seq (pipes s pi) @ take k xs" "pipe_ok (pipes ?s pi)"
    using pq.puts [OF assms(1), of "take k xs"] Suc.prems by simp_all
  have "\<not> pipe_full (pipes ?s pi)" using Suc.prems unfolding pipe_full_seq [OF P(2)] P(1) by simp
  moreover have "copyin pt (addr + of_nat k) 1 ?s = Inr (0, [xs ! k])"
    using assms(3,4) Suc.prems(1) by (intro copyin_byte) (simp_all add: ubytes_def)
  moreover have "[k..<length xs] = k # [Suc k..<length xs]" using Suc.prems(1) by (simp add: upt_conv_Cons)
  moreover have "fold pipe_put (take (Suc k) xs) = pipe_put (xs ! k) \<circ> fold pipe_put (take k xs)"
    using Suc.prems(1) by (simp add: take_Suc_conv_app_nth)
  ultimately show ?case using Suc assms(2) by (simp add: comp_def)
qed

text \<open>A call finds the pipe's lock free and the process table in order.\<close>

definition pipe_call :: "u64 \<Rightarrow> nat \<Rightarrow> u64 \<Rightarrow> 'a pipek_scheme \<Rightarrow> bool" where
  "pipe_call pi c pt s \<longleftrightarrow> LPipe pi \<notin> set (held s) \<and> no_proc_lock s \<and> length (procs s) = NPROC \<and> curproc s = Some c \<and>
     pt = p_pagetable (procs s ! c) \<and> pipe_ok (pipes s pi)"

lemma pipe_callD:
  assumes "pipe_call pi c pt s"
  shows "acquire (LPipe pi) s = Inr (s\<lparr>held := LPipe pi # held s\<rparr>)" "mypagetable s = Inr pt" "pipe_ok (pipes s pi)" "length (procs s) = NPROC"
    "no_proc_lock (s\<lparr>held := LPipe pi # held s\<rparr>)" "curproc s = Some c" "mykilled s = Inr (p_killed (procs s ! c) \<noteq> 0)"
  using assms by (auto simp: pipe_call_def mypagetable_def mykilled_def no_proc_lock_def)

lemma fold_pipe_put [simp]:
  "pi_readopen (fold pipe_put cs p) = pi_readopen p" "pi_writeopen (fold pipe_put cs p) = pi_writeopen p"
  by (induction cs arbitrary: p) (simp_all add: pipe_put_def)

text \<open>
  C0: \<open>pipewrite\<close> of \<open>n\<close> readable bytes appends as many of them as there is
  room for, in order.  With room for all it returns \<open>n\<close>; otherwise it returns
  -1 if the read end is closed or the process has been killed, and else it
  sleeps, pipe lock held, with the number of bytes written so far.  Except for
  the -1 case the readers have been woken; no other pipe and no byte of memory
  changes.
\<close>

theorem pipewrite_appends:
  assumes call: "pipe_call pi c pt s" and ok: "pt_ok (mem s) pt" and xs: "ubytes (mem s) pt addr xs"
    and k: "k = min (length xs) (PIPESIZE - length (pipe_seq (pipes s pi)))"
    and dead: "dead \<longleftrightarrow> k < length xs \<and> (\<not> pi_readopen (pipes s pi) \<or> p_killed (procs s ! c) \<noteq> 0)"
  shows "\<exists>s'. pipewrite pi addr (int (length xs)) s = Inr
      (if dead then Return (-1) else if k = length xs then Return (int (length xs)) else Waits (ChPipeWrite pi) k, s') \<and>
    pipe_seq (pipes s' pi) = pipe_seq (pipes s pi) @ take k xs \<and> pipe_ok (pipes s' pi) \<and>
    pi_readopen (pipes s' pi) = pi_readopen (pipes s pi) \<and> pi_writeopen (pipes s' pi) = pi_writeopen (pipes s pi) \<and>
    (\<forall>q. q \<noteq> pi \<longrightarrow> pipes s' q = pipes s q) \<and> mem s' = mem s \<and> curproc s' = curproc s \<and>
    procs s' = (if dead then procs s else map (wake_mark (ChPipeRead pi)) (procs s)) \<and>
    held s' = (if dead \<or> k = length xs then held s else LPipe pi # held s)"
proof -
  note C = pipe_callD [OF call]
  let ?s = "s\<lparr>held := LPipe pi # held s\<rparr>"
  let ?t = "upd_pipe pi (fold pipe_put (take k xs)) ?s"
  have le: "length (pipe_seq (pipes s pi)) \<le> PIPESIZE" using C(3) by (simp add: pipe_ok_def length_pipe_seq)
  then have kl: "k \<le> length xs" "length (pipe_seq (pipes s pi)) + k \<le> PIPESIZE" using k by auto
  have pt: "mypagetable ?s = Inr pt" using call by (simp add: pipe_call_def mypagetable_def)
  have run: "pipewrite pi addr (int (length xs)) s = pipewrite_loop pi addr (int (length xs)) [k..<length xs] ?t"
    using C(1) pipewrite_loop_puts [of ?s pi pt addr xs k "int (length xs)"] C(3) pt ok xs kl by (simp add: pipewrite_def)
  have P: "pipe_seq (pipes ?t pi) = pipe_seq (pipes s pi) @ take k xs" "pipe_ok (pipes ?t pi)"
    using pq.puts [OF C(3), of "take k xs"] kl by simp_all
  have w: "wakeup ch ?t = Inr (?t\<lparr>procs := map (wake_mark ch) (procs s)\<rparr>)" for ch
    using wakeup_eq [of ?t ch] C(4,5) by (simp add: no_proc_lock_def)
  have kd: "mykilled ?t = Inr (p_killed (procs s ! c) \<noteq> 0)" using C(6) by (simp add: mykilled_def)
  show ?thesis
  proof (cases "k = length xs")
    case True
    then show ?thesis using P run w dead by (simp add: upd_pipe_def)
  next
    case False
    then have "pipe_full (pipes ?t pi)" unfolding pipe_full_seq [OF P(2)] P(1) using k le by (simp add: min_def split: if_split_asm)
    moreover have "[k..<length xs] = k # [Suc k..<length xs]" using False kl(1) by (simp add: upt_conv_Cons)
    ultimately show ?thesis using P run w dead kd kl(1) False by (auto simp: upd_pipe_def)
  qed
qed

text \<open>A pipe that holds one byte, its read counter about to wrap around, and a process with a page of zeros.\<close>

definition ex_pipe :: pipe where
  "ex_pipe = \<lparr>pi_data = replicate 511 0 @ [7], pi_nread = 0xffffffff, pi_nwrite = 0, pi_readopen = True, pi_writeopen = True\<rparr>"

lemma ex_pipe: "pipe_ok ex_pipe" "pipe_seq ex_pipe = [7]"
  by (simp_all add: ex_pipe_def pipe_ok_def pipe_seq_def ring_seq_def PIPESIZE_def nth_append)

lemma ex_pipe_call:
  "\<exists>s :: pipek. pipe_call 1 0 (ex_page 0) s \<and> pipes s 1 = ex_pipe \<and> user_ok (mem s) (ex_page 0) \<and> p_killed (procs s ! 0) = 0 \<and>
     (\<forall>x<MAXVA. ubyte (mem s) (ex_page 0) x = (if PGROUNDDOWN x = 0 then Some 0 else None))"
proof -
  from ex_user [of 0] obtain t :: kmem where t: "user_ok (mem t) (ex_page 0)"
    "\<forall>x<MAXVA. ubyte (mem t) (ex_page 0) x = (if PGROUNDDOWN x = 0 then Some 0 else None)" by auto
  let ?s = "(undefined :: pipek)\<lparr>held := [], procs := replicate NPROC (proc0\<lparr>p_pagetable := ex_page 0\<rparr>), curproc := Some 0, mem := mem t, pipes := \<lambda>_. ex_pipe\<rparr>"
  have "pipe_call 1 0 (ex_page 0) ?s" using ex_pipe by (simp add: pipe_call_def no_proc_lock_def NPROC_def)
  then show ?thesis using t by (intro exI [of _ ?s]) (simp add: NPROC_def proc0_def)
qed

theorem pipewrite_appends_witness:
  "\<exists>(s :: pipek) s'. pipe_seq (pipes s 1) = [7] \<and> pipewrite 1 0x10 3 s = Inr (Return 3, s') \<and> pipe_seq (pipes s' 1) = [7, 0, 0, 0]"
proof -
  let ?pt = "ex_page 0" and ?xs = "[0, 0, 0] :: u8 list"
  from ex_pipe_call obtain s :: pipek where s: "pipe_call 1 0 ?pt s" "pipes s 1 = ex_pipe" "user_ok (mem s) ?pt"
    "\<forall>x<MAXVA. ubyte (mem s) ?pt x = (if PGROUNDDOWN x = 0 then Some 0 else None)" by auto
  have u: "ubytes (mem s) ?pt 0x10 ?xs"
    unfolding ubytes_def using ex_mapped(2) [OF s(4), of 16 3] by (auto simp: less_Suc_eq numeral_eq_Suc)
  have ok: "pt_ok (mem s) ?pt" using s(3) by (simp add: user_ok_def)
  have k: "(3 :: nat) = min (length ?xs) (PIPESIZE - length (pipe_seq (pipes s 1)))" by (simp add: s(2) ex_pipe PIPESIZE_def)
  have d: "False \<longleftrightarrow> 3 < length ?xs \<and> (\<not> pi_readopen (pipes s 1) \<or> p_killed (procs s ! 0) \<noteq> 0)" by simp
  from pipewrite_appends [OF s(1) ok u k d] obtain s' where "pipewrite 1 0x10 3 s = Inr (Return 3, s')" "pipe_seq (pipes s' 1) = [7, 0, 0, 0]"
    by (auto simp: s(2) ex_pipe)
  then show ?thesis using s(2) ex_pipe by (intro exI [of _ s] exI [of _ s']) simp
qed

section \<open>Reading\<close>

lemma copyout_byte:
  assumes "user_ok (mem s) pt" "umapped (mem s) pt va 1"
  shows "\<exists>m. copyout pt va [b] s = Inr (0, s\<lparr>mem := m\<rparr>) \<and> same_map pt (mem s) m \<and> ubyte m pt = uwrite va [b] (ubyte (mem s) pt)"
proof -
  have l: "length [b] = 1" "length [b] < 2 ^ 64" by simp_all
  from copyout_spec [OF assms(1) l(2), of va, unfolded l(1)] assms(2) obtain k m where
    "copyout pt va [b] s = Inr (0, s\<lparr>mem := m\<rparr>)" "k = 1" "same_map pt (mem s) m" "ubyte m pt = uwrite va (take k [b]) (ubyte (mem s) pt)" by auto
  then show ?thesis by (intro exI [of _ m]) simp
qed

lemma umapped_same: "same_map pt m m' \<Longrightarrow> umapped m' pt va n = umapped m pt va n"
  by (simp add: umapped_def upa_def same_map_def)

lemma umapped_Suc: "umapped m pt va (Suc n) \<longleftrightarrow> umapped m pt va 1 \<and> umapped m pt (va + 1) n"
  by (auto simp: umapped_def less_Suc_eq_0_disj add.assoc)

lemma same_map_refl: "user_ok m pt \<Longrightarrow> same_map pt m m"
  by (simp add: same_map_def same_page_def)

lemma uwrite_Nil [simp]: "uwrite va [] f = f"
  by (simp add: uwrite_def fun_eq_iff)

lemma uwrite_Cons: "Suc (length ys) \<le> 2 ^ 64 \<Longrightarrow> uwrite (va + 1) ys (uwrite va [b] f) = uwrite va (b # ys) f"
  using uwrite_append [of "[b]" ys va f] by simp

text \<open>As long as there are bytes, the loop moves byte after byte.\<close>

lemma piperead_copy_ok:
  assumes "pipe_ok (pipes s pi)" "mypagetable s = Inr pt" "user_ok (mem s) pt" "umapped (mem s) pt (addr + of_nat i) n" "n < 2 ^ 64"
    and "k = min n (length (pipe_seq (pipes s pi)))"
  shows "\<exists>m. piperead_copy pi addr [i..<i + n] i s = Inr (i + k, upd_pipe pi (pipe_pop ^^ k) (s\<lparr>mem := m\<rparr>)) \<and>
    same_map pt (mem s) m \<and> ubyte m pt = uwrite (addr + of_nat i) (take k (pipe_seq (pipes s pi))) (ubyte (mem s) pt)"
  using assms
proof (induction n arbitrary: i s k)
  case 0
  then show ?case by (intro exI [of _ "mem s"]) (simp add: upd_pipe_id same_map_refl)
next
  case (Suc n)
  show ?case
  proof (cases "pipe_seq (pipes s pi) = []")
    case True
    then show ?thesis using Suc.prems
      by (intro exI [of _ "mem s"]) (simp add: upt_conv_Cons pipe_empty_seq upd_pipe_id same_map_refl del: upt_Suc)
  next
    case False
    let ?b = "pipe_head (pipes s pi)" and ?a = "addr + of_nat i"
    note P = pipe_pop_seq [OF Suc.prems(1) False]
    have um: "umapped (mem s) pt ?a 1" "umapped (mem s) pt (?a + 1) n" using Suc.prems(4) unfolding umapped_Suc [of _ _ _ n] by blast+
    let ?s = "upd_pipe pi pipe_pop s"
    from copyout_byte [of ?s pt ?a ?b] Suc.prems(3) um(1) obtain m1 where
      1: "copyout pt ?a [?b] ?s = Inr (0, ?s\<lparr>mem := m1\<rparr>)" "same_map pt (mem s) m1" "ubyte m1 pt = uwrite ?a [?b] (ubyte (mem s) pt)" by auto
    let ?t = "?s\<lparr>mem := m1\<rparr>"
    have pt: "mypagetable ?t = Inr pt" using Suc.prems(2) by (simp add: mypagetable_def split: option.splits)
    have pt0: "mypagetable ?s = Inr pt" using Suc.prems(2) by simp
    have t: "pipes ?t pi = pipe_pop (pipes s pi)" "mem ?t = m1" by simp_all
    have nx: "addr + of_nat (Suc i) = ?a + 1" by simp
    obtain k' where k: "k = Suc k'" "k' = min n (length (pipe_seq (pipe_pop (pipes s pi))))"
      using Suc.prems(6) unfolding P(1) by simp
    from Suc.IH [of ?t "Suc i" k', unfolded t nx umapped_same [OF 1(2)]] P(2) pt 1(2) um(2) Suc.prems(5) k(2) obtain m where
      2: "piperead_copy pi addr [Suc i..<Suc i + n] (Suc i) ?t = Inr (Suc i + k', upd_pipe pi (pipe_pop ^^ k') (?t\<lparr>mem := m\<rparr>))"
        "same_map pt m1 m" "ubyte m pt = uwrite (?a + 1) (take k' (pipe_seq (pipe_pop (pipes s pi)))) (ubyte m1 pt)"
      by (auto simp: same_map_def)
    have "piperead_copy pi addr [i..<i + Suc n] i s = Inr (i + k, upd_pipe pi (pipe_pop ^^ k) (s\<lparr>mem := m\<rparr>))"
      using 1(1) 2(1) pt0 [unfolded upd_pipe_def] False k(1)
      by (simp add: upt_conv_Cons pipe_empty_seq Let_def funpow_Suc_right upd_pipe_def del: upt_Suc funpow.simps)
    moreover have "ubyte m pt = uwrite ?a (take k (pipe_seq (pipes s pi))) (ubyte (mem s) pt)"
      unfolding 2(3) 1(3) P(1) k(1) take_Suc_Cons using Suc.prems(5) k(2) by (intro uwrite_Cons) simp
    ultimately show ?thesis using same_map_trans [OF 1(2) 2(2)] by blast
  qed
qed

lemma pipe_pops [simp]:
  "pi_readopen ((pipe_pop ^^ k) p) = pi_readopen p" "pi_writeopen ((pipe_pop ^^ k) p) = pi_writeopen p"
  by (induction k) (simp_all add: pipe_pop_def)

text \<open>
  C0: \<open>piperead\<close> of up to \<open>n\<close> bytes into writable user memory takes bytes
  from the front of the pipe, as many as asked for or as there are, puts them
  in order at the address given, wakes the writers and returns their number.
  On an empty pipe with the write end open it returns -1 if the process has
  been killed and else sleeps, pipe lock held.  No other pipe, no other byte
  of the process and no page that is not mapped in its space changes.
\<close>

theorem piperead_takes:
  assumes call: "pipe_call pi c pt s" and ok: "user_ok (mem s) pt" "umapped (mem s) pt addr n" "n < 2 ^ 64"
    and k: "k = min n (length (pipe_seq (pipes s pi)))"
    and waits: "waits \<longleftrightarrow> pipe_seq (pipes s pi) = [] \<and> pi_writeopen (pipes s pi)"
  shows "\<exists>s'. piperead pi addr (int n) s = Inr
      (if waits then if p_killed (procs s ! c) \<noteq> 0 then Return (-1) else Waits (ChPipeRead pi) 0 else Return (int k), s') \<and>
    pipe_seq (pipes s' pi) = drop k (pipe_seq (pipes s pi)) \<and> pipe_ok (pipes s' pi) \<and>
    ubyte (mem s') pt = uwrite addr (take k (pipe_seq (pipes s pi))) (ubyte (mem s) pt) \<and> same_map pt (mem s) (mem s') \<and>
    pi_readopen (pipes s' pi) = pi_readopen (pipes s pi) \<and> pi_writeopen (pipes s' pi) = pi_writeopen (pipes s pi) \<and>
    (\<forall>q. q \<noteq> pi \<longrightarrow> pipes s' q = pipes s q) \<and> curproc s' = curproc s \<and>
    procs s' = (if waits then procs s else map (wake_mark (ChPipeWrite pi)) (procs s)) \<and>
    held s' = (if waits \<and> p_killed (procs s ! c) = 0 then LPipe pi # held s else held s)"
proof -
  note C = pipe_callD [OF call]
  let ?s = "s\<lparr>held := LPipe pi # held s\<rparr>"
  have kd: "mykilled ?s = Inr (p_killed (procs s ! c) \<noteq> 0)" using C(6) by (simp add: mykilled_def)
  show ?thesis
  proof (cases waits)
    case True
    then show ?thesis using C(1,3) kd waits k same_map_refl [OF ok(1)]
      by (simp add: piperead_def piperead_locked_def pipe_empty_seq)
  next
    case False
    have pt: "mypagetable ?s = Inr pt" using call by (simp add: pipe_call_def mypagetable_def)
    from piperead_copy_ok [of ?s pi pt addr 0 n k] C(3) pt ok k obtain m where
      1: "piperead_copy pi addr [0..<n] 0 ?s = Inr (k, upd_pipe pi (pipe_pop ^^ k) (?s\<lparr>mem := m\<rparr>))"
        "same_map pt (mem s) m" "ubyte m pt = uwrite addr (take k (pipe_seq (pipes s pi))) (ubyte (mem s) pt)" by auto
    let ?t = "upd_pipe pi (pipe_pop ^^ k) (?s\<lparr>mem := m\<rparr>)"
    have w: "wakeup (ChPipeWrite pi) ?t = Inr (?t\<lparr>procs := map (wake_mark (ChPipeWrite pi)) (procs s)\<rparr>)"
      using wakeup_eq [of ?t] C(4,5) by (simp add: no_proc_lock_def)
    have P: "pipe_seq (pipes ?t pi) = drop k (pipe_seq (pipes s pi))" "pipe_ok (pipes ?t pi)"
      using pq.pops [OF C(3), of k] k by simp_all
    show ?thesis using C(1) 1 w P False waits by (auto simp: piperead_def piperead_locked_def pipe_empty_seq upd_pipe_def)
  qed
qed

theorem piperead_takes_witness:
  "\<exists>(s :: pipek) s' pt. pipe_seq (pipes s 1) = [7] \<and> piperead 1 0x20 5 s = Inr (Return 1, s') \<and> pipe_seq (pipes s' 1) = [] \<and>
     ubyte (mem s') pt 0x20 = Some 7 \<and> ubyte (mem s') pt 0x21 = ubyte (mem s) pt 0x21"
proof -
  let ?pt = "ex_page 0"
  from ex_pipe_call obtain s :: pipek where s: "pipe_call 1 0 ?pt s" "pipes s 1 = ex_pipe" "user_ok (mem s) ?pt"
    "\<forall>x<MAXVA. ubyte (mem s) ?pt x = (if PGROUNDDOWN x = 0 then Some 0 else None)" by auto
  have u: "umapped (mem s) ?pt 0x20 5" using ex_mapped(1) [OF s(4), of 32 5] by simp
  have k: "(1 :: nat) = min 5 (length (pipe_seq (pipes s 1)))" by (simp add: s(2) ex_pipe)
  have d: "False \<longleftrightarrow> pipe_seq (pipes s 1) = [] \<and> pi_writeopen (pipes s 1)" by (simp add: s(2) ex_pipe)
  from piperead_takes [OF s(1,3) u _ k d] obtain s' where "piperead 1 0x20 5 s = Inr (Return 1, s')" "pipe_seq (pipes s' 1) = []"
    "ubyte (mem s') ?pt = uwrite 0x20 [7] (ubyte (mem s) ?pt)" by (auto simp: s(2) ex_pipe)
  then show ?thesis by (intro exI [of _ s] exI [of _ s'] exI [of _ ?pt]) (simp add: uwrite_def s(2) ex_pipe)
qed

end
