(* ===== verification/Consprops.thy ===== *)
theory Consprops
  imports Console Pipeprops
begin

text \<open>
  The line discipline of a console: a queue of finished lines and the line
  being edited.  \<open>consoleintr\<close> and \<open>consoleread\<close> implement it on one ring with
  three counters.
\<close>

section \<open>The console as a queue and an edit line\<close>

type_synonym discipline = "u8 list \<times> u8 list"

definition cons_queue :: "input \<Rightarrow> u8 list" where
  "cons_queue c = ring_seq INPUT_BUF (in_buf c) (in_r c) (in_w c)"

definition cons_edit :: "input \<Rightarrow> u8 list" where
  "cons_edit c = ring_seq INPUT_BUF (in_buf c) (in_w c) (in_e c)"

definition cons_abs :: "input \<Rightarrow> discipline" where
  "cons_abs c = (cons_queue c, cons_edit c)"

text \<open>The counters are in order and at most the ring apart, and the edit line has no newline.\<close>

definition cons_ring :: "input \<Rightarrow> bool" where
  "cons_ring c \<longleftrightarrow> length (in_buf c) = INPUT_BUF \<and> unat (in_w c - in_r c) \<le> unat (in_e c - in_r c) \<and> unat (in_e c - in_r c) \<le> INPUT_BUF"

definition cons_ok :: "input \<Rightarrow> bool" where
  "cons_ok c \<longleftrightarrow> cons_ring c \<and> (\<forall>b\<in>set (cons_edit c). uint b \<noteq> NL)"

lemma cons_ok_ring: "cons_ok c \<Longrightarrow> cons_ring c"
  by (simp add: cons_ok_def)

text \<open>What a character typed does to them.\<close>

definition ends_line :: "int \<Rightarrow> bool" where
  "ends_line c \<longleftrightarrow> c = NL \<or> c = ctrl CHR ''D''"

definition type_char :: "int \<Rightarrow> discipline \<Rightarrow> discipline" where
  "type_char c = (\<lambda>(q, ed).
     if c \<in> {ctrl CHR ''N'', ctrl CHR ''B'', ctrl CHR ''P''} then (q, ed)
     else if c = ctrl CHR ''U'' then (q, [])
     else if c = ctrl CHR ''H'' \<or> c = 0x7f then (q, butlast ed)
     else if c = 0 \<or> length q + length ed = INPUT_BUF then (q, ed)
     else let c = (if c = 13 then NL else c); ed = ed @ [word_of_int c] in
       if ends_line c \<or> length q + length ed = INPUT_BUF then (q @ ed, []) else (q, ed))"

lemma INPUT_BUF_dvd: "INPUT_BUF dvd 2 ^ 32" "INPUT_BUF < 2 ^ 32"
  by (simp_all add: INPUT_BUF_def)

lemma cons_lengths:
  assumes "cons_ring c"
  shows "unat (in_e c - in_r c) = length (cons_queue c) + length (cons_edit c)"
    "ring_seq INPUT_BUF (in_buf c) (in_r c) (in_e c) = cons_queue c @ cons_edit c"
    "in_e c = in_w c \<longleftrightarrow> cons_edit c = []" "in_r c = in_w c \<longleftrightarrow> cons_queue c = []"
    "length (cons_queue c) + length (cons_edit c) \<le> INPUT_BUF"
proof -
  have le: "unat (in_w c - in_r c) \<le> unat (in_e c - in_r c)" using assms by (simp add: cons_ring_def)
  show 1: "unat (in_e c - in_r c) = length (cons_queue c) + length (cons_edit c)"
    using unat_ring_add [OF le] by (simp add: cons_queue_def cons_edit_def)
  show "ring_seq INPUT_BUF (in_buf c) (in_r c) (in_e c) = cons_queue c @ cons_edit c"
    using ring_append [OF le] by (simp add: cons_queue_def cons_edit_def)
  show "in_e c = in_w c \<longleftrightarrow> cons_edit c = []" "in_r c = in_w c \<longleftrightarrow> cons_queue c = []"
    by (auto simp: cons_edit_def cons_queue_def ring_eq_Nil)
  show "length (cons_queue c) + length (cons_edit c) \<le> INPUT_BUF" using assms 1 by (simp add: cons_ring_def)
qed

text \<open>The assignments of \<open>consoleintr\<close>: a byte stored at \<open>e++\<close>, \<open>e--\<close>, and \<open>w = e\<close>; and \<open>r++\<close> of \<open>consoleread\<close>.\<close>

definition cons_put :: "u8 \<Rightarrow> input \<Rightarrow> input" where
  "cons_put b x = x\<lparr>in_buf := (in_buf x)[unat (in_e x) mod INPUT_BUF := b], in_e := in_e x + 1\<rparr>"

lemma cons_put_abs:
  assumes ok: "cons_ring c" and room: "length (cons_queue c) + length (cons_edit c) < INPUT_BUF"
  shows "cons_queue (cons_put b c) = cons_queue c" "cons_edit (cons_put b c) = cons_edit c @ [b]"
    "cons_ring (cons_put b c)"
    "in_e (cons_put b c) - in_r (cons_put b c) = of_nat (Suc (length (cons_queue c) + length (cons_edit c)))"
proof -
  note L = cons_lengths [OF ok]
  let ?d = "(in_buf c)[unat (in_e c) mod INPUT_BUF := b]"
  have len: "length (in_buf c) = INPUT_BUF" using ok by (simp add: cons_ring_def)
  have ed: "unat (in_e c - in_w c) < INPUT_BUF" using room by (simp add: cons_edit_def)
  have e: "ring_seq INPUT_BUF ?d (in_w c) (in_e c + 1) = cons_edit c @ [b]"
    unfolding cons_edit_def using INPUT_BUF_dvd len ed by (intro ring_snoc) simp_all
  have whole: "ring_seq INPUT_BUF ?d (in_r c) (in_e c + 1) = cons_queue c @ cons_edit c @ [b]"
    using ring_snoc [OF INPUT_BUF_dvd(1) len INPUT_BUF_dvd(2), of "in_e c" "in_r c" b] L(1,2) room by simp
  have "unat (in_e c + 1 - in_r c) = length (cons_queue c) + length (cons_edit c) + 1"
    using arg_cong [OF whole, of length] by simp
  then have le: "unat (in_w c - in_r c) \<le> unat (in_e c + 1 - in_r c)" "unat (in_e c + 1 - in_r c) = Suc (length (cons_queue c) + length (cons_edit c))"
    by (simp_all add: cons_queue_def)
  have "ring_seq INPUT_BUF ?d (in_r c) (in_w c) @ (cons_edit c @ [b]) = cons_queue c @ cons_edit c @ [b]"
    using ring_append [OF le(1), of INPUT_BUF ?d] e whole by simp
  then have q: "ring_seq INPUT_BUF ?d (in_r c) (in_w c) = cons_queue c" by simp
  show 1: "cons_queue (cons_put b c) = cons_queue c" "cons_edit (cons_put b c) = cons_edit c @ [b]"
    using q e by (simp_all add: cons_put_def cons_queue_def cons_edit_def)
  show "cons_ring (cons_put b c)"
    using ok le room unfolding cons_ring_def by (simp add: cons_put_def)
  show "in_e (cons_put b c) - in_r (cons_put b c) = of_nat (Suc (length (cons_queue c) + length (cons_edit c)))"
    unfolding le(2) [symmetric] by (simp add: cons_put_def)
qed

lemma cons_commit_abs:
  assumes ok: "cons_ring c"
  shows "cons_queue (c\<lparr>in_w := in_e c\<rparr>) = cons_queue c @ cons_edit c" "cons_edit (c\<lparr>in_w := in_e c\<rparr>) = []"
    "cons_ok (c\<lparr>in_w := in_e c\<rparr>)"
proof -
  show "cons_queue (c\<lparr>in_w := in_e c\<rparr>) = cons_queue c @ cons_edit c" using cons_lengths(2) [OF ok] by (simp add: cons_queue_def [of "_\<lparr>in_w := _\<rparr>"])
  show e: "cons_edit (c\<lparr>in_w := in_e c\<rparr>) = []" by (simp add: cons_edit_def ring_eq_Nil)
  show "cons_ok (c\<lparr>in_w := in_e c\<rparr>)" using ok unfolding cons_ok_def e by (simp add: cons_ring_def)
qed

lemma cons_back_abs:
  assumes ok: "cons_ok c" and ne: "cons_edit c \<noteq> []"
  shows "cons_queue (c\<lparr>in_e := in_e c - 1\<rparr>) = cons_queue c" "cons_edit (c\<lparr>in_e := in_e c - 1\<rparr>) = butlast (cons_edit c)"
    "cons_ok (c\<lparr>in_e := in_e c - 1\<rparr>)"
proof -
  note L = cons_lengths [OF cons_ok_ring [OF ok]]
  have we: "in_w c \<noteq> in_e c" using ne L(3) by auto
  show q: "cons_queue (c\<lparr>in_e := in_e c - 1\<rparr>) = cons_queue c" by (simp add: cons_queue_def)
  show e: "cons_edit (c\<lparr>in_e := in_e c - 1\<rparr>) = butlast (cons_edit c)" using ring_butlast(1) [OF we] by (simp add: cons_edit_def)
  have "0 < length (cons_edit c)" using ne by simp
  then have "in_e c - in_r c \<noteq> 0" using L(1) by auto
  then have "unat (in_e c - in_r c - 1) = length (cons_queue c) + length (cons_edit c) - 1" unfolding L(1) [symmetric] by (rule unat_minus_one)
  then have "unat (in_e c - 1 - in_r c) = length (cons_queue c) + length (cons_edit c) - 1" by (simp add: algebra_simps)
  moreover have "length (cons_queue c) = unat (in_w c - in_r c)" by (simp add: cons_queue_def)
  ultimately have "unat (in_w c - in_r c) \<le> unat (in_e c - 1 - in_r c)" "unat (in_e c - 1 - in_r c) \<le> INPUT_BUF"
    using L(5) \<open>0 < length (cons_edit c)\<close> by linarith+
  then show "cons_ok (c\<lparr>in_e := in_e c - 1\<rparr>)" using ok unfolding cons_ok_def e by (auto simp: cons_ring_def dest: in_set_butlastD)
qed

section \<open>Typing\<close>

lemma upd_cons_simps [simp]:
  "i < length (cons s) \<Longrightarrow> cons (upd_cons i f s) ! i = f (cons s ! i)" "j \<noteq> i \<Longrightarrow> cons (upd_cons i f s) ! j = cons s ! j"
  "length (cons (upd_cons i f s)) = length (cons s)" "held (upd_cons i f s) = held s" "procs (upd_cons i f s) = procs s"
  "curproc (upd_cons i f s) = curproc s" "active (upd_cons i f s) = active s" "mem (upd_cons i f s) = mem s"
  by (simp_all add: upd_cons_def)

text \<open>Everything but the input of console \<open>d\<close>, and the characters echoed, is the same.\<close>

definition cons_same :: "nat \<Rightarrow> 'a consk_scheme \<Rightarrow> 'a consk_scheme \<Rightarrow> bool" where
  "cons_same d s s' \<longleftrightarrow> (\<exists>c out. s' = s\<lparr>cons := (cons s)[d := c], uart := uart s @ out\<rparr>)"

lemma consputc_out: "consputc c s = s\<lparr>uart := uart s @ (if c = BACKSPACE then [8, 32, 8] else [word_of_int c])\<rparr>"
  by (simp add: consputc_def uartputc_def)

lemma cons_same_trans: "cons_same d s s1 \<Longrightarrow> cons_same d s1 s2 \<Longrightarrow> cons_same d s s2"
  unfolding cons_same_def by (elim exE) (simp, blast)

lemma cons_same_refl [intro]: "cons_same d s s"
  unfolding cons_same_def by (intro exI [of _ "cons s ! d"] exI [of _ "[]"]) simp

lemma cons_same_consputc [intro]: "cons_same d s (consputc c s)"
  unfolding cons_same_def consputc_out by (rule exI [of _ "cons s ! d"]) auto

lemma cons_same_upd [intro]: "cons_same d s (upd_cons d f s)"
  unfolding cons_same_def upd_cons_def by (intro exI [of _ "f (cons s ! d)"] exI [of _ "[]"]) simp

lemma kill_line_abs:
  assumes "d < length (cons s)" "cons_ok (cons s ! d)"
  shows "cons_queue (cons (kill_line d s) ! d) = cons_queue (cons s ! d) \<and> cons_edit (cons (kill_line d s) ! d) = [] \<and>
    cons_ok (cons (kill_line d s) ! d) \<and> cons_same d s (kill_line d s)"
  using assms
proof (induction d s rule: kill_line.induct)
  case (1 d s)
  let ?c = "cons s ! d"
  note L = cons_lengths [OF cons_ok_ring [OF 1(3)]]
  show ?case
  proof (cases "cons_edit ?c = []")
    case True
    then have "kill_line d s = s" using L(3) by (subst kill_line.simps) (simp add: Let_def)
    then show ?thesis using True 1(3) by auto
  next
    case False
    let ?s = "consputc BACKSPACE (upd_cons d (\<lambda>x. x\<lparr>in_e := in_e x - 1\<rparr>) s)"
    have we: "in_e ?c \<noteq> in_w ?c" using L(3) False by simp
    then have "in_w ?c \<noteq> in_e ?c" by simp
    then have "last (cons_edit ?c) = in_buf ?c ! (unat (in_e ?c - 1) mod INPUT_BUF)" unfolding cons_edit_def by (rule ring_butlast(2))
    then have nl: "uint (in_buf ?c ! (unat (in_e ?c - 1) mod INPUT_BUF)) \<noteq> NL"
      using 1(3) last_in_set [OF False] by (simp add: cons_ok_def)
    have k: "kill_line d s = kill_line d ?s" using we nl 1(2) by (subst kill_line.simps) (simp add: Let_def)
    have s: "cons ?s ! d = ?c\<lparr>in_e := in_e ?c - 1\<rparr>" using 1(2) by simp
    note B = cons_back_abs [OF 1(3) False]
    have IH: "cons_queue (cons (kill_line d ?s) ! d) = cons_queue (cons ?s ! d) \<and> cons_edit (cons (kill_line d ?s) ! d) = [] \<and>
      cons_ok (cons (kill_line d ?s) ! d) \<and> cons_same d ?s (kill_line d ?s)"
      using 1(1) [OF refl] 1(2) we nl B(3) s by simp
    have "cons_same d s (kill_line d ?s)"
      using cons_same_trans [OF cons_same_trans [OF cons_same_upd cons_same_consputc]] IH by blast
    then show ?thesis unfolding k using IH B(1) s by simp
  qed
qed

lemma ctrl_codes [simp]:
  "ctrl CHR ''N'' = 14" "ctrl CHR ''B'' = 2" "ctrl CHR ''P'' = 16" "ctrl CHR ''U'' = 21" "ctrl CHR ''H'' = 8" "ctrl CHR ''D'' = 4"
  by (simp_all add: ctrl_def)

lemma consputc_simps [simp]:
  "held (consputc c s) = held s" "procs (consputc c s) = procs s" "active (consputc c s) = active s" "mem (consputc c s) = mem s"
  by (simp_all add: consputc_out)

lemma cons_sameD:
  assumes "cons_same d s s'"
  shows "i \<noteq> d \<Longrightarrow> cons s' ! i = cons s ! i" "held s' = held s" "procs s' = procs s" "active s' = active s" "mem s' = mem s" "length (cons s') = length (cons s)"
  using assms by (auto simp: cons_same_def)

text \<open>The effect of \<open>consoleintr\<close> between taking and releasing the lock.\<close>

definition typed :: "int \<Rightarrow> nat \<Rightarrow> 'a consk_scheme \<Rightarrow> 'a consk_scheme \<Rightarrow> bool" where
  "typed c d s t \<longleftrightarrow> cons_abs (cons t ! d) = type_char c (cons_abs (cons s ! d)) \<and> cons_ok (cons t ! d) \<and>
     (\<forall>i. i \<noteq> d \<longrightarrow> cons t ! i = cons s ! i) \<and> active t = active s \<and> mem t = mem s \<and> held t = held s \<and>
     procs t = (if fst (type_char c (cons_abs (cons s ! d))) = cons_queue (cons s ! d) then procs s else map (wake_mark (ChCons d)) (procs s))"

lemma typed_same:
  assumes "cons_same d s t" "cons_abs (cons t ! d) = type_char c (cons_abs (cons s ! d))" "cons_ok (cons t ! d)"
    "cons_queue (cons t ! d) = cons_queue (cons s ! d)"
  shows "typed c d s t"
proof -
  have "fst (type_char c (cons_abs (cons s ! d))) = cons_queue (cons s ! d)"
    using assms(2,4) unfolding cons_abs_def [of "cons t ! d"] by (metis fst_conv)
  then show ?thesis using assms(2,3) cons_sameD [OF assms(1)] by (simp add: typed_def)
qed

text \<open>An ordinary character with room in the ring.\<close>

lemma type_store:
  assumes d: "d < length (cons s)" and ok: "cons_ok (cons s ! d)" and P: "no_proc_lock s" "length (procs s) = NPROC"
    and c: "0 < c" "c < 256" "c \<notin> {14, 2, 16, 21, 8, 127}" and room: "length (cons_queue (cons s ! d)) + length (cons_edit (cons s ! d)) < INPUT_BUF"
    and c': "c' = (if c = 13 then NL else c)" and t: "t = upd_cons d (cons_put (word_of_int c')) (consputc c' s)"
  shows "\<exists>t'. (if c' = NL \<or> c' = ctrl CHR ''D'' \<or> in_e (cons t ! d) = in_r (cons t ! d) + of_nat INPUT_BUF
      then wakeup (ChCons d) (upd_cons d (\<lambda>x. x\<lparr>in_w := in_e x\<rparr>) t) else Inr t) = Inr t' \<and> typed c d s t'"
proof -
  let ?x = "cons s ! d" and ?b = "word_of_int c' :: u8"
  note A = cons_put_abs [OF cons_ok_ring [OF ok] room, of ?b]
  have td: "cons t ! d = cons_put ?b ?x" "cons_same d s t" using d t cons_same_trans [OF cons_same_consputc cons_same_upd] by simp_all
  define full where "full \<longleftrightarrow> length (cons_queue ?x) + length (cons_edit ?x) + 1 = INPUT_BUF"
  have ub: "uint ?b = c'" using c c' by (simp add: NL_def uint_word_of_int)
  have "in_e (cons t ! d) = in_r (cons t ! d) + of_nat INPUT_BUF \<longleftrightarrow> in_e (cons t ! d) - in_r (cons t ! d) = of_nat INPUT_BUF"
    by (auto simp: algebra_simps)
  also have "\<dots> \<longleftrightarrow> (of_nat (Suc (length (cons_queue ?x) + length (cons_edit ?x))) :: u32) = of_nat INPUT_BUF" unfolding td(1) A(4) ..
  also have "\<dots> \<longleftrightarrow> full" unfolding full_def using room INPUT_BUF_dvd(2) by (subst u32_of_nat_eq) simp_all
  finally have f: "in_e (cons t ! d) = in_r (cons t ! d) + of_nat INPUT_BUF \<longleftrightarrow> full" .
  have tc: "type_char c (cons_abs ?x) = (if ends_line c' \<or> full then (cons_queue ?x @ cons_edit ?x @ [?b], []) else (cons_queue ?x, cons_edit ?x @ [?b]))"
    using c c' room by (auto simp: type_char_def cons_abs_def Let_def full_def)
  show ?thesis
  proof (cases "ends_line c' \<or> full")
    case False
    then have "cons_ok (cons t ! d)" unfolding td(1) cons_ok_def A(2) using ub ok A(3) by (auto simp: ends_line_def cons_ok_def)
    moreover have "cons_abs (cons t ! d) = type_char c (cons_abs ?x)" using False tc A(1,2) by (simp add: td(1) cons_abs_def)
    ultimately have "typed c d s t" using td A(1) by (intro typed_same) simp_all
    then show ?thesis using False f by (simp add: ends_line_def)
  next
    case True
    let ?t = "upd_cons d (\<lambda>x. x\<lparr>in_w := in_e x\<rparr>) t"
    note D = cons_sameD [OF cons_same_trans [OF td(2) cons_same_upd, of "\<lambda>x. x\<lparr>in_w := in_e x\<rparr>"]]
    have w: "wakeup (ChCons d) ?t = Inr (?t\<lparr>procs := map (wake_mark (ChCons d)) (procs s)\<rparr>)"
      using wakeup_eq [of ?t "ChCons d"] P D(2,3) by (simp add: no_proc_lock_def)
    have td': "cons ?t ! d = (cons_put ?b ?x)\<lparr>in_w := in_e (cons_put ?b ?x)\<rparr>" using td(1) d cons_sameD(6) [OF td(2)] by simp
    note T = cons_commit_abs [OF A(3), folded td', unfolded A(1,2)]
    have "typed c d s (?t\<lparr>procs := map (wake_mark (ChCons d)) (procs s)\<rparr>)"
      unfolding typed_def using T True tc D by (simp add: cons_abs_def)
    then show ?thesis using w True f by (auto simp: ends_line_def)
  qed
qed

lemma bindE_ok: "m = Inr t \<Longrightarrow> bindE m f = f t"
  by simp

text \<open>The body of \<open>consoleintr\<close> on every character.\<close>

lemma consoleintr_typed:
  assumes d: "d < length (cons s)" and ok: "cons_ok (cons s ! d)" and P: "no_proc_lock s" "length (procs s) = NPROC" and c: "0 \<le> c" "c < 256"
  shows "\<exists>t. (if c = ctrl CHR ''N'' \<or> c = ctrl CHR ''B'' \<or> c = ctrl CHR ''P'' then Inr s
      else if c = ctrl CHR ''U'' then Inr (kill_line d s)
      else if c = ctrl CHR ''H'' \<or> c = 0x7f then
        if in_e (cons s ! d) \<noteq> in_w (cons s ! d) then
          Inr (consputc BACKSPACE (upd_cons d (\<lambda>x. x\<lparr>in_e := in_e x - 1\<rparr>) s))
        else Inr s
      else if c \<noteq> 0 \<and> unat (in_e (cons s ! d) - in_r (cons s ! d)) < INPUT_BUF then
        let c = (if c = 13 then NL else c);
            s = consputc c s;
            s = upd_cons d (\<lambda>x. x\<lparr>in_buf := (in_buf x)[unat (in_e x) mod INPUT_BUF := word_of_int c], in_e := in_e x + 1\<rparr>) s in
        if c = NL \<or> c = ctrl CHR ''D'' \<or> in_e (cons s ! d) = in_r (cons s ! d) + of_nat INPUT_BUF then
          wakeup (ChCons d) (upd_cons d (\<lambda>x. x\<lparr>in_w := in_e x\<rparr>) s)
        else Inr s
      else Inr s) = Inr t \<and> typed c d s t" (is "\<exists>t. ?body = Inr t \<and> _")
proof -
  let ?x = "cons s ! d"
  note L = cons_lengths [OF cons_ok_ring [OF ok]]
  consider (swap) "c \<in> {14, 2, 16}" | (kill) "c = 21" | (erase) "c \<in> {8, 127}" | (drop) "c \<notin> {14, 2, 16, 21, 8, 127}" "c = 0 \<or> \<not> unat (in_e ?x - in_r ?x) < INPUT_BUF"
    | (store) "c \<notin> {14, 2, 16, 21, 8, 127}" "0 < c" "unat (in_e ?x - in_r ?x) < INPUT_BUF" using c by force
  then show ?thesis
  proof cases
    case swap
    then have "typed c d s s" using ok by (intro typed_same) (auto simp: type_char_def cons_abs_def)
    then show ?thesis using swap by auto
  next
    case kill
    have "typed c d s (kill_line d s)" using kill_line_abs [OF d ok] kill by (intro typed_same) (auto simp: type_char_def cons_abs_def)
    then show ?thesis using kill by auto
  next
    case erase
    then have tc: "type_char c (cons_abs ?x) = (cons_queue ?x, butlast (cons_edit ?x))" by (auto simp: type_char_def cons_abs_def)
    show ?thesis
    proof (cases "cons_edit ?x = []")
      case True
      then have "typed c d s s" using ok tc by (intro typed_same) (auto simp: cons_abs_def)
      then show ?thesis using erase True L(3) by auto
    next
      case False
      let ?t = "consputc BACKSPACE (upd_cons d (\<lambda>x. x\<lparr>in_e := in_e x - 1\<rparr>) s)"
      have "typed c d s ?t" using cons_back_abs [OF ok False] d tc
        by (intro typed_same cons_same_trans [OF cons_same_upd cons_same_consputc]) (simp_all add: cons_abs_def)
      then show ?thesis using erase False L(3) by auto
    qed
  next
    case drop
    then have "typed c d s s" using ok L(1,5) by (intro typed_same) (auto simp: type_char_def cons_abs_def)
    then show ?thesis using drop by auto
  next
    case store
    have p: "(\<lambda>x. x\<lparr>in_buf := (in_buf x)[unat (in_e x) mod INPUT_BUF := word_of_int b], in_e := in_e x + 1\<rparr>) = cons_put (word_of_int b)" for b
      by (simp add: fun_eq_iff cons_put_def)
    have room: "length (cons_queue ?x) + length (cons_edit ?x) < INPUT_BUF" using store(3) unfolding L(1) .
    from type_store [OF d ok P store(2) c(2) store(1) room refl refl] store show ?thesis unfolding p Let_def by simp
  qed
qed

text \<open>
  C0: A byte that arrives for the active console acts on its two parts, the
  queue of finished lines and the line being edited, as the line discipline
  says: ^U empties the edit line, ^H and DEL take its last byte, any other
  byte is appended to it if the ring has room (carriage return as newline),
  and newline, ^D or a full ring moves the line to the queue and wakes the
  readers.  The counters stay in order, no other console's input changes, and
  ^N and ^B switch to the next and the previous console.
\<close>

theorem consoleintr_edits:
  assumes "active s = d" "d < NDEV" "length (cons s) = NDEV" "cons_ok (cons s ! d)" "LCons d \<notin> set (held s)" "no_proc_lock s" "length (procs s) = NPROC"
    "0 \<le> c" "c < 256"
  shows "\<exists>s'. consoleintr c s = Inr s' \<and> cons_abs (cons s' ! d) = type_char c (cons_abs (cons s ! d)) \<and> cons_ok (cons s' ! d) \<and>
    (\<forall>i. i \<noteq> d \<longrightarrow> cons s' ! i = cons s ! i) \<and> held s' = held s \<and> mem s' = mem s \<and>
    active s' = (if c = ctrl CHR ''N'' then (d + 1) mod NDEV else if c = ctrl CHR ''B'' then (d + NDEV - 1) mod NDEV else d) \<and>
    procs s' = (if cons_queue (cons s' ! d) = cons_queue (cons s ! d) then procs s else map (wake_mark (ChCons d)) (procs s))"
proof -
  let ?s = "s\<lparr>held := LCons d # held s\<rparr>"
  have "no_proc_lock ?s" using assms(6) by (simp add: no_proc_lock_def)
  then have pre: "d < length (cons ?s)" "cons_ok (cons ?s ! d)" "no_proc_lock ?s" "length (procs ?s) = NPROC" using assms by simp_all
  let ?sw = "\<lambda>t. if c = ctrl CHR ''N'' then nextconsole t else if c = ctrl CHR ''B'' then prevconsole t else t"
  have "\<exists>t. typed c d ?s t \<and> consoleintr c s = bindE (release (LCons d) t) (\<lambda>t. Inr (?sw t))"
    using consoleintr_typed [OF pre assms(8,9)] unfolding consoleintr_def assms(1) Let_def [of d] acquire_free [OF assms(5)] bindE_Inr
    by - (elim exE conjE, intro exI conjI, assumption, rule bindE_ok, assumption)
  then obtain t where t: "typed c d ?s t" "consoleintr c s = bindE (release (LCons d) t) (\<lambda>t. Inr (?sw t))" by blast
  then have run: "consoleintr c s = Inr (?sw (t\<lparr>held := held s\<rparr>))" by (simp add: typed_def)
  have m: "(if int d - 1 < 0 then NDEV - 1 else (d - 1) mod NDEV) = (d + NDEV - 1) mod NDEV" using assms(2) by (simp add: NDEV_def mod_if)
  have sw: "active (?sw u) = (if c = ctrl CHR ''N'' then (d + 1) mod NDEV else if c = ctrl CHR ''B'' then (d + NDEV - 1) mod NDEV else d)"
    "cons (?sw u) = cons u" "held (?sw u) = held u" "mem (?sw u) = mem u" "procs (?sw u) = procs u" if "active u = d" for u :: "'a consk_scheme"
    using that m by (simp_all add: nextconsole_def prevconsole_def split: if_split_asm)
  have q: "fst (type_char c (cons_abs (cons s ! d))) = cons_queue (cons t ! d)"
  proof -
    have "cons_abs (cons t ! d) = type_char c (cons_abs (cons s ! d))" using t(1) by (simp add: typed_def)
    then show ?thesis unfolding cons_abs_def [of "cons t ! d"] by (metis fst_conv)
  qed
  have T: "active t = d" "cons_abs (cons t ! d) = type_char c (cons_abs (cons s ! d))" "cons_ok (cons t ! d)" "\<forall>i. i \<noteq> d \<longrightarrow> cons t ! i = cons s ! i"
    "mem t = mem s" "procs t = (if cons_queue (cons t ! d) = cons_queue (cons s ! d) then procs s else map (wake_mark (ChCons d)) (procs s))"
    using t(1) assms(1) by (simp_all add: typed_def q)
  show ?thesis using T sw [of "t\<lparr>held := held s\<rparr>"] run by (intro exI [of _ "?sw (t\<lparr>held := held s\<rparr>)"]) (simp only: simp_thms, simp)
qed

text \<open>The line \<open>b\<close> is finished by a carriage return; the counters wrap around.\<close>

definition ex_console :: input where
  "ex_console = \<lparr>in_buf = replicate 128 0x62, in_r = 0xfffffffe, in_w = 0xfffffffe, in_e = 0xffffffff\<rparr>"

theorem consoleintr_edits_witness:
  "\<exists>(s :: consk) s'. cons_abs (cons s ! 1) = ([], [0x62]) \<and> consoleintr 13 s = Inr s' \<and> cons_abs (cons s' ! 1) = ([0x62, 10], [])"
proof -
  let ?s = "(undefined :: consk)\<lparr>held := [], procs := replicate NPROC proc0, cons := replicate NDEV ex_console, active := 1\<rparr>"
  have x: "cons_abs ex_console = ([], [0x62])" by (simp add: cons_abs_def cons_queue_def cons_edit_def ex_console_def ring_seq_def INPUT_BUF_def)
  then have ok: "cons_ok ex_console" by (simp add: cons_ok_def cons_ring_def cons_abs_def) (simp add: ex_console_def INPUT_BUF_def NL_def)
  have "type_char 13 ([], [0x62]) = ([0x62, 10], [])" by (simp add: type_char_def ends_line_def NL_def INPUT_BUF_def Let_def)
  with consoleintr_edits [of ?s 1 13] x ok obtain s' where "consoleintr 13 ?s = Inr s'" "cons_abs (cons s' ! 1) = ([0x62, 10], [])"
    by (auto simp: no_proc_lock_def NDEV_def)
  then show ?thesis using x by (intro exI [of _ ?s] exI [of _ s']) (simp add: NDEV_def)
qed

section \<open>Reading\<close>

text \<open>
  What a read of up to \<open>n\<close> bytes, \<open>k\<close> delivered before, takes from the queue:
  the bytes delivered, the queue left, and whether the reader has to wait.
\<close>

fun read_line :: "nat \<Rightarrow> nat \<Rightarrow> u8 list \<Rightarrow> u8 list \<times> u8 list \<times> bool" where
  "read_line k 0 q = ([], q, False)"
| "read_line k (Suc n) [] = ([], [], True)"
| "read_line k (Suc n) (b # q) =
     (if uint b = ctrl CHR ''D'' then ([], if 0 < k then b # q else q, False)
      else if uint b = NL then ([b], q, False)
      else let (out, rest, wait) = read_line (Suc k) n q in (b # out, rest, wait))"

lemma read_line_length: "read_line k n q = (out, rest, wait) \<Longrightarrow> length out \<le> n"
  by (induction k n q arbitrary: out rule: read_line.induct) (auto split: if_split_asm prod.splits)

lemma cons_pop_abs:
  assumes ok: "cons_ok c" and ne: "cons_queue c \<noteq> []"
  shows "cons_queue c = in_buf c ! (unat (in_r c) mod INPUT_BUF) # cons_queue (c\<lparr>in_r := in_r c + 1\<rparr>)"
    "cons_edit (c\<lparr>in_r := in_r c + 1\<rparr>) = cons_edit c" "cons_ok (c\<lparr>in_r := in_r c + 1\<rparr>)"
proof -
  note L = cons_lengths [OF cons_ok_ring [OF ok]]
  let ?c = "c\<lparr>in_r := in_r c + 1\<rparr>"
  have rw: "in_r c \<noteq> in_w c" using L(4) ne by simp
  show 1: "cons_queue c = in_buf c ! (unat (in_r c) mod INPUT_BUF) # cons_queue ?c" using ring_Cons [OF rw] by (simp add: cons_queue_def)
  show 2: "cons_edit ?c = cons_edit c" by (simp add: cons_edit_def)
  have "in_r c \<noteq> in_e c" using L(2) ne ring_eq_Nil by (metis append_is_Nil_conv)
  then have "ring_seq INPUT_BUF (in_buf c) (in_r c + 1) (in_e c) = cons_queue ?c @ cons_edit c" using L(2) 1 ring_Cons [of "in_r c" "in_e c" INPUT_BUF "in_buf c"] by simp
  then have "unat (in_e c - (in_r c + 1)) = length (cons_queue ?c) + length (cons_edit c)" by (metis length_append length_ring_seq)
  moreover have "length (cons_queue ?c) = unat (in_w c - (in_r c + 1))" by (simp add: cons_queue_def)
  moreover have "Suc (length (cons_queue ?c)) = length (cons_queue c)" by (subst 1) simp
  ultimately have "unat (in_w c - (in_r c + 1)) \<le> unat (in_e c - (in_r c + 1))" "unat (in_e c - (in_r c + 1)) \<le> INPUT_BUF"
    using L(5) by linarith+
  then show "cons_ok ?c" using ok 2 by (simp add: cons_ok_def cons_ring_def)
qed

text \<open>The state when a read stops: input and memory changed, and the lock kept if it sleeps.\<close>

definition read_state :: "nat \<Rightarrow> bool \<Rightarrow> input \<Rightarrow> memory \<Rightarrow> 'a consk_scheme \<Rightarrow> 'a consk_scheme" where
  "read_state d sleeps c m s = s\<lparr>cons := (cons s)[d := c], mem := m, held := if sleeps then held s else remove1 (LCons d) (held s)\<rparr>"

lemma consoleread_loop_ok:
  assumes "d < length (cons s)" "cons_ok (cons s ! d)" "mypagetable s = Inr pt" "mykilled s = Inr killed" "LCons d \<in> set (held s)"
    "user_ok (mem s) pt" "umapped (mem s) pt (addr + of_nat k) n" "n < 2 ^ 64" "read_line k n (cons_queue (cons s ! d)) = (out, rest, wait)"
  shows "\<exists>c m. consoleread_loop d (UserDst addr) k n s =
      Inr (if wait then if killed then Return (-1) else Waits (ChCons d) (k + length out) else Return (int (k + length out)),
        read_state d (wait \<and> \<not> killed) c m s) \<and>
    cons_abs c = (rest, cons_edit (cons s ! d)) \<and> cons_ok c \<and> same_map pt (mem s) m \<and>
    ubyte m pt = uwrite (addr + of_nat k) out (ubyte (mem s) pt)"
  using assms
proof (induction n arbitrary: k s out)
  case 0
  then show ?case by (intro exI [of _ "cons s ! d"] exI [of _ "mem s"]) (simp add: read_state_def cons_abs_def same_map_refl)
next
  case (Suc n)
  let ?c = "cons s ! d" and ?a = "addr + of_nat k"
  note L = cons_lengths [OF cons_ok_ring [OF Suc.prems(2)]]
  show ?case
  proof (cases "cons_queue ?c")
    case Nil
    then show ?thesis using Suc.prems L(4)
      by (intro exI [of _ ?c] exI [of _ "mem s"]) (auto simp: read_state_def cons_abs_def same_map_refl Let_def)
  next
    case (Cons b q)
    let ?c1 = "?c\<lparr>in_r := in_r ?c + 1\<rparr>"
    let ?s1 = "s\<lparr>cons := (cons s)[d := ?c1]\<rparr>"
    note P = cons_pop_abs [OF Suc.prems(2)]
    have b: "in_buf ?c ! (unat (in_r ?c) mod INPUT_BUF) = b" "cons_queue ?c1 = q" "cons_edit ?c1 = cons_edit ?c" "cons_ok ?c1" using P Cons by simp_all
    have rw: "in_r ?c \<noteq> in_w ?c" using L(4) Cons by simp
    show ?thesis
    proof (cases "uint b = ctrl CHR ''D''")
      case True
      let ?c2 = "if 0 < k then ?c else ?c1"
      have "consoleread_loop d (UserDst addr) k (Suc n) s = Inr (Return (int k), read_state d False ?c2 (mem s) s)"
        using True rw b(1) Suc.prems(1,5) by (simp add: Let_def upd_cons_def read_state_def)
      then show ?thesis using True Cons Suc.prems(2,6,9) b(2-4)
        by (intro exI [of _ ?c2] exI [of _ "mem s"]) (auto simp: cons_abs_def same_map_refl split: if_split_asm)
    next
      case False
      have um: "umapped (mem s) pt ?a 1" "umapped (mem s) pt (?a + 1) n" using Suc.prems(7) unfolding umapped_Suc [of _ _ _ n] by blast+
      from copyout_byte [of ?s1 pt ?a b] Suc.prems(6) um(1) obtain m1 where
        1: "copyout pt ?a [b] ?s1 = Inr (0, ?s1\<lparr>mem := m1\<rparr>)" "same_map pt (mem s) m1" "ubyte m1 pt = uwrite ?a [b] (ubyte (mem s) pt)" by auto
      let ?s2 = "?s1\<lparr>mem := m1\<rparr>"
      have mp: "mypagetable ?s1 = Inr pt" "mypagetable ?s2 = Inr pt" "mykilled ?s2 = Inr killed"
        using Suc.prems(3,4) by (simp_all add: mypagetable_def mykilled_def split: option.splits)
      have step: "consoleread_loop d (UserDst addr) k (Suc n) s =
          (if uint b = NL then Inr (Return (int (Suc k)), ?s2\<lparr>held := remove1 (LCons d) (held s)\<rparr>) else consoleread_loop d (UserDst addr) (Suc k) n ?s2)"
        using False rw b(1) Suc.prems(1,5) 1(1) mp(1) by (simp add: Let_def upd_cons_def either_copyout_def dest_add_def)
      show ?thesis
      proof (cases "uint b = NL")
        case True
        then have "out = [b]" "rest = q" "\<not> wait" using Suc.prems(9) Cons False by simp_all
        then show ?thesis using step True 1(2,3) b(2-4)
          by (intro exI [of _ ?c1] exI [of _ m1]) (simp add: read_state_def cons_abs_def)
      next
        case nl: False
        then obtain o1 where o1: "read_line (Suc k) n q = (o1, rest, wait)" "out = b # o1" using Suc.prems(9) Cons False by (auto split: prod.splits)
        have nx: "addr + of_nat (Suc k) = ?a + 1" by simp
        have c2: "cons ?s2 ! d = ?c1" "mem ?s2 = m1" using Suc.prems(1) by simp_all
        from Suc.IH [of ?s2 "Suc k" o1, unfolded nx c2 b(2,3) umapped_same [OF 1(2)]] Suc.prems(1,5,8) b(4) mp(2,3) 1(2) um(2) o1(1) obtain c m where
          2: "consoleread_loop d (UserDst addr) (Suc k) n ?s2 =
              Inr (if wait then if killed then Return (-1) else Waits (ChCons d) (Suc k + length o1) else Return (int (Suc k + length o1)),
                read_state d (wait \<and> \<not> killed) c m ?s2)" "cons_abs c = (rest, cons_edit ?c)" "cons_ok c" "same_map pt m1 m"
             "ubyte m pt = uwrite (?a + 1) o1 (ubyte m1 pt)" by (auto simp: same_map_def)
        have "length o1 \<le> n" using o1(1) by (rule read_line_length)
        then have "ubyte m pt = uwrite ?a out (ubyte (mem s) pt)" unfolding 2(5) 1(3) o1(2) using Suc.prems(8) by (intro uwrite_Cons) simp
        moreover have "read_state d (wait \<and> \<not> killed) c m ?s2 = read_state d (wait \<and> \<not> killed) c m s" by (simp add: read_state_def)
        ultimately show ?thesis using step nl 2 same_map_trans [OF 1(2) 2(4)] o1(2) by (intro exI [of _ c] exI [of _ m]) simp
      qed
    qed
  qed
qed

text \<open>
  C0: A console read of up to \<open>n\<close> bytes delivers bytes of the finished lines
  in order: up to \<open>n\<close> bytes, through the first newline, or up to a ^D, which
  is consumed only when nothing precedes it.  It returns their number; if the
  queue runs out first it sleeps, or returns -1 when the process has been
  killed.  The edit line, the rest of the user's memory and the mapping are
  unchanged, and the counters stay in order.
\<close>

theorem consoleread_lines:
  assumes "d < length (cons s)" "cons_ok (cons s ! d)" "LCons d \<notin> set (held s)" "curproc s = Some p" "pt = p_pagetable (procs s ! p)"
    "user_ok (mem s) pt" "umapped (mem s) pt addr n" "n < 2 ^ 64" "read_line 0 n (cons_queue (cons s ! d)) = (out, rest, wait)"
    and killed: "killed \<longleftrightarrow> p_killed (procs s ! p) \<noteq> 0"
  shows "\<exists>s'. consoleread d (UserDst addr) (int n) s =
      Inr (if wait then if killed then Return (-1) else Waits (ChCons d) (length out) else Return (int (length out)), s') \<and>
    cons_abs (cons s' ! d) = (rest, cons_edit (cons s ! d)) \<and> cons_ok (cons s' ! d) \<and> (\<forall>i. i \<noteq> d \<longrightarrow> cons s' ! i = cons s ! i) \<and>
    same_map pt (mem s) (mem s') \<and> ubyte (mem s') pt = uwrite addr out (ubyte (mem s) pt) \<and>
    procs s' = procs s \<and> held s' = (if wait \<and> \<not> killed then LCons d # held s else held s)"
proof -
  let ?s = "s\<lparr>held := LCons d # held s\<rparr>"
  have pre: "d < length (cons ?s)" "cons_ok (cons ?s ! d)" "mypagetable ?s = Inr pt" "mykilled ?s = Inr killed" "LCons d \<in> set (held ?s)" "user_ok (mem ?s) pt"
    "umapped (mem ?s) pt (addr + of_nat 0) n" "read_line 0 n (cons_queue (cons ?s ! d)) = (out, rest, wait)"
    using assms by (simp_all add: mypagetable_def mykilled_def)
  from consoleread_loop_ok [OF pre(1-7) assms(8) pre(8)] obtain c m where
    "consoleread_loop d (UserDst addr) 0 n ?s = Inr (if wait then if killed then Return (-1) else Waits (ChCons d) (length out) else Return (int (length out)),
        read_state d (wait \<and> \<not> killed) c m ?s)" "cons_abs c = (rest, cons_edit (cons s ! d))" "cons_ok c" "same_map pt (mem s) m"
    "ubyte m pt = uwrite addr out (ubyte (mem s) pt)" unfolding of_nat_0 add_0_left add_0_right by force
  then show ?thesis using assms(1,3) by (intro exI [of _ "read_state d (wait \<and> \<not> killed) c m ?s"]) (simp add: consoleread_def read_state_def)
qed

text \<open>The line \<open>b\<close> is read into a page of zeros; the byte after it stays zero.\<close>

theorem consoleread_lines_witness:
  "\<exists>(s :: consk) s' pt. cons_queue (cons s ! 1) = [0x62, 10] \<and> consoleread 1 (UserDst 0x20) 5 s = Inr (Return 2, s') \<and>
     cons_queue (cons s' ! 1) = [] \<and> ubyte (mem s') pt 0x20 = Some 0x62 \<and> ubyte (mem s') pt 0x21 = Some 10"
proof -
  let ?pt = "ex_page 0"
  from ex_pipe_call obtain t :: pipek where t: "user_ok (mem t) ?pt"
    "\<forall>x<MAXVA. ubyte (mem t) ?pt x = (if PGROUNDDOWN x = 0 then Some 0 else None)" by auto
  define x where "x = \<lparr>in_buf = replicate 127 0x62 @ [10], in_r = 0xfffffffe, in_w = 0, in_e = 0\<rparr>"
  let ?s = "(undefined :: consk)\<lparr>held := [], procs := replicate NPROC (proc0\<lparr>p_pagetable := ?pt\<rparr>), curproc := Some 0, mem := mem t, cons := replicate NDEV x\<rparr>"
  have q: "cons_queue x = [0x62, 10]" "cons_edit x = []" by (simp_all add: cons_queue_def cons_edit_def x_def ring_seq_def INPUT_BUF_def nth_append upt_rec)
  then have ok: "cons_ok x" by (simp add: cons_ok_def cons_ring_def) (simp add: x_def INPUT_BUF_def)
  have u: "umapped (mem t) ?pt 0x20 5" using ex_mapped(1) [OF t(2), of 32 5] by simp
  have "(5 :: nat) = Suc (Suc 3)" by simp
  then have r: "read_line 0 5 [0x62, 10] = ([0x62, 10], [], False)" by (simp only: read_line.simps) (simp add: NL_def)
  obtain s' where "consoleread 1 (UserDst 0x20) (int 5) ?s = Inr (Return 2, s')" "cons_abs (cons s' ! 1) = ([], [])"
    "ubyte (mem s') ?pt = uwrite 0x20 [0x62, 10] (ubyte (mem t) ?pt)"
    using consoleread_lines [of 1 ?s 0 ?pt "0x20" 5 "[0x62, 10]" "[]" False False] t(1) ok q u r by (auto simp: NDEV_def NPROC_def proc0_def)
  then show ?thesis using q by (intro exI [of _ ?s] exI [of _ s'] exI [of _ ?pt]) (simp add: uwrite_def cons_abs_def NDEV_def)
qed

end
