(* ===== verification/File.thy ===== *)
theory File
  imports Console
begin

text \<open>
  Open files (\<open>kernel/file.c\<close>) and \<open>pipealloc\<close> of \<open>kernel/pipe.c\<close>.

  A file is an index into the file table.  The device switch is the one
  \<open>consoleinit\<close> sets up: every device is a console.
\<close>

section \<open>State\<close>

definition NFILE :: nat where "NFILE = 100"

datatype fdtype = FD_NONE | FD_PIPE | FD_INODE | FD_DEVICE

record file_t =
  f_type :: fdtype
  f_ref :: int
  f_readable :: bool
  f_writable :: bool
  f_pipe :: u64
  f_ip :: "nat option"
  f_off :: u32
  f_major :: int

record filek = consk +
  ftable :: "file_t list"

definition file0 :: file_t where
  "file0 = \<lparr>f_type = FD_NONE, f_ref = 0, f_readable = False, f_writable = False, f_pipe = 0, f_ip = None,
     f_off = 0, f_major = 0\<rparr>"

definition upd_file :: "nat \<Rightarrow> (file_t \<Rightarrow> file_t) \<Rightarrow> 'a filek_scheme \<Rightarrow> 'a filek_scheme" where
  "upd_file i f s = s\<lparr>ftable := (ftable s)[i := f (ftable s ! i)]\<rparr>"

text \<open>A call that goes to sleep does not return to its caller.\<close>

definition wait_ret :: "int outcome \<times> 's \<Rightarrow> (int \<times> 's) kres" where
  "wait_ret x = (case x of (Return r, s) \<Rightarrow> Inr (r, s) | (Waits ch _, _) \<Rightarrow> Inl (Sleeps ch))"

section \<open>The file table\<close>

definition filealloc :: "'a filek_scheme \<Rightarrow> (nat option \<times> 'a filek_scheme) kres" where
  "filealloc s =
     bindE (acquire LFtable s) (\<lambda>s.
     case List.find (\<lambda>f. f_ref (ftable s ! f) = 0) [0..<NFILE] of
       Some f \<Rightarrow>
         (let s = upd_file f (\<lambda>x. x\<lparr>f_ref := 1\<rparr>) s in
          bindE (release LFtable s) (\<lambda>s. Inr (Some f, s)))
     | None \<Rightarrow> bindE (release LFtable s) (\<lambda>s. Inr (None, s)))"

definition filedup :: "nat \<Rightarrow> 'a filek_scheme \<Rightarrow> (nat \<times> 'a filek_scheme) kres" where
  "filedup f s =
     bindE (acquire LFtable s) (\<lambda>s.
     if f_ref (ftable s ! f) < 1 then Inl (Panic ''filedup'')
     else
       let s = upd_file f (\<lambda>x. x\<lparr>f_ref := f_ref x + 1\<rparr>) s in
       bindE (release LFtable s) (\<lambda>s. Inr (f, s)))"

definition fileclose :: "nat \<Rightarrow> 'a filek_scheme \<Rightarrow> 'a filek_scheme kres" where
  "fileclose f s =
     bindE (acquire LFtable s) (\<lambda>s.
     if f_ref (ftable s ! f) < 1 then Inl (Panic ''fileclose'')
     else
       let s = upd_file f (\<lambda>x. x\<lparr>f_ref := f_ref x - 1\<rparr>) s in
       if f_ref (ftable s ! f) > 0 then release LFtable s
       else
         let ff = ftable s ! f;
             s = upd_file f (\<lambda>x. x\<lparr>f_ref := 0, f_type := FD_NONE\<rparr>) s in
         bindE (release LFtable s) (\<lambda>s.
         if f_type ff = FD_PIPE then pipeclose (f_pipe ff) (f_writable ff) s
         else if f_type ff = FD_INODE \<or> f_type ff = FD_DEVICE then
           bindE (begin_op s) (\<lambda>s.
           bindE (deref (f_ip ff)) (\<lambda>ip.
           bindE (iput ip s) (\<lambda>s.
           end_op s)))
         else Inr s))"

text \<open>\<open>struct stat\<close> in memory, four bytes of padding before the size.\<close>

definition bytes_of :: "nat \<Rightarrow> ('a::len) word \<Rightarrow> u8 list" where
  "bytes_of n v = map (\<lambda>i. ucast (drop_bit (8 * i) v)) [0..<n]"

definition stat_bytes :: "stat \<Rightarrow> u8 list" where
  "stat_bytes st = bytes_of 4 (st_dev st) @ bytes_of 4 (st_ino st) @ bytes_of 2 (word_of_int (st_type st) :: u16) @
     bytes_of 2 (word_of_int (st_nlink st) :: u16) @ replicate 4 0 @ bytes_of 8 (st_size st)"

definition filestat :: "nat \<Rightarrow> u64 \<Rightarrow> 'a filek_scheme \<Rightarrow> (int \<times> 'a filek_scheme) kres" where
  "filestat f addr s =
     (let x = ftable s ! f in
      if f_type x = FD_INODE \<or> f_type x = FD_DEVICE then
        bindE (ilock (f_ip x) s) (\<lambda>s.
        bindE (deref (f_ip x)) (\<lambda>ip.
        let st = stati ip s in
        bindE (iunlock (f_ip x) s) (\<lambda>s.
        bindE (mypagetable s) (\<lambda>pt.
        bindE (copyout pt addr (stat_bytes st) s) (\<lambda>(r, s).
        if r < 0 then Inr (-1, s) else Inr (0, s))))))
      else Inr (-1, s))"

section \<open>Reading and writing\<close>

definition cread :: "nat \<Rightarrow> dest \<Rightarrow> int \<Rightarrow> 'a filek_scheme \<Rightarrow> (int outcome \<times> 'a filek_scheme) kres" where
  "cread f dst n s = consoleread (nat (f_major (ftable s ! f))) dst n s"

definition cwrite :: "nat \<Rightarrow> source \<Rightarrow> int \<Rightarrow> 'a filek_scheme \<Rightarrow> (int \<times> 'a filek_scheme) kres" where
  "cwrite f src n s = consolewrite (nat (f_major (ftable s ! f))) src n s"

definition bad_major :: "file_t \<Rightarrow> bool" where
  "bad_major x \<longleftrightarrow> f_major x < 0 \<or> f_major x \<ge> int NDEV"

definition fileread :: "nat \<Rightarrow> u64 \<Rightarrow> int \<Rightarrow> 'a filek_scheme \<Rightarrow> (int \<times> 'a filek_scheme) kres" where
  "fileread f addr n s =
     (let x = ftable s ! f in
      if \<not> f_readable x then Inr (-1, s)
      else (case f_type x of
        FD_PIPE \<Rightarrow> bindE (piperead (f_pipe x) addr n s) wait_ret
      | FD_DEVICE \<Rightarrow> if bad_major x then Inr (-1, s) else bindE (cread f (UserDst addr) n s) wait_ret
      | FD_INODE \<Rightarrow>
          bindE (ilock (f_ip x) s) (\<lambda>s.
          bindE (deref (f_ip x)) (\<lambda>ip.
          bindE (readi ip (UserDst addr) (f_off x) (word_of_int n) s) (\<lambda>(r, _, s).
          let s = (if r > 0 then upd_file f (\<lambda>x. x\<lparr>f_off := f_off x + word_of_int r\<rparr>) s else s) in
          bindE (iunlock (f_ip x) s) (\<lambda>s. Inr (r, s)))))
      | FD_NONE \<Rightarrow> Inl (Panic ''fileread'')))"

text \<open>The most bytes one transaction writes.\<close>

definition WRITEMAX :: int where
  "WRITEMAX = int ((MAXOPBLOCKS - 1 - 1 - 2) div 2 * BSIZE)"

function filewrite_loop :: "nat \<Rightarrow> source \<Rightarrow> int \<Rightarrow> int \<Rightarrow> 'a filek_scheme \<Rightarrow> (int \<times> 'a filek_scheme) kres" where
  "filewrite_loop f src i n s =
     (if \<not> i < n then Inr (i, s)
      else
        let n1 = min (n - i) WRITEMAX; x = ftable s ! f in
        bindE (begin_op s) (\<lambda>s.
        bindE (ilock (f_ip x) s) (\<lambda>s.
        bindE (deref (f_ip x)) (\<lambda>ip.
        bindE (writei ip (source_add src (nat i)) (f_off x) (word_of_int n1) s) (\<lambda>(r, s).
        let s = (if r > 0 then upd_file f (\<lambda>x. x\<lparr>f_off := f_off x + word_of_int r\<rparr>) s else s) in
        bindE (iunlock (f_ip x) s) (\<lambda>s.
        bindE (end_op s) (\<lambda>s.
        if r < 0 then Inr (i, s)
        else if r \<noteq> n1 then Inl (Panic ''short filewrite'')
        else filewrite_loop f src (i + r) n s)))))))"
  by pat_completeness auto

termination
  by (relation "measure (\<lambda>(f, src, i, n, s). nat (n - i))")
    (auto simp: WRITEMAX_def MAXOPBLOCKS_def BSIZE_def)

declare filewrite_loop.simps [simp del]

definition filewrite :: "nat \<Rightarrow> u64 \<Rightarrow> int \<Rightarrow> 'a filek_scheme \<Rightarrow> (int \<times> 'a filek_scheme) kres" where
  "filewrite f addr n s =
     (let x = ftable s ! f in
      if \<not> f_writable x then Inr (-1, s)
      else (case f_type x of
        FD_PIPE \<Rightarrow> bindE (pipewrite (f_pipe x) addr n s) wait_ret
      | FD_DEVICE \<Rightarrow> if bad_major x then Inr (-1, s) else cwrite f (UserSrc addr) n s
      | FD_INODE \<Rightarrow>
          bindE (filewrite_loop f (UserSrc addr) 0 n s) (\<lambda>(i, s). Inr (if i = n then n else -1, s))
      | FD_NONE \<Rightarrow> Inl (Panic ''filewrite'')))"

text \<open>The buffer is \<open>xs\<close>, at kernel address \<open>addr\<close>; \<open>pipewrite\<close> takes the address for a user one.\<close>

definition filewritefromkernel :: "nat \<Rightarrow> u64 \<Rightarrow> u8 list \<Rightarrow> int \<Rightarrow> 'a filek_scheme \<Rightarrow> (int \<times> 'a filek_scheme) kres" where
  "filewritefromkernel f addr xs n s =
     (let x = ftable s ! f in
      if \<not> f_writable x then Inr (-1, s)
      else (case f_type x of
        FD_PIPE \<Rightarrow> bindE (pipewrite (f_pipe x) addr n s) wait_ret
      | FD_DEVICE \<Rightarrow> if bad_major x then Inr (-1, s) else cwrite f (KernSrc xs) n s
      | FD_INODE \<Rightarrow>
          bindE (filewrite_loop f (KernSrc xs) 0 n s) (\<lambda>(i, s). Inr (if i = n then n else -1, s))
      | FD_NONE \<Rightarrow> Inl (Panic ''filewrite'')))"

section \<open>Making a pipe\<close>

definition close_opt :: "nat option \<Rightarrow> 'a filek_scheme \<Rightarrow> 'a filek_scheme kres" where
  "close_opt f s = (case f of None \<Rightarrow> Inr s | Some f \<Rightarrow> fileclose f s)"

definition pipealloc :: "'a filek_scheme \<Rightarrow> (int \<times> nat option \<times> nat option \<times> 'a filek_scheme) kres" where
  "pipealloc s =
     (let bad = (\<lambda>f0 f1 s.
        bindE (close_opt f0 s) (\<lambda>s.
        bindE (close_opt f1 s) (\<lambda>s. Inr (-1, f0, f1, s)))) in
      bindE (filealloc s) (\<lambda>(f0, s).
      case f0 of
        None \<Rightarrow> bad None None s
      | Some g0 \<Rightarrow>
          bindE (filealloc s) (\<lambda>(f1, s).
          case f1 of
            None \<Rightarrow> bad f0 None s
          | Some g1 \<Rightarrow>
              bindE (kalloc s) (\<lambda>(pi, s).
              if pi = 0 then bad f0 f1 s
              else
                let s = upd_pipe pi (\<lambda>x. x\<lparr>pi_readopen := True, pi_writeopen := True, pi_nwrite := 0, pi_nread := 0\<rparr>) s;
                    s = upd_file g0 (\<lambda>x. x\<lparr>f_type := FD_PIPE, f_readable := True, f_writable := False, f_pipe := pi\<rparr>) s;
                    s = upd_file g1 (\<lambda>x. x\<lparr>f_type := FD_PIPE, f_readable := False, f_writable := True, f_pipe := pi\<rparr>) s in
                Inr (0, f0, f1, s)))))"

end
