(* ===== verification/Procops.thy ===== *)
theory Procops
  imports File
begin

text \<open>
  The life of a process (\<open>kernel/proc.c\<close>): allocation, memory, \<open>fork\<close>,
  \<open>exit\<close>, \<open>wait\<close>, and the operations on all processes of a container.

  The linker sets the addresses \<open>trampoline\<close> and \<open>forkret\<close>, which are
  arguments here.  A trap frame is the page at \<open>p->tf\<close> in physical memory.
  \<open>exit\<close> and \<open>wait\<close> are followed up to the switch to the scheduler.
\<close>

section \<open>Trap frames\<close>

definition TF_SIZE :: nat where "TF_SIZE = 288"
definition TF_epc :: u64 where "TF_epc = 24"
definition TF_sp :: u64 where "TF_sp = 48"
definition TF_a0 :: u64 where "TF_a0 = 112"
definition TF_a1 :: u64 where "TF_a1 = 120"
definition TF_a7 :: u64 where "TF_a7 = 168"

section \<open>Page tables of processes\<close>

definition procinit :: "u64 \<Rightarrow> 'a kmem_scheme \<Rightarrow> 'a kmem_scheme kres" where
  "procinit kernel_pagetable s =
     foldE (\<lambda>p s.
       bindE (kalloc s) (\<lambda>(pa, s).
       if pa = 0 then Inl (Panic ''kalloc'')
       else
         let va = KSTACK p in
         bindE (kvmmap kernel_pagetable va pa PGSIZE (PTE_R OR PTE_W) s) (\<lambda>s.
         Inr (upd_proc p (\<lambda>x. x\<lparr>p_kstack := va\<rparr>) s)))) [0..<NPROC] s"

definition proc_pagetable :: "u64 \<Rightarrow> nat \<Rightarrow> 'a kmem_scheme \<Rightarrow> (u64 \<times> 'a kmem_scheme) kres" where
  "proc_pagetable trampoline p s =
     bindE (uvmcreate s) (\<lambda>(pagetable, s).
     bindE (mappages pagetable TRAMPOLINE PGSIZE trampoline (PTE_R OR PTE_X) s) (\<lambda>(_, s).
     bindE (mappages pagetable TRAPFRAME PGSIZE (p_tf (procs s ! p)) (PTE_R OR PTE_W) s) (\<lambda>(_, s).
     Inr (pagetable, s))))"

definition proc_freepagetable :: "u64 \<Rightarrow> u64 \<Rightarrow> 'a kmem_scheme \<Rightarrow> 'a kmem_scheme kres" where
  "proc_freepagetable pagetable sz s =
     bindE (uvmunmap pagetable TRAMPOLINE PGSIZE False s) (\<lambda>s.
     bindE (uvmunmap pagetable TRAPFRAME PGSIZE False s) (\<lambda>s.
     if sz > 0 then uvmfree pagetable sz s else Inr s))"

section \<open>Allocating and freeing a process\<close>

definition allocproc :: "u64 \<Rightarrow> u64 \<Rightarrow> nat \<Rightarrow> 'a kmem_scheme \<Rightarrow> (nat option \<times> 'a kmem_scheme) kres" where
  "allocproc trampoline forkret c s =
     bindE (foreach [0..<NPROC] (\<lambda>p s.
         bindE (acquire (LProc p) s) (\<lambda>s.
         if p_state (procs s ! p) = UNUSED then Inr (Some p, s)
         else bindE (release (LProc p) s) (\<lambda>s. Inr (None, s)))) s) (\<lambda>(r, s).
     case r of
       None \<Rightarrow> Inr (None, s)
     | Some p \<Rightarrow>
         bindE (allocpid s) (\<lambda>(pid, s).
         let s = upd_proc p (\<lambda>x. x\<lparr>p_pid := pid\<rparr>) s in
         bindE (if c_isroot (conts s ! c) \<noteq> 0 then Inr (pid, s) else alloclocalpid c s) (\<lambda>(lp, s).
         let s = upd_proc p (\<lambda>x. x\<lparr>p_local_pid := lp, p_cont := Some c\<rparr>) s in
         bindE (kalloc s) (\<lambda>(tf, s).
         let s = upd_proc p (\<lambda>x. x\<lparr>p_tf := tf\<rparr>) s in
         if tf = 0 then bindE (release (LProc p) s) (\<lambda>s. Inr (None, s))
         else
           bindE (proc_pagetable trampoline p s) (\<lambda>(pt, s).
           let s = upd_proc p (\<lambda>x. x\<lparr>p_pagetable := pt\<rparr>) s in
           if pt = 0 then Inr (None, s)
           else
             Inr (Some p, upd_proc p (\<lambda>x. x\<lparr>p_context := ctxt0\<lparr>ctx_ra := forkret, ctx_sp := p_kstack x + PGSIZE\<rparr>\<rparr>) s))))))"

definition freeproc :: "nat \<Rightarrow> 'a kmem_scheme \<Rightarrow> 'a kmem_scheme kres" where
  "freeproc p s =
     bindE (if p_tf (procs s ! p) \<noteq> 0 then kfree (p_tf (procs s ! p)) s else Inr s) (\<lambda>s.
     let s = upd_proc p (\<lambda>x. x\<lparr>p_tf := 0\<rparr>) s in
     bindE (if p_pagetable (procs s ! p) \<noteq> 0
            then proc_freepagetable (p_pagetable (procs s ! p)) (p_sz (procs s ! p)) s else Inr s) (\<lambda>s.
     let s = upd_proc p (\<lambda>x. x\<lparr>p_pagetable := 0, p_sz := 0, p_pid := 0, p_parent := None,
               p_name := (p_name x)[0 := 0], p_chan := None, p_killed := 0, p_xstate := 0, p_state := UNUSED\<rparr>) s;
         s = snd (updatecontproc (-1) (p_cont (procs s ! p)) s) in
     Inr (upd_proc p (\<lambda>x. x\<lparr>p_cont := None, p_tracing := 0\<rparr>) s)))"

text \<open>\<open>initcode\<close> is the array of instructions in \<open>proc.c\<close>.\<close>

definition initcode :: "u8 list" where
  "initcode = [
     0x17, 0x05, 0x00, 0x00, 0x13, 0x05, 0x05, 0x02,
     0x97, 0x05, 0x00, 0x00, 0x93, 0x85, 0x05, 0x02,
     0x9d, 0x48, 0x73, 0x00, 0x00, 0x00, 0x89, 0x48,
     0x73, 0x00, 0x00, 0x00, 0xef, 0xf0, 0xbf, 0xff,
     0x2f, 0x69, 0x6e, 0x69, 0x74, 0x00, 0x00, 0x01,
     0x20, 0x00, 0x00, 0x00, 0x00, 0x00, 0x00, 0x00,
     0x00, 0x00, 0x00]"

definition userprocinit :: "u64 \<Rightarrow> u64 \<Rightarrow> nat \<Rightarrow> 'a filek_scheme \<Rightarrow> 'a filek_scheme kres" where
  "userprocinit trampoline forkret c s =
     bindE (allocproc trampoline forkret c s) (\<lambda>(r, s).
     let s = s\<lparr>initproc := r\<rparr> in
     bindE (deref r) (\<lambda>p.
     bindE (uvminit (p_pagetable (procs s ! p)) initcode s) (\<lambda>s.
     let s = upd_proc p (\<lambda>x. x\<lparr>p_sz := PGSIZE\<rparr>) s in
     bindE (wr64 (p_tf (procs s ! p) + TF_epc) 0 s) (\<lambda>s.
     bindE (wr64 (p_tf (procs s ! p) + TF_sp) PGSIZE s) (\<lambda>s.
     bindE (safestrcpy (p_name (procs s ! p)) (lit ''initcode'') 16) (\<lambda>nm.
     let s = upd_proc p (\<lambda>x. x\<lparr>p_name := nm\<rparr>) s in
     bindE (deref (c_rootdir (conts s ! c))) (\<lambda>d.
     bindE (idup d s) (\<lambda>(d, s).
     let s = upd_proc p (\<lambda>x. x\<lparr>p_cwd := Some d, p_state := RUNNABLE, p_cont := Some c\<rparr>) s in
     release (LProc p) s))))))))"

definition userinit :: "u64 \<Rightarrow> u64 \<Rightarrow> 'a filek_scheme \<Rightarrow> 'a filek_scheme kres" where
  "userinit trampoline forkret s = userprocinit trampoline forkret ROOTCONT s"

text \<open>\<open>sz\<close> is a 32 bit variable: a larger process size is cut.\<close>

definition growproc :: "int \<Rightarrow> 'a kmem_scheme \<Rightarrow> (int \<times> 'a kmem_scheme) kres" where
  "growproc n s =
     (case curproc s of None \<Rightarrow> Inl Fault | Some p \<Rightarrow>
      let pt = p_pagetable (procs s ! p);
          sz = ucast (p_sz (procs s ! p)) :: u32 in
      if n > 0 then
        bindE (uvmalloc pt (ucast sz) (ucast (sz + word_of_int n)) s) (\<lambda>(r, s).
        let sz = ucast r :: u32 in
        if sz = 0 then Inr (-1, s)
        else Inr (0, upd_proc p (\<lambda>x. x\<lparr>p_sz := ucast sz\<rparr>) s))
      else if n < 0 then
        bindE (uvmdealloc pt (ucast sz) (ucast (sz + word_of_int n)) s) (\<lambda>(r, s).
        Inr (0, upd_proc p (\<lambda>x. x\<lparr>p_sz := ucast (ucast r :: u32)\<rparr>) s))
      else Inr (0, upd_proc p (\<lambda>x. x\<lparr>p_sz := ucast sz\<rparr>) s))"

section \<open>Fork\<close>

definition fork :: "u64 \<Rightarrow> u64 \<Rightarrow> nat option \<Rightarrow> 'a filek_scheme \<Rightarrow> (int \<times> 'a filek_scheme) kres" where
  "fork trampoline forkret c s =
     (case curproc s of None \<Rightarrow> Inl Fault | Some p \<Rightarrow>
      let cwd = (case c of None \<Rightarrow> p_cwd (procs s ! p) | Some c \<Rightarrow> c_rootdir (conts s ! c));
          contp = (case c of None \<Rightarrow> p_cont (procs s ! p) | Some c \<Rightarrow> Some c);
          parent = (case c of None \<Rightarrow> Some p | Some _ \<Rightarrow> initproc s) in
      bindE (deref contp) (\<lambda>cont.
      bindE (allocproc trampoline forkret cont s) (\<lambda>(r, s).
      case r of
        None \<Rightarrow> Inr (-1, s)
      | Some np \<Rightarrow>
          bindE (uvmcopy (p_pagetable (procs s ! p)) (p_pagetable (procs s ! np)) (p_sz (procs s ! p)) s) (\<lambda>(r, s).
          if r < 0 then
            bindE (freeproc np s) (\<lambda>s.
            bindE (release (LProc np) s) (\<lambda>s. Inr (-1, s)))
          else
            let s = upd_proc np (\<lambda>x. x\<lparr>p_sz := p_sz (procs s ! p), p_parent := parent\<rparr>) s;
                s = s\<lparr>mem := write_bytes (mem s) (p_tf (procs s ! np)) (read_bytes (mem s) (p_tf (procs s ! p)) TF_SIZE)\<rparr> in
            bindE (wr64 (p_tf (procs s ! np) + TF_a0) 0 s) (\<lambda>s.
            bindE (foldE (\<lambda>i s.
                case p_ofile (procs s ! p) ! i of
                  None \<Rightarrow> Inr s
                | Some f \<Rightarrow>
                    bindE (filedup f s) (\<lambda>(f, s).
                    Inr (upd_proc np (\<lambda>x. x\<lparr>p_ofile := (p_ofile x)[i := Some f]\<rparr>) s))) [0..<NOFILE] s) (\<lambda>s.
            bindE (deref cwd) (\<lambda>d.
            bindE (idup d s) (\<lambda>(d, s).
            let s = upd_proc np (\<lambda>x. x\<lparr>p_cwd := Some d\<rparr>) s in
            bindE (safestrcpy (p_name (procs s ! np)) (p_name (procs s ! p)) 16) (\<lambda>nm.
            let s = upd_proc np (\<lambda>x. x\<lparr>p_name := nm\<rparr>) s;
                pid = p_pid (procs s ! np);
                s = upd_proc np (\<lambda>x. x\<lparr>p_state := RUNNABLE\<rparr>) s in
            bindE (release (LProc np) s) (\<lambda>s.
            let (v, s) = updatecontproc 1 (p_cont (procs s ! np)) s in
            if v < 0 then bindE (climitexceedhandler cont s) (\<lambda>s. Inr (pid, s))
            else Inr (pid, s)))))))))))"

section \<open>Exit and wait\<close>

definition exit :: "int \<Rightarrow> 'a filek_scheme \<Rightarrow> 'a filek_scheme kres" where
  "exit status s =
     (case curproc s of None \<Rightarrow> Inl Fault | Some p \<Rightarrow>
      if initproc s = Some p then Inl (Panic ''init exiting'')
      else
        bindE (foldE (\<lambda>fd s.
            case p_ofile (procs s ! p) ! fd of
              None \<Rightarrow> Inr s
            | Some f \<Rightarrow>
                bindE (fileclose f s) (\<lambda>s.
                Inr (upd_proc p (\<lambda>x. x\<lparr>p_ofile := (p_ofile x)[fd := None]\<rparr>) s))) [0..<NOFILE] s) (\<lambda>s.
        bindE (begin_op s) (\<lambda>s.
        bindE (deref (p_cwd (procs s ! p))) (\<lambda>d.
        bindE (iput d s) (\<lambda>s.
        bindE (end_op s) (\<lambda>s.
        let s = upd_proc p (\<lambda>x. x\<lparr>p_cwd := None\<rparr>) s in
        bindE (deref (initproc s)) (\<lambda>ini.
        bindE (acquire (LProc ini) s) (\<lambda>s.
        bindE (wakeup1 ini s) (\<lambda>s.
        bindE (release (LProc ini) s) (\<lambda>s.
        bindE (acquire (LProc p) s) (\<lambda>s.
        let original_parent = p_parent (procs s ! p) in
        bindE (release (LProc p) s) (\<lambda>s.
        bindE (deref original_parent) (\<lambda>op.
        bindE (acquire (LProc op) s) (\<lambda>s.
        bindE (acquire (LProc p) s) (\<lambda>s.
        bindE (reparent p s) (\<lambda>s.
        bindE (wakeup1 op s) (\<lambda>s.
        let s = upd_proc p (\<lambda>x. x\<lparr>p_xstate := status, p_state := ZOMBIE\<rparr>) s in
        bindE (release (LProc op) s) (\<lambda>s.
        sched s))))))))))))))))))"

text \<open>What a zombie would do if it were scheduled again.\<close>

definition exit_resume :: "'a filek_scheme \<Rightarrow> 'a filek_scheme kres" where
  "exit_resume s = Inl (Panic ''zombie exit'')"

text \<open>One scan of the table by \<open>wait\<close>, with \<open>p->lock\<close> held; \<open>Waits\<close> is the call of \<open>sleep\<close>.\<close>

definition wait_scan :: "nat \<Rightarrow> u64 \<Rightarrow> 'a kmem_scheme \<Rightarrow> (int outcome \<times> 'a kmem_scheme) kres" where
  "wait_scan p addr s =
     bindE (foreach [0..<NPROC] (\<lambda>np (havekids, s).
         if p_parent (procs s ! np) = Some p then
           bindE (acquire (LProc np) s) (\<lambda>s.
           if p_state (procs s ! np) = ZOMBIE then
             let pid = p_pid (procs s ! np) in
             bindE (if addr \<noteq> 0
                    then copyout (p_pagetable (procs s ! p)) addr (bytes_of 4 (word_of_int (p_xstate (procs s ! np)) :: u32)) s
                    else Inr (0, s)) (\<lambda>(r, s).
             if r < 0 then
               bindE (release (LProc np) s) (\<lambda>s.
               bindE (release (LProc p) s) (\<lambda>s. Inr (Some (-1), True, s)))
             else
               bindE (freeproc np s) (\<lambda>s.
               bindE (release (LProc np) s) (\<lambda>s.
               bindE (release (LProc p) s) (\<lambda>s. Inr (Some pid, True, s)))))
           else bindE (release (LProc np) s) (\<lambda>s. Inr (None, True, s)))
         else Inr (None, havekids, s)) (False, s)) (\<lambda>(r, havekids, s).
     case r of
       Some pid \<Rightarrow> Inr (Return pid, s)
     | None \<Rightarrow>
         if \<not> havekids \<or> p_killed (procs s ! p) \<noteq> 0 then
           bindE (release (LProc p) s) (\<lambda>s. Inr (Return (-1), s))
         else Inr (Waits (ChProc p) 0, s))"

definition wait :: "u64 \<Rightarrow> 'a kmem_scheme \<Rightarrow> (int outcome \<times> 'a kmem_scheme) kres" where
  "wait addr s =
     (case curproc s of None \<Rightarrow> Inl Fault | Some p \<Rightarrow>
      bindE (acquire (LProc p) s) (\<lambda>s. wait_scan p addr s))"

text \<open>The first return of a process to user space; \<open>first\<close> is the static variable.\<close>

definition forkret :: "bool \<Rightarrow> 'a fsk_scheme \<Rightarrow> 'a fsk_scheme kres" where
  "forkret first s =
     (case curproc s of None \<Rightarrow> Inl Fault | Some p \<Rightarrow>
      bindE (release (LProc p) s) (\<lambda>s.
      if first then fsinit ROOTDEV s else Inr s))"

section \<open>Containers\<close>

definition containerkillall :: "nat \<Rightarrow> 'a kmem_scheme \<Rightarrow> (int \<times> 'a kmem_scheme) kres" where
  "containerkillall c s =
     bindE (foldE (\<lambda>p s.
         if p_cont (procs s ! p) = Some c then
           bindE (acquire (LProc p) s) (\<lambda>s.
           let s = upd_proc p (\<lambda>x. x\<lparr>p_killed := 1,
                     p_state := if p_state x = SLEEPING \<or> p_state x = SUSPENDED then RUNNABLE else p_state x\<rparr>) s in
           bindE (freeproc p s) (\<lambda>s.
           release (LProc p) s))
         else Inr s) [0..<NPROC] s) (\<lambda>s. Inr (-1, s))"

end
