(* ===== verification/Exec.thy ===== *)
theory Exec
  imports Procops
begin

text \<open>
  Loading a program (\<open>kernel/exec.c\<close>), and suspending a process to a file
  and resuming it (\<open>ksuspend\<close> and \<open>kresume\<close> of \<open>kernel/proc.c\<close>).
  The headers are read from the bytes of the file.
\<close>

section \<open>Headers\<close>

definition ELF_MAGIC :: u32 where "ELF_MAGIC = 0x464C457F"
definition ELF_PROG_LOAD :: u32 where "ELF_PROG_LOAD = 1"
definition MAXARG :: nat where "MAXARG = 32"

definition get64 :: "u8 list \<Rightarrow> nat \<Rightarrow> u64" where
  "get64 d k = ucast (get32 d k) OR push_bit 32 (ucast (get32 d (k + 4)))"

record elfhdr =
  elf_magic :: u32
  elf_entry :: u64
  elf_phoff :: u64
  elf_phnum :: u16

record proghdr =
  ph_type :: u32
  ph_off :: u64
  ph_vaddr :: u64
  ph_filesz :: u64
  ph_memsz :: u64

definition elf_of :: "u8 list \<Rightarrow> elfhdr" where
  "elf_of d = \<lparr>elf_magic = get32 d 0, elf_entry = get64 d 24, elf_phoff = get64 d 32, elf_phnum = get16 d 56\<rparr>"

definition proghdr_of :: "u8 list \<Rightarrow> proghdr" where
  "proghdr_of d = \<lparr>ph_type = get32 d 0, ph_off = get64 d 8, ph_vaddr = get64 d 16, ph_filesz = get64 d 32,
     ph_memsz = get64 d 40\<rparr>"

text \<open>\<open>struct resumehdr\<close>\<close>

record resumehdr =
  rh_mem_sz :: u32
  rh_code_sz :: u32
  rh_stack_sz :: u32
  rh_tracing :: u32
  rh_name :: "u8 list"

definition resumehdr_bytes :: "resumehdr \<Rightarrow> u8 list" where
  "resumehdr_bytes h = bytes_of 4 (rh_mem_sz h) @ bytes_of 4 (rh_code_sz h) @ bytes_of 4 (rh_stack_sz h) @
     bytes_of 4 (rh_tracing h) @ rh_name h"

definition resumehdr_of :: "u8 list \<Rightarrow> resumehdr" where
  "resumehdr_of d = \<lparr>rh_mem_sz = get32 d 0, rh_code_sz = get32 d 4, rh_stack_sz = get32 d 8, rh_tracing = get32 d 12,
     rh_name = slice d 16 16\<rparr>"

section \<open>Loading a segment\<close>

fun loadseg_loop :: "nat \<Rightarrow> u64 \<Rightarrow> u64 \<Rightarrow> nat \<Rightarrow> u32 \<Rightarrow> u32 \<Rightarrow> u32 \<Rightarrow> 'a fsk_scheme \<Rightarrow> (int \<times> 'a fsk_scheme) kres" where
  "loadseg_loop 0 pagetable va ip offset i sz s = (if i < sz then Inl Spins else Inr (0, s))"
| "loadseg_loop (Suc k) pagetable va ip offset i sz s =
     (if \<not> i < sz then Inr (0, s)
      else
        bindE (walkaddr pagetable (va + ucast i) s) (\<lambda>pa.
        if pa = 0 then Inl (Panic ''loadseg: address should exist'')
        else
          let n = (if sz - i < 4096 then sz - i else 4096) in
          bindE (readi ip KernDst (offset + i) n s) (\<lambda>(r, xs, s).
          let s = s\<lparr>mem := write_bytes (mem s) pa xs\<rparr> in
          if (word_of_int r :: u32) \<noteq> n then Inr (-1, s)
          else loadseg_loop k pagetable va ip offset (i + 4096) sz s)))"

definition loadseg :: "u64 \<Rightarrow> u64 \<Rightarrow> nat \<Rightarrow> u32 \<Rightarrow> u32 \<Rightarrow> 'a fsk_scheme \<Rightarrow> (int \<times> 'a fsk_scheme) kres" where
  "loadseg pagetable va ip offset sz s =
     (if va mod PGSIZE \<noteq> 0 then Inl (Panic ''loadseg: va must be page aligned'')
      else loadseg_loop (unat sz div 4096 + 1) pagetable va ip offset 0 sz s)"

section \<open>Exec\<close>

text \<open>The loop over the program headers: whether it got through, and the size so far.\<close>

fun exec_segments :: "nat \<Rightarrow> u64 \<Rightarrow> nat \<Rightarrow> u32 \<Rightarrow> u64 \<Rightarrow> 'a fsk_scheme \<Rightarrow> (bool \<times> u64 \<times> 'a fsk_scheme) kres" where
  "exec_segments 0 pagetable ip off sz s = Inr (True, sz, s)"
| "exec_segments (Suc k) pagetable ip off sz s =
     bindE (readi ip KernDst off 56 s) (\<lambda>(r, d, s).
     let ph = proghdr_of d in
     if r \<noteq> 56 then Inr (False, sz, s)
     else if ph_type ph \<noteq> ELF_PROG_LOAD then exec_segments k pagetable ip (off + 56) sz s
     else if ph_memsz ph < ph_filesz ph then Inr (False, sz, s)
     else if ph_vaddr ph + ph_memsz ph < ph_vaddr ph then Inr (False, sz, s)
     else
       bindE (uvmalloc pagetable sz (ph_vaddr ph + ph_memsz ph) s) (\<lambda>(sz, s).
       if sz = 0 then Inr (False, sz, s)
       else if ph_vaddr ph mod PGSIZE \<noteq> 0 then Inr (False, sz, s)
       else
         bindE (loadseg pagetable (ph_vaddr ph) ip (ucast (ph_off ph)) (ucast (ph_filesz ph)) s) (\<lambda>(r, s).
         if r < 0 then Inr (False, sz, s)
         else exec_segments k pagetable ip (off + 56) sz s)))"

text \<open>Push the argument strings; the result has the addresses in \<open>ustack\<close>.\<close>

fun push_args :: "u64 \<Rightarrow> u64 \<Rightarrow> u64 \<Rightarrow> nat \<Rightarrow> u8 list list \<Rightarrow> u64 list \<Rightarrow> 'a kmem_scheme \<Rightarrow>
    (bool \<times> u64 \<times> u64 list \<times> 'a kmem_scheme) kres" where
  "push_args pagetable stackbase sp argc [] ustack s = Inr (True, sp, ustack, s)"
| "push_args pagetable stackbase sp argc (a # argv) ustack s =
     (if argc \<ge> MAXARG then Inr (False, sp, ustack, s)
      else
        bindE (strlen a) (\<lambda>n.
        let sp = sp - (of_nat n + 1);
            sp = sp - sp mod 16 in
        if sp < stackbase then Inr (False, sp, ustack, s)
        else
          bindE (copyout pagetable sp (take (n + 1) a) s) (\<lambda>(r, s).
          if r < 0 then Inr (False, sp, ustack, s)
          else push_args pagetable stackbase sp (argc + 1) argv (ustack @ [sp]) s)))"

text \<open>The part of the path after its last slash.\<close>

fun last_elem :: "u8 list \<Rightarrow> u8 list \<Rightarrow> u8 list" where
  "last_elem best [] = best"
| "last_elem best (c # cs) =
     (if c = 0 then best else if c = SLASH then last_elem cs cs else last_elem best cs)"

text \<open>\<open>bad:\<close> in \<open>exec\<close>, with the inode still locked or no longer.\<close>

definition exec_bad :: "u64 \<Rightarrow> u64 \<Rightarrow> nat option \<Rightarrow> 'a fsk_scheme \<Rightarrow> (int \<times> 'a fsk_scheme) kres" where
  "exec_bad pagetable sz ip s =
     bindE (if pagetable \<noteq> 0 then proc_freepagetable pagetable sz s else Inr s) (\<lambda>s.
     bindE (case ip of None \<Rightarrow> Inr s | Some ip \<Rightarrow> bindE (iunlockput ip s) (\<lambda>s. end_op s)) (\<lambda>s.
     Inr (-1, s)))"

definition exec_stack :: "nat \<Rightarrow> u8 list \<Rightarrow> u8 list list \<Rightarrow> u64 \<Rightarrow> u64 \<Rightarrow> u64 \<Rightarrow> 'a fsk_scheme \<Rightarrow> (int \<times> 'a fsk_scheme) kres" where
  "exec_stack p path argv entry pagetable sz s =
     (let oldsz = p_sz (procs s ! p); sz = PGROUNDUP sz in
      bindE (uvmalloc pagetable sz (sz + 2 * PGSIZE) s) (\<lambda>(sz, s).
      if sz = 0 then exec_bad pagetable sz None s
      else
        bindE (uvmclear pagetable (sz - 2 * PGSIZE) s) (\<lambda>s.
        let stackbase = sz - PGSIZE in
        bindE (push_args pagetable stackbase sz 0 argv [] s) (\<lambda>(ok, sp, ustack, s).
        if \<not> ok then exec_bad pagetable sz None s
        else
          let argc = length ustack;
              sp = sp - (of_nat argc + 1) * 8;
              sp = sp - sp mod 16 in
          if sp < stackbase then exec_bad pagetable sz None s
          else
            bindE (copyout pagetable sp (concat (map (bytes_of 8) (ustack @ [0]))) s) (\<lambda>(r, s).
            if r < 0 then exec_bad pagetable sz None s
            else
              bindE (wr64 (p_tf (procs s ! p) + TF_a1) sp s) (\<lambda>s.
              bindE (safestrcpy (p_name (procs s ! p)) (last_elem path path) 16) (\<lambda>nm.
              let s = upd_proc p (\<lambda>x. x\<lparr>p_name := nm\<rparr>) s;
                  oldpagetable = p_pagetable (procs s ! p);
                  s = upd_proc p (\<lambda>x. x\<lparr>p_pagetable := pagetable, p_sz := sz\<rparr>) s in
              bindE (wr64 (p_tf (procs s ! p) + TF_epc) entry s) (\<lambda>s.
              bindE (wr64 (p_tf (procs s ! p) + TF_sp) sp s) (\<lambda>s.
              bindE (proc_freepagetable oldpagetable oldsz s) (\<lambda>s.
              Inr (int argc, s)))))))))))"

definition exec :: "u64 \<Rightarrow> u8 list \<Rightarrow> u8 list list \<Rightarrow> 'a fsk_scheme \<Rightarrow> (int \<times> 'a fsk_scheme) kres" where
  "exec trampoline path argv s =
     (case curproc s of None \<Rightarrow> Inl Fault | Some p \<Rightarrow>
      bindE (begin_op s) (\<lambda>s.
      bindE (namei path s) (\<lambda>(r, s).
      case r of
        None \<Rightarrow> bindE (end_op s) (\<lambda>s. Inr (-1, s))
      | Some ip \<Rightarrow>
          bindE (ilock (Some ip) s) (\<lambda>s.
          bindE (readi ip KernDst 0 64 s) (\<lambda>(r, d, s).
          let elf = elf_of d in
          if r \<noteq> 64 then exec_bad 0 0 (Some ip) s
          else if elf_magic elf \<noteq> ELF_MAGIC then exec_bad 0 0 (Some ip) s
          else
            bindE (proc_pagetable trampoline p s) (\<lambda>(pagetable, s).
            if pagetable = 0 then exec_bad 0 0 (Some ip) s
            else
              bindE (exec_segments (unat (elf_phnum elf)) pagetable ip (ucast (elf_phoff elf)) 0 s) (\<lambda>(ok, sz, s).
              if \<not> ok then exec_bad pagetable sz (Some ip) s
              else
                bindE (iunlockput ip s) (\<lambda>s.
                bindE (end_op s) (\<lambda>s.
                exec_stack p path argv (elf_entry elf) pagetable sz s)))))))))"

section \<open>Suspend and resume\<close>

text \<open>\<open>kaddr\<close> is the address of the local variable \<open>hdr\<close>.\<close>

definition ksuspend :: "u64 \<Rightarrow> int \<Rightarrow> nat \<Rightarrow> 'a filek_scheme \<Rightarrow> (int \<times> 'a filek_scheme) kres" where
  "ksuspend kaddr pid f s =
     (case curproc s of None \<Rightarrow> Inl Fault | Some me \<Rightarrow>
      case List.find (\<lambda>p. p_pid (procs s ! p) = pid) [0..<NPROC] of
        None \<Rightarrow> Inr (0, s)
      | Some p \<Rightarrow>
          bindE (acquire (LProc p) s) (\<lambda>s.
          let s = upd_proc p (\<lambda>x. x\<lparr>p_state := SUSPENDED\<rparr>) s in
          bindE (release (LProc p) s) (\<lambda>s.
          let x = procs s ! p;
              code_sz = ucast (p_sz x - 2 * PGSIZE) :: u32 in
          bindE (strncpy (replicate 16 0) (p_name x) 16) (\<lambda>nm.
          let hdr = \<lparr>rh_mem_sz = ucast (p_sz x), rh_code_sz = code_sz, rh_stack_sz = ucast PGSIZE,
                rh_tracing = word_of_int (p_tracing x), rh_name = nm\<rparr>;
              tmp = p_pagetable (procs s ! me);
              s = upd_proc me (\<lambda>y. y\<lparr>p_pagetable := p_pagetable x\<rparr>) s in
          bindE (filewritefromkernel f kaddr (resumehdr_bytes hdr) 32 s) (\<lambda>(_, s).
          bindE (filewritefromkernel f (p_tf x) (read_bytes (mem s) (p_tf x) TF_SIZE) (int TF_SIZE) s) (\<lambda>(_, s).
          bindE (filewrite f 0 (sint code_sz) s) (\<lambda>(_, s).
          bindE (filewrite f (scast code_sz + PGSIZE) 4096 s) (\<lambda>(_, s).
          Inr (1, upd_proc me (\<lambda>y. y\<lparr>p_pagetable := tmp\<rparr>) s)))))))))"

definition kresume :: "u64 \<Rightarrow> u8 list \<Rightarrow> 'a fsk_scheme \<Rightarrow> (int \<times> 'a fsk_scheme) kres" where
  "kresume trampoline path s =
     (case curproc s of None \<Rightarrow> Inl Fault | Some p \<Rightarrow>
      let oldsz = p_sz (procs s ! p) in
      bindE (begin_op s) (\<lambda>s.
      bindE (namei path s) (\<lambda>(r, s).
      case r of
        None \<Rightarrow> bindE (end_op s) (\<lambda>s. Inr (-1, s))
      | Some ip \<Rightarrow>
          bindE (ilock (Some ip) s) (\<lambda>s.
          bindE (readi ip KernDst 0 32 s) (\<lambda>(r, d, s).
          let hdr = resumehdr_of d; code_sz = rh_code_sz hdr in
          if r \<noteq> 32 then exec_bad 0 0 (Some ip) s
          else
            bindE (readi ip KernDst 32 (of_nat TF_SIZE) s) (\<lambda>(r, d, s).
            let s = s\<lparr>mem := write_bytes (mem s) (p_tf (procs s ! p)) d\<rparr> in
            if (word_of_int r :: u64) < of_nat TF_SIZE then exec_bad 0 0 (Some ip) s
            else
              bindE (proc_pagetable trampoline p s) (\<lambda>(pagetable, s).
              if pagetable = 0 then exec_bad 0 0 (Some ip) s
              else
                bindE (uvmalloc pagetable 0 (scast code_sz) s) (\<lambda>(sz, s).
                if sz = 0 then exec_bad pagetable sz (Some ip) s
                else
                  bindE (loadseg pagetable 0 ip (32 + of_nat TF_SIZE) code_sz s) (\<lambda>(r, s).
                  if r < 0 then exec_bad pagetable sz (Some ip) s
                  else
                    let sz = PGROUNDUP sz in
                    bindE (uvmalloc pagetable sz (sz + 2 * PGSIZE) s) (\<lambda>(sz, s).
                    if sz = 0 then exec_bad pagetable sz (Some ip) s
                    else
                      bindE (uvmclear pagetable (sz - 2 * PGSIZE) s) (\<lambda>s.
                      bindE (loadseg pagetable (scast code_sz + PGSIZE) ip (32 + of_nat TF_SIZE + code_sz) 4096 s) (\<lambda>(r, s).
                      if r < 0 then exec_bad pagetable sz (Some ip) s
                      else
                        bindE (iunlockput ip s) (\<lambda>s.
                        bindE (strncpy (p_name (procs s ! p)) (rh_name hdr) 16) (\<lambda>nm.
                        let s = upd_proc p (\<lambda>x. x\<lparr>p_name := nm\<rparr>) s;
                            oldpagetable = p_pagetable (procs s ! p);
                            s = upd_proc p (\<lambda>x. x\<lparr>p_pagetable := pagetable, p_sz := sz,
                                  p_tracing := sint (rh_tracing hdr)\<rparr>) s in
                        bindE (proc_freepagetable oldpagetable oldsz s) (\<lambda>s. Inr (0, s))))))))))))))))"

end
