(* ===== verification/Contops.thy ===== *)
theory Contops
  imports Exec
begin

text \<open>
  The container operations that reach the file system and the process
  machinery (\<open>kernel/container.c\<close>), and the two calls that report on
  processes and containers.  A report is built in a local variable, whose
  bytes before that are the argument \<open>stack\<close>.
\<close>

section \<open>Boot\<close>

definition initrootcont :: "'a fsk_scheme \<Rightarrow> (nat \<times> 'a fsk_scheme) kres" where
  "initrootcont s =
     (let c = ROOTCONT in
      bindE (namei (lit ''/'') s) (\<lambda>(r, s).
      case r of
        None \<Rightarrow> Inl (Panic ''Can't set '/' as root container's rootdir'')
      | Some rootdir \<Rightarrow>
          bindE (acquire (LCont c) s) (\<lambda>s.
          let s = upd_cont c (\<lambda>x. x\<lparr>c_max_proc := int NPROC, c_max_sz := MAX_CMEM, c_max_dsk := MAX_CDISK,
                c_state := CRUNNABLE, c_used_proc := 0, c_used_mem := 0, c_used_dsk := 0\<rparr>) s in
          bindE (idup rootdir s) (\<lambda>(d, s).
          let s = upd_cont c (\<lambda>x. x\<lparr>c_rootdir := Some d, c_isroot := 1, c_nextlocalpid := 1,
                c_nextproctorun := None, c_ticks := 0\<rparr>) s in
          bindE (safestrcpy (c_name (conts s ! c)) (lit ''rootcont'') 16) (\<lambda>nm.
          let s = upd_cont c (\<lambda>x. x\<lparr>c_name := nm\<rparr>) s in
          bindE (release (LCont c) s) (\<lambda>s. Inr (c, s)))))))"

definition cinit :: "u64 \<Rightarrow> 'a fsk_scheme \<Rightarrow> 'a fsk_scheme kres" where
  "cinit kernel_pagetable s =
     (let s = fold (\<lambda>i s. upd_cont i (\<lambda>x. x\<lparr>c_cid := int i, c_state := CUNUSED, c_ticks := 0\<rparr>) s) [0..<NCONT] s in
      bindE (initrootcont s) (\<lambda>(_, s).
      procinit kernel_pagetable s))"

section \<open>Creating and stopping\<close>

definition kcfork :: "u64 \<Rightarrow> u64 \<Rightarrow> u8 list \<Rightarrow> 'a filek_scheme \<Rightarrow> (int \<times> 'a filek_scheme) kres" where
  "kcfork trampoline fkret name s =
     bindE (name2cont name s) (\<lambda>c.
     case c of None \<Rightarrow> Inr (-1, s) | Some _ \<Rightarrow> fork trampoline fkret c s)"

definition setcontrootdir :: "u8 list \<Rightarrow> u8 list \<Rightarrow> 'a fsk_scheme \<Rightarrow> (int \<times> 'a fsk_scheme) kres" where
  "setcontrootdir name path s =
     bindE (name2cont name s) (\<lambda>r.
     case r of
       None \<Rightarrow> Inr (-1, s)
     | Some c \<Rightarrow>
         bindE (namei path s) (\<lambda>(d, s).
         case d of
           None \<Rightarrow>
             (let s = upd_cont c (\<lambda>x. x\<lparr>c_state := CUNUSED\<rparr>) s in
              bindE (freecontainer c s) (\<lambda>(_, s). Inr (-1, s)))
         | Some rootdir \<Rightarrow> Inr (1, upd_cont c (\<lambda>x. x\<lparr>c_rootdir := Some rootdir\<rparr>) s)))"

definition kccreate :: "u8 list \<Rightarrow> 'a fsk_scheme \<Rightarrow> (int \<times> 'a fsk_scheme) kres" where
  "kccreate name s =
     bindE (name2cont name s) (\<lambda>r.
     if r \<noteq> None then Inr (-1, s)
     else
       bindE (alloccont s) (\<lambda>(r, s).
       case r of
         None \<Rightarrow> Inr (-1, s)
       | Some c \<Rightarrow>
           bindE (acquire (LCont c) s) (\<lambda>s.
           bindE (strncpy (c_name (conts s ! c)) name 16) (\<lambda>nm.
           let s = upd_cont c (\<lambda>x. x\<lparr>c_max_proc := int (NPROC div NCONT), c_max_sz := MAX_CMEM div of_nat NCONT,
                 c_max_dsk := MAX_CDISK div of_nat NCONT, c_used_dsk := 0, c_used_mem := 0, c_used_proc := 0,
                 c_name := nm, c_state := CINITED, c_nextlocalpid := 1, c_nextproctorun := None, c_isroot := 0,
                 c_ticks := 0\<rparr>) s in
           bindE (release (LCont c) s) (\<lambda>s.
           setcontrootdir name name s)))))"

definition kcstop :: "u8 list \<Rightarrow> 'a kmem_scheme \<Rightarrow> (int \<times> 'a kmem_scheme) kres" where
  "kcstop name s =
     bindE (name2cont name s) (\<lambda>r.
     case r of
       None \<Rightarrow> Inr (-1, s)
     | Some c \<Rightarrow>
         if c_isroot (conts s ! c) \<noteq> 0 then Inr (-1, s)
         else if c_state (conts s ! c) \<noteq> CRUNNABLE \<and> c_state (conts s ! c) \<noteq> CPAUSED then Inr (-1, s)
         else
           bindE (acquire (LCont c) s) (\<lambda>s.
           bindE (containerkillall c s) (\<lambda>(_, s).
           bindE (release (LCont c) s) (\<lambda>s.
           let s = upd_cont c (\<lambda>x. x\<lparr>c_state := CSTOPPED\<rparr>) s in
           bindE (freecontainer c s) (\<lambda>(_, s).
           Inr (1, resetticksforcontainers s))))))"

section \<open>Reports\<close>

definition cstate_name :: "contstate \<Rightarrow> u8 list" where
  "cstate_name x = (case x of CUNUSED \<Rightarrow> lit ''unused'' | CINITED \<Rightarrow> lit ''inited'' | CRUNNABLE \<Rightarrow> lit ''runnable''
     | CPAUSED \<Rightarrow> lit ''paused'' | CSTOPPED \<Rightarrow> lit ''stopped'')"

text \<open>\<open>struct cinfo\<close>: 88 bytes.\<close>

definition put_int :: "u8 list \<Rightarrow> nat \<Rightarrow> int \<Rightarrow> u8 list" where
  "put_int d k v = splice d k (bytes_of 4 (word_of_int v :: u32))"

definition put64 :: "u8 list \<Rightarrow> nat \<Rightarrow> u64 \<Rightarrow> u8 list" where
  "put64 d k v = splice d k (bytes_of 8 v)"

definition put_str :: "u8 list \<Rightarrow> nat \<Rightarrow> u8 list \<Rightarrow> u8 list kres" where
  "put_str d k name = bindE (strncpy (slice d k 16) name 16) (\<lambda>nm. Inr (splice d k nm))"

definition put_usage :: "int \<Rightarrow> u64 \<Rightarrow> u64 \<Rightarrow> nat \<Rightarrow> u8 list \<Rightarrow> u8 list" where
  "put_usage np mm dk b d = put64 (put64 (put_int d (b + 40) np) (b + 48) mm) (b + 56) dk"

definition put_cinfo :: "container \<Rightarrow> nat \<Rightarrow> u8 list \<Rightarrow> u8 list kres" where
  "put_cinfo x b d =
     bindE (put_str d b (c_name x)) (\<lambda>d.
     bindE (put_str d (b + 64) (cstate_name (c_state x))) (\<lambda>d.
     let d = put64 (put64 d (b + 32) (c_max_dsk x)) (b + 24) (c_max_sz x);
         d = put_int d (b + 16) (c_max_proc x);
         d = put_usage (c_used_proc x) (c_used_mem x) (c_used_dsk x) b d in
     Inr (put_int d (b + 80) (c_ticks x))))"

definition continfo :: "u8 list \<Rightarrow> u64 \<Rightarrow> 'a kmem_scheme \<Rightarrow> (int \<times> 'a kmem_scheme) kres" where
  "continfo stack info_c s =
     bindE (mycont s) (\<lambda>c.
     if c_isroot (conts s ! c) \<noteq> 1 then Inr (-1, s)
     else
       bindE (foldE (\<lambda>i d. put_cinfo (conts s ! i) (88 * i) d) [0..<NCONT] stack) (\<lambda>d.
       let d = put_usage (sum_list (map c_used_proc (take NCONT (conts s)))) (sum_list (map c_used_mem (take NCONT (conts s))))
             (sum_list (map c_used_dsk (take NCONT (conts s)))) (88 * ROOTCONT) d in
       bindE (mypagetable s) (\<lambda>pt.
       bindE (copyout pt info_c (take (88 * NCONT) d) s) (\<lambda>(_, s). Inr (1, s)))))"

text \<open>\<open>struct pdata\<close>: 44 bytes, 64 of them, then \<open>numproc\<close>.\<close>

definition put_pdata :: "bool \<Rightarrow> proc \<Rightarrow> u8 list \<Rightarrow> nat \<Rightarrow> u8 list \<Rightarrow> u8 list kres" where
  "put_pdata isroot x contname b d =
     (let d = (if isroot then put_int d b (p_pid x) else d) in
      bindE (put_str d (b + 12) (p_name x)) (\<lambda>d.
      let d = put_int (put_int d (b + 8) (uint (p_sz x))) (b + 4) (p_local_pid x) in
      if isroot then put_str d (b + 28) contname else Inr d))"

definition kpinfo :: "u8 list \<Rightarrow> u64 \<Rightarrow> 'a kmem_scheme \<Rightarrow> (int \<times> 'a kmem_scheme) kres" where
  "kpinfo stack info_p s =
     bindE (mycont s) (\<lambda>me.
     let isroot = (c_isroot (conts s ! me) \<noteq> 0) in
     bindE (foldE (\<lambda>p (count, d, s).
         bindE (acquire (LProc p) s) (\<lambda>s.
         let x = procs s ! p in
         bindE (if isroot then
                  if p_state x = UNUSED then Inr (count, d)
                  else
                    bindE (deref (p_cont x)) (\<lambda>c.
                    if c_state (conts s ! c) \<noteq> CUNUSED \<and> c_state (conts s ! c) \<noteq> CSTOPPED then
                      bindE (put_pdata True x (c_name (conts s ! c)) (44 * count) d) (\<lambda>d. Inr (count + 1, d))
                    else Inr (count, d))
                else if p_cont x = Some me \<and> p_state x \<noteq> UNUSED then
                  bindE (put_pdata False x [] (44 * count) d) (\<lambda>d. Inr (count + 1, d))
                else Inr (count, d)) (\<lambda>(count, d).
         let d = put_int d (44 * NPROC) (int count) in
         bindE (release (LProc p) s) (\<lambda>s. Inr (count, d, s))))) [0..<NPROC] (0, stack, s)) (\<lambda>(count, d, s).
     bindE (mypagetable s) (\<lambda>pt.
     bindE (copyout pt info_p (take (44 * NPROC + 4) d) s) (\<lambda>(_, s).
     Inr (if isroot then 6 else 0, s)))))"

end
