(* ===== verification/Sysproc.thy ===== *)
theory Sysproc
  imports Contops
begin

text \<open>
  System call arguments (\<open>kernel/syscall.c\<close>) and the calls of
  \<open>kernel/sysproc.c\<close>.  The trace messages some calls print are left out.

  \<open>env\<close> collects what the calls take from outside the model: the linker's
  addresses of \<open>trampoline\<close> and \<open>forkret\<close>, the bytes that the kernel stack
  holds where a call has its local variables, an address on that stack, and
  the value of an uninitialised pointer to a file.
\<close>

section \<open>Arguments\<close>

record env =
  e_trampoline :: u64
  e_forkret :: u64
  e_stack :: "u8 list"
  e_kaddr :: u64
  e_file :: "nat option"

definition MAXPATH :: nat where "MAXPATH = 128"

definition myp :: "'a ktab_scheme \<Rightarrow> nat kres" where
  "myp s = deref (curproc s)"

definition fetchaddr :: "u64 \<Rightarrow> 'a kmem_scheme \<Rightarrow> (int \<times> u64) kres" where
  "fetchaddr addr s =
     bindE (myp s) (\<lambda>p.
     let x = procs s ! p in
     if addr \<ge> p_sz x \<or> addr + 8 > p_sz x then Inr (-1, 0)
     else
       bindE (copyin (p_pagetable x) addr 8 s) (\<lambda>(r, d).
       if r \<noteq> 0 then Inr (-1, 0) else Inr (0, get64 d 0)))"

text \<open>The result and the bytes stored in \<open>buf\<close>.\<close>

definition fetchstr :: "u64 \<Rightarrow> nat \<Rightarrow> 'a kmem_scheme \<Rightarrow> (int \<times> u8 list) kres" where
  "fetchstr addr mx s =
     bindE (mypagetable s) (\<lambda>pt.
     bindE (copyinstr pt addr mx s) (\<lambda>(err, buf).
     if err < 0 then Inr (err, buf)
     else bindE (strlen buf) (\<lambda>n. Inr (int n, buf))))"

definition argraw :: "nat \<Rightarrow> 'a kmem_scheme \<Rightarrow> u64 kres" where
  "argraw n s =
     bindE (myp s) (\<lambda>p.
     if n \<le> 5 then rd64 (p_tf (procs s ! p) + TF_a0 + 8 * of_nat n) s
     else Inl (Panic ''argraw''))"

definition argint :: "nat \<Rightarrow> 'a kmem_scheme \<Rightarrow> int kres" where
  "argint n s = bindE (argraw n s) (\<lambda>v. Inr (sint (ucast v :: u32)))"

definition argaddr :: "nat \<Rightarrow> 'a kmem_scheme \<Rightarrow> u64 kres" where
  "argaddr n s = argraw n s"

definition argstr :: "nat \<Rightarrow> nat \<Rightarrow> 'a kmem_scheme \<Rightarrow> (int \<times> u8 list) kres" where
  "argstr n mx s = bindE (argaddr n s) (\<lambda>addr. fetchstr addr mx s)"

text \<open>The 64 bit result of a call that returns an \<open>int\<close>.\<close>

definition ret :: "int \<times> 's \<Rightarrow> (u64 \<times> 's) kres" where
  "ret = (\<lambda>(r, s). Inr (word_of_int r, s))"

text \<open>A call whose first argument is a name: \<open>-1\<close> if it cannot be fetched.\<close>

definition with_name :: "(u8 list \<Rightarrow> (u64 \<times> 's) kres) \<Rightarrow> int \<times> u8 list \<Rightarrow> 's \<Rightarrow> (u64 \<times> 's) kres" where
  "with_name f = (\<lambda>(n, name) s. if n < 0 then Inr (-1, s) else f name)"

section \<open>Processes\<close>

definition sys_exit :: "env \<Rightarrow> 'a filek_scheme \<Rightarrow> (u64 \<times> 'a filek_scheme) kres" where
  "sys_exit e s = bindE (argint 0 s) (\<lambda>n. bindE (exit n s) (\<lambda>s. Inl (Exits n)))"

definition sys_getpid :: "env \<Rightarrow> 'a filek_scheme \<Rightarrow> (u64 \<times> 'a filek_scheme) kres" where
  "sys_getpid e s = bindE (myp s) (\<lambda>p. Inr (word_of_int (p_pid (procs s ! p)), s))"

definition sys_fork :: "env \<Rightarrow> 'a filek_scheme \<Rightarrow> (u64 \<times> 'a filek_scheme) kres" where
  "sys_fork e s = bindE (fork (e_trampoline e) (e_forkret e) None s) ret"

definition sys_wait :: "env \<Rightarrow> 'a filek_scheme \<Rightarrow> (u64 \<times> 'a filek_scheme) kres" where
  "sys_wait e s =
     bindE (argaddr 0 s) (\<lambda>p.
     bindE (wait p s) (\<lambda>x. bindE (wait_ret x) ret))"

definition sys_sbrk :: "env \<Rightarrow> 'a filek_scheme \<Rightarrow> (u64 \<times> 'a filek_scheme) kres" where
  "sys_sbrk e s =
     bindE (argint 0 s) (\<lambda>n.
     bindE (myp s) (\<lambda>p.
     let addr = scast (ucast (p_sz (procs s ! p)) :: u32) in
     bindE (growproc n s) (\<lambda>(r, s).
     Inr (if r < 0 then -1 else addr, s))))"

text \<open>
  \<open>ticks - ticks0 < n\<close> compares unsigned; \<open>since\<close> is \<open>ticks0\<close>.  The loop
  sleeps or is done: it is entered again after each wakeup.
\<close>

definition sleep_check :: "u32 \<Rightarrow> int \<Rightarrow> 'a filek_scheme \<Rightarrow> (int outcome \<times> 'a filek_scheme) kres" where
  "sleep_check since n s =
     (if ticks s - since < word_of_int n then
        bindE (mykilled s) (\<lambda>k.
        if k then bindE (release LTicks s) (\<lambda>s. Inr (Return (-1), s))
        else Inr (Waits ChTicks 0, s))
      else bindE (release LTicks s) (\<lambda>s. Inr (Return 0, s)))"

definition sys_sleep :: "env \<Rightarrow> 'a filek_scheme \<Rightarrow> (u64 \<times> 'a filek_scheme) kres" where
  "sys_sleep e s =
     bindE (argint 0 s) (\<lambda>n.
     bindE (acquire LTicks s) (\<lambda>s.
     bindE (sleep_check (ticks s) n s) (\<lambda>x. bindE (wait_ret x) ret)))"

definition sys_kill :: "env \<Rightarrow> 'a filek_scheme \<Rightarrow> (u64 \<times> 'a filek_scheme) kres" where
  "sys_kill e s = bindE (argint 0 s) (\<lambda>pid. bindE (kill pid s) ret)"

definition sys_uptime :: "env \<Rightarrow> 'a filek_scheme \<Rightarrow> (u64 \<times> 'a filek_scheme) kres" where
  "sys_uptime e s =
     bindE (acquire LTicks s) (\<lambda>s.
     let xticks = ticks s in
     bindE (release LTicks s) (\<lambda>s. Inr (ucast xticks, s)))"

definition sys_numprocs :: "env \<Rightarrow> 'a filek_scheme \<Rightarrow> (u64 \<times> 'a filek_scheme) kres" where
  "sys_numprocs e s = ret (numprocs s, s)"

definition sys_traceon :: "env \<Rightarrow> 'a filek_scheme \<Rightarrow> (u64 \<times> 'a filek_scheme) kres" where
  "sys_traceon e s = bindE (ktraceon s) ret"

definition sys_psinfo :: "env \<Rightarrow> 'a filek_scheme \<Rightarrow> (u64 \<times> 'a filek_scheme) kres" where
  "sys_psinfo e s = bindE (argaddr 0 s) (\<lambda>info_p. bindE (kpinfo (e_stack e) info_p s) ret)"

section \<open>Containers\<close>

definition sys_cinfo :: "env \<Rightarrow> 'a filek_scheme \<Rightarrow> (u64 \<times> 'a filek_scheme) kres" where
  "sys_cinfo e s = bindE (argaddr 0 s) (\<lambda>info_c. bindE (continfo (e_stack e) info_c s) ret)"

definition sys_df :: "env \<Rightarrow> 'a filek_scheme \<Rightarrow> (u64 \<times> 'a filek_scheme) kres" where
  "sys_df e s = bindE (kcdf s) (\<lambda>(r, _). ret (r, s))"

definition sys_cfree :: "env \<Rightarrow> 'a filek_scheme \<Rightarrow> (u64 \<times> 'a filek_scheme) kres" where
  "sys_cfree e s = bindE (kcfreemem s) (\<lambda>(r, _). ret (r, s))"

definition sys_setmaxcmem :: "env \<Rightarrow> 'a filek_scheme \<Rightarrow> (u64 \<times> 'a filek_scheme) kres" where
  "sys_setmaxcmem e s =
     bindE (argstr 0 MAXPATH s) (\<lambda>a.
     with_name (\<lambda>path. bindE (argint 1 s) (\<lambda>mem. bindE (setmaxmem path (word_of_int mem) s) ret)) a s)"

definition sys_setmaxcdsk :: "env \<Rightarrow> 'a filek_scheme \<Rightarrow> (u64 \<times> 'a filek_scheme) kres" where
  "sys_setmaxcdsk e s =
     bindE (argstr 0 MAXPATH s) (\<lambda>a.
     with_name (\<lambda>path. bindE (argint 1 s) (\<lambda>dsk. bindE (setmaxdsk path (word_of_int dsk) s) ret)) a s)"

definition sys_setmaxcproc :: "env \<Rightarrow> 'a filek_scheme \<Rightarrow> (u64 \<times> 'a filek_scheme) kres" where
  "sys_setmaxcproc e s =
     bindE (argstr 0 MAXPATH s) (\<lambda>a.
     with_name (\<lambda>path. bindE (argint 1 s) (\<lambda>numproc. bindE (setmaxproc path numproc s) ret)) a s)"

definition sys_getticks :: "env \<Rightarrow> 'a filek_scheme \<Rightarrow> (u64 \<times> 'a filek_scheme) kres" where
  "sys_getticks e s = bindE (myp s) (\<lambda>p. ret (p_ticks (procs s ! p), s))"

end
