(* ===== verification/Sysfile.thy ===== *)
theory Sysfile
  imports Sysproc
begin

text \<open>
  The file system calls (\<open>kernel/sysfile.c\<close>) and the dispatcher
  (\<open>syscall\<close> in \<open>kernel/syscall.c\<close>).  The trace messages are left out.  A
  path that could not be fetched leaves the stack's old bytes in the buffer;
  the calls that use it all the same do so here too.
\<close>

section \<open>File descriptors\<close>

definition O_RDONLY :: int where "O_RDONLY = 0"
definition O_WRONLY :: int where "O_WRONLY = 1"
definition O_RDWR :: int where "O_RDWR = 2"
definition O_CREATE :: int where "O_CREATE = 0x200"

text \<open>The descriptor and its file, or \<open>None\<close> for \<open>-1\<close>.\<close>

definition argfd :: "nat \<Rightarrow> 'a kmem_scheme \<Rightarrow> (nat \<times> nat) option kres" where
  "argfd n s =
     bindE (argint n s) (\<lambda>fd.
     bindE (myp s) (\<lambda>p.
     if fd < 0 \<or> fd \<ge> int NOFILE then Inr None
     else Inr (case p_ofile (procs s ! p) ! nat fd of None \<Rightarrow> None | Some f \<Rightarrow> Some (nat fd, f))))"

definition set_ofile :: "nat \<Rightarrow> nat \<Rightarrow> nat option \<Rightarrow> 'a ktab_scheme \<Rightarrow> 'a ktab_scheme" where
  "set_ofile p fd f s = upd_proc p (\<lambda>x. x\<lparr>p_ofile := (p_ofile x)[fd := f]\<rparr>) s"

definition fdalloc :: "nat option \<Rightarrow> 'a ktab_scheme \<Rightarrow> (nat option \<times> 'a ktab_scheme) kres" where
  "fdalloc f s =
     bindE (myp s) (\<lambda>p.
     case List.find (\<lambda>fd. p_ofile (procs s ! p) ! fd = None) [0..<NOFILE] of
       None \<Rightarrow> Inr (None, s)
     | Some fd \<Rightarrow> Inr (Some fd, set_ofile p fd f s))"

definition sys_dup :: "env \<Rightarrow> 'a filek_scheme \<Rightarrow> (u64 \<times> 'a filek_scheme) kres" where
  "sys_dup e s =
     bindE (argfd 0 s) (\<lambda>a.
     bindE (fdalloc (case a of Some (_, f) \<Rightarrow> Some f | None \<Rightarrow> e_file e) s) (\<lambda>(r, s).
     case (a, r) of
       (Some (_, f), Some fd) \<Rightarrow> bindE (filedup f s) (\<lambda>(_, s). Inr (of_nat fd, s))
     | _ \<Rightarrow> Inr (-1, s)))"

definition sys_read :: "env \<Rightarrow> 'a filek_scheme \<Rightarrow> (u64 \<times> 'a filek_scheme) kres" where
  "sys_read e s =
     bindE (argfd 0 s) (\<lambda>a.
     bindE (argint 2 s) (\<lambda>n.
     bindE (argaddr 1 s) (\<lambda>p.
     case a of None \<Rightarrow> Inr (-1, s) | Some (_, f) \<Rightarrow> bindE (fileread f p n s) ret)))"

text \<open>\<open>char character[n]\<close> has to fit in the kernel stack, which is one page.\<close>

definition sys_write :: "env \<Rightarrow> 'a filek_scheme \<Rightarrow> (u64 \<times> 'a filek_scheme) kres" where
  "sys_write e s =
     bindE (argfd 0 s) (\<lambda>a.
     bindE (argint 2 s) (\<lambda>n.
     bindE (argaddr 1 s) (\<lambda>p.
     if n < 0 \<or> n > 4096 then Inl Fault
     else
       bindE (fetchstr p (nat n) s) (\<lambda>_.
       case a of None \<Rightarrow> Inr (-1, s) | Some (_, f) \<Rightarrow> bindE (filewrite f p n s) ret))))"

definition sys_close :: "env \<Rightarrow> 'a filek_scheme \<Rightarrow> (u64 \<times> 'a filek_scheme) kres" where
  "sys_close e s =
     bindE (argfd 0 s) (\<lambda>a.
     case a of
       None \<Rightarrow> Inr (-1, s)
     | Some (fd, f) \<Rightarrow>
         bindE (myp s) (\<lambda>p.
         bindE (fileclose f (set_ofile p fd None s)) (\<lambda>s. Inr (0, s))))"

definition sys_fstat :: "env \<Rightarrow> 'a filek_scheme \<Rightarrow> (u64 \<times> 'a filek_scheme) kres" where
  "sys_fstat e s =
     bindE (argfd 0 s) (\<lambda>a.
     bindE (argaddr 1 s) (\<lambda>st.
     case a of None \<Rightarrow> Inr (-1, s) | Some (_, f) \<Rightarrow> bindE (filestat f st s) ret))"

section \<open>Links\<close>

text \<open>\<open>end_op(); return r\<close>\<close>

definition end_ret :: "u64 \<Rightarrow> 'a logk_scheme \<Rightarrow> (u64 \<times> 'a logk_scheme) kres" where
  "end_ret r s = bindE (end_op s) (\<lambda>s. Inr (r, s))"

definition add_nlink :: "nat \<Rightarrow> int \<Rightarrow> 'a fsk_scheme \<Rightarrow> 'a fsk_scheme kres" where
  "add_nlink ip d s = iupdate ip (upd_inode ip (\<lambda>x. x\<lparr>i_nlink := sint (word_of_int (i_nlink x + d) :: u16)\<rparr>) s)"

definition name0 :: "u8 list" where "name0 = replicate DIRSIZ 0"

definition sys_link :: "env \<Rightarrow> 'a filek_scheme \<Rightarrow> (u64 \<times> 'a filek_scheme) kres" where
  "sys_link e s =
     bindE (argstr 0 MAXPATH s) (\<lambda>(rv1, old).
     bindE (argstr 1 MAXPATH s) (\<lambda>(rv2, new).
     if rv1 < 0 \<or> rv2 < 0 then Inr (-1, s)
     else
       bindE (begin_op s) (\<lambda>s.
       bindE (namei old s) (\<lambda>(r, s).
       case r of
         None \<Rightarrow> end_ret (-1) s
       | Some ip \<Rightarrow>
           bindE (ilock (Some ip) s) (\<lambda>s.
           if i_type (icache s ! ip) = T_DIR then bindE (iunlockput ip s) (end_ret (-1))
           else
             let bad = (\<lambda>s.
                   bindE (ilock (Some ip) s) (\<lambda>s.
                   bindE (add_nlink ip (-1) s) (\<lambda>s.
                   bindE (iunlockput ip s) (end_ret (-1))))) in
             bindE (add_nlink ip 1 s) (\<lambda>s.
             bindE (iunlock (Some ip) s) (\<lambda>s.
             bindE (nameiparent new name0 s) (\<lambda>(r, name, s).
             case r of
               None \<Rightarrow> bad s
             | Some dp \<Rightarrow>
                 bindE (ilock (Some dp) s) (\<lambda>s.
                 bindE (if i_dev (icache s ! dp) \<noteq> i_dev (icache s ! ip) then Inr (-1, s)
                        else dirlink dp name (i_inum (icache s ! ip)) s) (\<lambda>(r, s).
                 if r < 0 then bindE (iunlockput dp s) bad
                 else
                   bindE (iunlockput dp s) (\<lambda>s.
                   bindE (iput ip s) (end_ret 0))))))))))))"

definition isdirempty :: "nat \<Rightarrow> 'a fsk_scheme \<Rightarrow> (bool \<times> 'a fsk_scheme) kres" where
  "isdirempty dp s =
     bindE (foreach [2..<dir_slots dp s] (\<lambda>i s.
       bindE (read_dirent dp i ''isdirempty: readi'' s) (\<lambda>(de, s).
       Inr (if de_inum de \<noteq> 0 then Some () else None, s))) s) (\<lambda>(r, s).
     Inr (r = None, s))"

definition sys_unlink :: "env \<Rightarrow> 'a filek_scheme \<Rightarrow> (u64 \<times> 'a filek_scheme) kres" where
  "sys_unlink e s =
     bindE (argstr 0 MAXPATH s) (\<lambda>(rv1, path).
     if rv1 < 0 then Inr (-1, s)
     else
       bindE (begin_op s) (\<lambda>s.
       bindE (nameiparent path name0 s) (\<lambda>(r, name, s).
       case r of
         None \<Rightarrow> end_ret (-1) s
       | Some dp \<Rightarrow>
           let bad = (\<lambda>s. bindE (iunlockput dp s) (end_ret (-1))) in
           bindE (ilock (Some dp) s) (\<lambda>s.
           bindE (namecmp name (lit ''.'')) (\<lambda>c1.
           bindE (namecmp name (lit ''..'')) (\<lambda>c2.
           if c1 = 0 \<or> c2 = 0 then bad s
           else
             bindE (dirlookup dp name s) (\<lambda>(r, s).
             case r of
               None \<Rightarrow> bad s
             | Some (ip, off) \<Rightarrow>
                 bindE (ilock (Some ip) s) (\<lambda>s.
                 if i_nlink (icache s ! ip) < 1 then Inl (Panic ''unlink: nlink < 1'')
                 else
                   bindE (if i_type (icache s ! ip) = T_DIR then isdirempty ip s else Inr (True, s)) (\<lambda>(empty, s).
                   if \<not> empty then bindE (iunlockput ip s) bad
                   else
                     bindE (writei dp (KernSrc (replicate DIRENT 0)) off (of_nat DIRENT) s) (\<lambda>(r, s).
                     if r \<noteq> int DIRENT then Inl (Panic ''unlink: writei'')
                     else
                       bindE (if i_type (icache s ! ip) = T_DIR then add_nlink dp (-1) s else Inr s) (\<lambda>s.
                       bindE (iunlockput dp s) (\<lambda>s.
                       bindE (add_nlink ip (-1) s) (\<lambda>s.
                       bindE (iunlockput ip s) (end_ret 0))))))))))))))"

section \<open>Creating\<close>

definition create :: "u8 list \<Rightarrow> int \<Rightarrow> int \<Rightarrow> int \<Rightarrow> 'a fsk_scheme \<Rightarrow> (nat option \<times> 'a fsk_scheme) kres" where
  "create path type major minor s =
     bindE (nameiparent path name0 s) (\<lambda>(r, name, s).
     case r of
       None \<Rightarrow> Inr (None, s)
     | Some dp \<Rightarrow>
         bindE (ilock (Some dp) s) (\<lambda>s.
         bindE (dirlookup dp name s) (\<lambda>(r, s).
         case r of
           Some (ip, _) \<Rightarrow>
             bindE (iunlockput dp s) (\<lambda>s.
             bindE (ilock (Some ip) s) (\<lambda>s.
             if type = T_FILE \<and> (i_type (icache s ! ip) = T_FILE \<or> i_type (icache s ! ip) = T_DEVICE)
             then Inr (Some ip, s)
             else bindE (iunlockput ip s) (\<lambda>s. Inr (None, s))))
         | None \<Rightarrow>
             bindE (ialloc (i_dev (icache s ! dp)) type s) (\<lambda>(ip, s).
             bindE (ilock (Some ip) s) (\<lambda>s.
             let s = upd_inode ip (\<lambda>x. x\<lparr>i_major := major, i_minor := minor, i_nlink := 1\<rparr>) s in
             bindE (iupdate ip s) (\<lambda>s.
             bindE (if type = T_DIR then
                 bindE (add_nlink dp 1 s) (\<lambda>s.
                 bindE (dirlink ip (lit ''.'') (i_inum (icache s ! ip)) s) (\<lambda>(r1, s).
                 if r1 < 0 then Inl (Panic ''create dots'')
                 else
                   bindE (dirlink ip (lit ''..'') (i_inum (icache s ! dp)) s) (\<lambda>(r2, s).
                   if r2 < 0 then Inl (Panic ''create dots'') else Inr s)))
               else Inr s) (\<lambda>s.
             bindE (dirlink dp name (i_inum (icache s ! ip)) s) (\<lambda>(r, s).
             if r < 0 then Inl (Panic ''create: dirlink'')
             else bindE (iunlockput dp s) (\<lambda>s. Inr (Some ip, s))))))))))"

definition sys_open :: "env \<Rightarrow> 'a filek_scheme \<Rightarrow> (u64 \<times> 'a filek_scheme) kres" where
  "sys_open e s =
     bindE (argstr 0 MAXPATH s) (\<lambda>(n, path).
     bindE (argint 1 s) (\<lambda>omode.
     if n < 0 then Inr (-1, s)
     else
       bindE (begin_op s) (\<lambda>s.
       bindE (if omode AND O_CREATE \<noteq> 0 then create path T_FILE 0 0 s
              else
                bindE (namei path s) (\<lambda>(r, s).
                case r of
                  None \<Rightarrow> Inr (None, s)
                | Some ip \<Rightarrow>
                    bindE (ilock (Some ip) s) (\<lambda>s.
                    if i_type (icache s ! ip) = T_DIR \<and> omode \<noteq> O_RDONLY
                    then bindE (iunlockput ip s) (\<lambda>s. Inr (None, s))
                    else Inr (Some ip, s)))) (\<lambda>(r, s).
       case r of
         None \<Rightarrow> end_ret (-1) s
       | Some ip \<Rightarrow>
           let x = icache s ! ip in
           if i_type x = T_DEVICE \<and> (i_major x < 0 \<or> i_major x \<ge> int NDEV) then bindE (iunlockput ip s) (end_ret (-1))
           else
             bindE (filealloc s) (\<lambda>(f, s).
             bindE (case f of None \<Rightarrow> Inr (None, s) | Some _ \<Rightarrow> fdalloc f s) (\<lambda>(fd, s).
             case (f, fd) of
               (Some f, Some fd) \<Rightarrow>
                 (let s = (if i_type x = T_DEVICE
                           then upd_file f (\<lambda>y. y\<lparr>f_type := FD_DEVICE, f_major := i_major x\<rparr>) s
                           else upd_file f (\<lambda>y. y\<lparr>f_type := FD_INODE, f_off := 0\<rparr>) s);
                      s = upd_file f (\<lambda>y. y\<lparr>f_ip := Some ip, f_readable := (omode AND O_WRONLY = 0),
                            f_writable := (omode AND O_WRONLY \<noteq> 0 \<or> omode AND O_RDWR \<noteq> 0)\<rparr>) s in
                  bindE (iunlock (Some ip) s) (end_ret (of_nat fd)))
             | _ \<Rightarrow>
                 bindE (close_opt f s) (\<lambda>s.
                 bindE (iunlockput ip s) (end_ret (-1)))))))))"

text \<open>A path buffer after a fetch that may have failed.\<close>

definition path_buf :: "env \<Rightarrow> u8 list \<Rightarrow> u8 list" where
  "path_buf e xs = xs @ drop (length xs) (take MAXPATH (e_stack e))"

definition sys_mkdir :: "env \<Rightarrow> 'a filek_scheme \<Rightarrow> (u64 \<times> 'a filek_scheme) kres" where
  "sys_mkdir e s =
     bindE (begin_op s) (\<lambda>s.
     bindE (argstr 0 MAXPATH s) (\<lambda>(rv, path).
     bindE (create (path_buf e path) T_DIR 0 0 s) (\<lambda>(r, s).
     case r of
       None \<Rightarrow> end_ret (-1) s
     | Some ip \<Rightarrow> if rv < 0 then end_ret (-1) s else bindE (iunlockput ip s) (end_ret 0))))"

text \<open>\<open>major\<close> and \<open>minor\<close> are cut to 16 bits by the call of \<open>create\<close>.\<close>

definition sys_mknod :: "env \<Rightarrow> 'a filek_scheme \<Rightarrow> (u64 \<times> 'a filek_scheme) kres" where
  "sys_mknod e s =
     bindE (begin_op s) (\<lambda>s.
     bindE (argstr 0 MAXPATH s) (\<lambda>(rv1, path).
     bindE (argint 1 s) (\<lambda>major.
     bindE (argint 2 s) (\<lambda>minor.
     bindE (create (path_buf e path) T_DEVICE (sint (word_of_int major :: u16)) (sint (word_of_int minor :: u16)) s) (\<lambda>(r, s).
     case r of
       None \<Rightarrow> end_ret (-1) s
     | Some ip \<Rightarrow> if rv1 < 0 then end_ret (-1) s else bindE (iunlockput ip s) (end_ret 0))))))"

definition sys_chdir :: "env \<Rightarrow> 'a filek_scheme \<Rightarrow> (u64 \<times> 'a filek_scheme) kres" where
  "sys_chdir e s =
     bindE (myp s) (\<lambda>p.
     bindE (begin_op s) (\<lambda>s.
     bindE (argstr 0 MAXPATH s) (\<lambda>(rv1, path).
     bindE (namei (path_buf e path) s) (\<lambda>(r, s).
     case r of
       None \<Rightarrow> end_ret (-1) s
     | Some ip \<Rightarrow>
         if rv1 < 0 then end_ret (-1) s
         else
           bindE (ilock (Some ip) s) (\<lambda>s.
           if i_type (icache s ! ip) \<noteq> T_DIR then bindE (iunlockput ip s) (end_ret (-1))
           else
             bindE (iunlock (Some ip) s) (\<lambda>s.
             bindE (deref (p_cwd (procs s ! p))) (\<lambda>d.
             bindE (iput d s) (\<lambda>s.
             bindE (end_op s) (\<lambda>s.
             Inr (0, upd_proc p (\<lambda>x. x\<lparr>p_cwd := Some ip\<rparr>) s))))))))))"

section \<open>Exec and pipe\<close>

text \<open>The loop that fetches the arguments: whether it succeeded, the pages and the strings so far.\<close>

fun exec_args :: "nat \<Rightarrow> nat \<Rightarrow> u64 \<Rightarrow> u64 list \<Rightarrow> u8 list list \<Rightarrow> 'a kmem_scheme \<Rightarrow>
    (bool \<times> u64 list \<times> u8 list list \<times> 'a kmem_scheme) kres" where
  "exec_args 0 i uargv pages strs s = Inr (False, pages, strs, s)"
| "exec_args (Suc k) i uargv pages strs s =
     bindE (fetchaddr (uargv + 8 * of_nat i) s) (\<lambda>(r, uarg).
     if r < 0 then Inr (False, pages, strs, s)
     else if uarg = 0 then Inr (True, pages, strs, s)
     else
       bindE (kalloc s) (\<lambda>(pg, s).
       if pg = 0 then Inl (Panic ''sys_exec kalloc'')
       else
         bindE (fetchstr uarg 4096 s) (\<lambda>(n, str).
         let s = s\<lparr>mem := write_bytes (mem s) pg str\<rparr> in
         if n < 0 then Inr (False, pages @ [pg], strs, s)
         else exec_args k (i + 1) uargv (pages @ [pg]) (strs @ [str]) s)))"

definition sys_exec :: "env \<Rightarrow> 'a filek_scheme \<Rightarrow> (u64 \<times> 'a filek_scheme) kres" where
  "sys_exec e s =
     bindE (argstr 0 MAXPATH s) (\<lambda>(n, path).
     if n < 0 then Inr (-1, s)
     else
       bindE (argaddr 1 s) (\<lambda>uargv.
       bindE (exec_args MAXARG 0 uargv [] [] s) (\<lambda>(ok, pages, argv, s).
       bindE (if ok then exec (e_trampoline e) path argv s else Inr (-1, s)) (\<lambda>(r, s).
       bindE (foldE kfree pages s) (\<lambda>s. ret (r, s))))))"

definition sys_pipe :: "env \<Rightarrow> 'a filek_scheme \<Rightarrow> (u64 \<times> 'a filek_scheme) kres" where
  "sys_pipe e s =
     bindE (myp s) (\<lambda>p.
     bindE (argaddr 0 s) (\<lambda>fdarray.
     bindE (pipealloc s) (\<lambda>(rv2, r0, r1, s).
     case (r0, r1) of
       (Some fr, Some fw) \<Rightarrow>
         if rv2 < 0 then Inr (-1, s)
         else
           let close = (\<lambda>s. bindE (fileclose fr s) (\<lambda>s. bindE (fileclose fw s) (\<lambda>s. Inr (-1, s)))) in
           bindE (fdalloc r0 s) (\<lambda>(fd0, s).
           case fd0 of
             None \<Rightarrow> close s
           | Some fd0 \<Rightarrow>
               bindE (fdalloc r1 s) (\<lambda>(fd1, s).
               case fd1 of
                 None \<Rightarrow> close (set_ofile p fd0 None s)
               | Some fd1 \<Rightarrow>
                   let pt = p_pagetable (procs s ! p) in
                   bindE (copyout pt fdarray (bytes_of 4 (of_nat fd0 :: u32)) s) (\<lambda>(c0, s).
                   bindE (if c0 < 0 then Inr (c0, s) else copyout pt (fdarray + 4) (bytes_of 4 (of_nat fd1 :: u32)) s) (\<lambda>(c1, s).
                   if c1 < 0 then close (set_ofile p fd1 None (set_ofile p fd0 None s))
                   else Inr (0, s)))))
     | _ \<Rightarrow> Inr (-1, s))))"

section \<open>Suspend, resume and containers\<close>

definition sys_suspend :: "env \<Rightarrow> 'a filek_scheme \<Rightarrow> (u64 \<times> 'a filek_scheme) kres" where
  "sys_suspend e s =
     bindE (argint 0 s) (\<lambda>pid.
     bindE (argfd 1 s) (\<lambda>a.
     case a of
       None \<Rightarrow> Inr (-1, s)
     | Some (_, f) \<Rightarrow> bindE (ksuspend (e_kaddr e) pid f s) (\<lambda>(_, s). Inr (0, s))))"

definition sys_resume :: "env \<Rightarrow> 'a filek_scheme \<Rightarrow> (u64 \<times> 'a filek_scheme) kres" where
  "sys_resume e s =
     bindE (argstr 0 MAXPATH s) (\<lambda>a.
     with_name (\<lambda>path. bindE (kresume (e_trampoline e) path s) (\<lambda>(_, s). Inr (0, s))) a s)"

definition sys_ccreate :: "env \<Rightarrow> 'a filek_scheme \<Rightarrow> (u64 \<times> 'a filek_scheme) kres" where
  "sys_ccreate e s = bindE (argstr 0 MAXPATH s) (\<lambda>a. with_name (\<lambda>path. bindE (kccreate path s) ret) a s)"

definition sys_cfork :: "env \<Rightarrow> 'a filek_scheme \<Rightarrow> (u64 \<times> 'a filek_scheme) kres" where
  "sys_cfork e s =
     bindE (argstr 0 MAXPATH s) (\<lambda>a.
     with_name (\<lambda>path. bindE (kcfork (e_trampoline e) (e_forkret e) path s) ret) a s)"

definition sys_cstart :: "env \<Rightarrow> 'a filek_scheme \<Rightarrow> (u64 \<times> 'a filek_scheme) kres" where
  "sys_cstart e s =
     bindE (argstr 0 MAXPATH s) (\<lambda>(rv1, contname).
     bindE (argstr 1 MAXPATH s) (\<lambda>(rv2, vcname).
     bindE (argint 2 s) (\<lambda>disksize.
     if rv1 < 0 \<or> rv2 < 0 then Inr (-1, s)
     else bindE (kcstart contname vcname (word_of_int disksize) s) ret)))"

definition sys_cstop :: "env \<Rightarrow> 'a filek_scheme \<Rightarrow> (u64 \<times> 'a filek_scheme) kres" where
  "sys_cstop e s = bindE (argstr 0 MAXPATH s) (\<lambda>a. with_name (\<lambda>name. bindE (kcstop name s) ret) a s)"

definition sys_cpause :: "env \<Rightarrow> 'a filek_scheme \<Rightarrow> (u64 \<times> 'a filek_scheme) kres" where
  "sys_cpause e s = bindE (argstr 0 MAXPATH s) (\<lambda>a. with_name (\<lambda>name. bindE (kcpause name s) ret) a s)"

definition sys_cresume :: "env \<Rightarrow> 'a filek_scheme \<Rightarrow> (u64 \<times> 'a filek_scheme) kres" where
  "sys_cresume e s = bindE (argstr 0 MAXPATH s) (\<lambda>a. with_name (\<lambda>name. bindE (kcresume name s) ret) a s)"

section \<open>Dispatch\<close>

text \<open>Entry \<open>n - 1\<close> is the call with number \<open>n\<close> in \<open>kernel/syscall.h\<close>.\<close>

definition syscalls :: "(env \<Rightarrow> 'a filek_scheme \<Rightarrow> (u64 \<times> 'a filek_scheme) kres) list" where
  "syscalls = [sys_fork, sys_exit, sys_wait, sys_pipe, sys_read, sys_kill, sys_exec, sys_fstat, sys_chdir, sys_dup,
     sys_getpid, sys_sbrk, sys_sleep, sys_uptime, sys_open, sys_write, sys_mknod, sys_unlink, sys_link, sys_mkdir,
     sys_close, sys_numprocs, sys_traceon, sys_psinfo, sys_suspend, sys_resume, sys_ccreate, sys_cstart, sys_cfork,
     sys_cstop, sys_cpause, sys_cresume, sys_cinfo, sys_df, sys_cfree, sys_setmaxcmem, sys_setmaxcdsk,
     sys_setmaxcproc, sys_getticks]"

definition syscall :: "env \<Rightarrow> 'a filek_scheme \<Rightarrow> 'a filek_scheme kres" where
  "syscall e s =
     bindE (myp s) (\<lambda>p.
     bindE (rd64 (p_tf (procs s ! p) + TF_a7) s) (\<lambda>a7.
     let num = sint (ucast a7 :: u32) in
     if num > 0 \<and> num < int (length (syscalls :: (env \<Rightarrow> 'a filek_scheme \<Rightarrow> (u64 \<times> 'a filek_scheme) kres) list)) + 1 then
       bindE ((syscalls ! (nat num - 1)) e s) (\<lambda>(r, s). wr64 (p_tf (procs s ! p) + TF_a0) r s)
     else wr64 (p_tf (procs s ! p) + TF_a0) (-1) s))"

end
