(* ===== verification/Spec2Isabelle.thy ===== *)
theory Spec2Isabelle
  imports Spinlock Contprops Procprops Kallocprops Bioprops Path Fileio Consprops Sysfile
begin

text \<open>A verification development for the xv6-riscv kernel with containers.\<close>

end
